(* ===== verification/Prelude.thy ===== *)
theory Prelude
  imports Main "HOL-Library.Word" "HOL-Library.Signed_Division"
begin

unbundle bit_operations_syntax

text \<open>
  Shared vocabulary of the development: the machine integer types of the ARM build
  (\<open>char\<close> is unsigned, \<open>int\<close>, \<open>long\<close> and pointers have 32 bits, \<open>long long\<close> has 64),
  the run-time faults a C expression can raise with the monad of computations that may fault,
  the checked signed 64-bit arithmetic of \<open>loff_t\<close>, and the generic lemmas on words, lists and sums that the component theories use.
\<close>

section \<open>Types\<close>

type_synonym u8 = "8 word"
type_synonym u32 = "32 word"
type_synonym u64 = "64 word"

text \<open>
  What C leaves undefined is a fault of the model: a division by zero, a signed overflow,
  an access outside an array, a null pointer.
\<close>

datatype fault = Div_by_zero | Signed_overflow | Out_of_bounds | Null_pointer

type_synonym 'a result = "fault + 'a"

primrec rbind :: "'a result \<Rightarrow> ('a \<Rightarrow> 'b result) \<Rightarrow> 'b result" where
  "rbind (Inl e) f = Inl e"
| "rbind (Inr x) f = f x"

lemma rbind_cong [fundef_cong]:
  "x = y \<Longrightarrow> (\<And>z. y = Inr z \<Longrightarrow> f z = g z) \<Longrightarrow> rbind x f = rbind y g"
  by (cases y) simp_all

lemma rbind_eq_Inr: "rbind x f = Inr r \<longleftrightarrow> (\<exists>y. x = Inr y \<and> f y = Inr r)"
  by (cases x) simp_all

text \<open>
  Arithmetic with an undefined case: the quotient of two \<open>unsigned int\<close> values, and the sum and
  the product of two \<open>long long\<close> values, which are held as 64-bit words.
\<close>

definition u32_div :: "u32 \<Rightarrow> u32 \<Rightarrow> u32 result" where
  "u32_div a b = (if b = 0 then Inl Div_by_zero else Inr (a div b))"

definition s64_fits :: "int \<Rightarrow> bool" where
  "s64_fits k \<longleftrightarrow> - 9223372036854775808 \<le> k \<and> k < 9223372036854775808"

definition s64_add :: "u64 \<Rightarrow> u64 \<Rightarrow> u64 result" where
  "s64_add a b = (if s64_fits (sint a + sint b) then Inr (a + b) else Inl Signed_overflow)"

definition s64_mul :: "u64 \<Rightarrow> u64 \<Rightarrow> u64 result" where
  "s64_mul a b = (if s64_fits (sint a * sint b) then Inr (a * b) else Inl Signed_overflow)"

named_theorems word_nat \<open>word operations read as natural numbers\<close>

section \<open>Words as natural numbers\<close>

lemma unat_mult_no_wrap [word_nat]:
  fixes a b :: "'a::len word"
  assumes "unat a * unat b < 2 ^ LENGTH('a)"
  shows "unat (a * b) = unat a * unat b"
  using assms by (simp add: unat_word_ariths)

lemma unat_add_no_wrap [word_nat]:
  fixes a b :: "'a::len word"
  assumes "unat a + unat b < 2 ^ LENGTH('a)"
  shows "unat (a + b) = unat a + unat b"
  using assms by (simp add: unat_word_ariths)

lemma unat_sub_no_wrap [word_nat]:
  fixes a b :: "'a::len word"
  assumes "unat b \<le> unat a"
  shows "unat (a - b) = unat a - unat b"
  using assms by (simp add: unat_sub word_le_nat_alt)

lemma unat_ucast_up [word_nat]:
  fixes a :: "'a::len word"
  assumes "LENGTH('a) \<le> LENGTH('b::len)"
  shows "unat (ucast a :: 'b word) = unat a"
proof -
  have "unat a < 2 ^ LENGTH('a)" by (rule unsigned_less)
  also have "\<dots> \<le> 2 ^ LENGTH('b)" using assms by (simp add: power_increasing)
  finally show ?thesis by (simp add: unsigned_ucast_eq take_bit_eq_mod)
qed

lemma unat_ucast_down:
  fixes a :: "'a::len word"
  shows "unat (ucast a :: 'b::len word) = unat a mod 2 ^ LENGTH('b)"
  by (simp only: unsigned_ucast_eq take_bit_eq_mod)

lemma unat_drop_bit [word_nat]:
  fixes a :: "'a::len word"
  shows "unat (drop_bit n a) = unat a div 2 ^ n"
  unfolding unat_drop_bit_eq by (simp only: drop_bit_eq_div)

lemma unat_push_bit [word_nat]:
  fixes a :: "'a::len word"
  shows "unat (push_bit n a) = unat a * 2 ^ n mod 2 ^ LENGTH('a)"
  unfolding unsigned_push_bit_eq by (simp only: push_bit_eq_mult take_bit_eq_mod)

lemma unat_lt_u8: "unat (x :: u8) < 256"
  by (rule order_less_le_trans [OF unsigned_less]) simp

lemma unat_lt_u32: "unat (x :: u32) < 4294967296"
  by (rule order_less_le_trans [OF unsigned_less]) simp

lemma unat_lt_u64: "unat (x :: u64) < 18446744073709551616"
  by (rule order_less_le_trans [OF unsigned_less]) simp

lemma uint_lt_u32: "uint (x :: u32) < 4294967296"
  by (rule order_less_le_trans [OF uint_lt2p]) simp

lemma uint_lt_u64: "uint (x :: u64) < 18446744073709551616"
  by (rule order_less_le_trans [OF uint_lt2p]) simp

lemma unat_add_u64 [word_nat]:
  "unat (a :: u64) + unat b < 18446744073709551616 \<Longrightarrow> unat (a + b) = unat a + unat b"
  by (rule unat_add_no_wrap) simp

lemma unat_mult_u64 [word_nat]:
  "unat (a :: u64) * unat b < 18446744073709551616 \<Longrightarrow> unat (a * b) = unat a * unat b"
  by (rule unat_mult_no_wrap) simp

lemma unat_add_u32 [word_nat]:
  "unat (a :: u32) + unat b < 4294967296 \<Longrightarrow> unat (a + b) = unat a + unat b"
  by (rule unat_add_no_wrap) simp

lemma unat_mult_u32 [word_nat]:
  "unat (a :: u32) * unat b < 4294967296 \<Longrightarrow> unat (a * b) = unat a * unat b"
  by (rule unat_mult_no_wrap) simp

lemma unat_high_half [word_nat]: "unat (push_bit 32 (ucast (x :: u32)) :: u64) = unat x * 4294967296"
  using unat_lt_u32 [of x] by (simp add: unat_push_bit unat_ucast_up)

text \<open>The signed reading of a word, by its unsigned one.\<close>

lemma bit_top_iff:
  fixes k :: int
  assumes "0 \<le> k" "k < 2 ^ Suc n"
  shows "bit k n \<longleftrightarrow> 2 ^ n \<le> k"
proof (cases "2 ^ n \<le> k")
  case True
  then have "k div 2 ^ n = (k - 2 ^ n) div 2 ^ n + 1" by (simp add: div_pos_geq)
  also have "(k - 2 ^ n) div 2 ^ n = 0" using assms True by (simp add: div_pos_pos_trivial)
  finally show ?thesis using True by (simp add: bit_iff_odd)
next
  case False
  then have "k div 2 ^ n = 0" using assms by (simp add: div_pos_pos_trivial)
  then show ?thesis using False by (simp add: bit_iff_odd)
qed

lemma sint_if_uint:
  fixes w :: "'a::len word"
  shows "sint w = (if uint w < 2 ^ (LENGTH('a) - 1) then uint w else uint w - 2 ^ LENGTH('a))"
  using bit_top_iff [of "uint w" "LENGTH('a) - 1"]
  by (simp add: sint_uint signed_take_bit_eq_take_bit_minus take_bit_eq_mod not_le)

lemma uint_less_numeral: "uint w < numeral n \<longleftrightarrow> unat w < numeral n"
  by (simp only: uint_nat of_nat_less_numeral_iff)

lemma uint_pos_iff: "0 < uint w \<longleftrightarrow> 0 < unat w"
  by (simp only: uint_nat of_nat_0_less_iff)

lemma sint_u32: "sint (w :: u32) = (if uint w < 2147483648 then uint w else uint w - 4294967296)"
  by (simp add: sint_if_uint)

lemma sint_word_of_int_u32: "0 \<le> k \<Longrightarrow> k < 2147483648 \<Longrightarrow> sint (word_of_int k :: u32) = k"
  by (simp add: sint_u32 uint_word_of_int)

lemma sint_u64:
  "sint (w :: u64) =
     (if uint w < 9223372036854775808 then uint w else uint w - 18446744073709551616)"
  by (simp add: sint_if_uint)

lemma sint_u64_pos: "0 < sint (w :: u64) \<longleftrightarrow> 0 < unat w \<and> unat w < 9223372036854775808"
  using uint_lt_u64 [of w]
  by (simp add: sint_u64 uint_pos_iff [symmetric] flip: uint_less_numeral)

lemma sint_u32_pos: "0 < sint (w :: u32) \<longleftrightarrow> 0 < unat w \<and> unat w < 2147483648"
  using uint_lt_u32 [of w]
  by (simp add: sint_u32 uint_pos_iff [symmetric] flip: uint_less_numeral)

lemma word_eq_0_unat: "x = 0 \<longleftrightarrow> unat x = 0"
  by (simp add: unat_eq_0)

section \<open>Checked arithmetic\<close>

lemma sint_u64_nat: "unat (a :: u64) < 9223372036854775808 \<Longrightarrow> sint a = int (unat a)"
  using sint_u64 [of a] by (simp add: uint_less_numeral)

lemma s64_add_nat:
  assumes "unat a + unat b < 9223372036854775808"
  shows "s64_add a b = Inr (a + b)" and "unat (a + b) = unat a + unat b"
proof -
  have "sint a = int (unat a)" "sint b = int (unat b)" using assms by (simp_all add: sint_u64_nat)
  then have "sint a + sint b = int (unat a + unat b)" by simp
  moreover have "s64_fits (int (unat a + unat b))" using assms unfolding s64_fits_def by linarith
  ultimately show "s64_add a b = Inr (a + b)" by (simp only: s64_add_def if_True)
  show "unat (a + b) = unat a + unat b" using assms by (simp add: unat_add_u64)
qed

lemma s64_mul_nat:
  assumes "unat a * unat b < 9223372036854775808" and "unat a < 9223372036854775808"
    and "unat b < 9223372036854775808"
  shows "s64_mul a b = Inr (a * b)" and "unat (a * b) = unat a * unat b"
proof -
  have "sint a * sint b = int (unat a * unat b)" 
    unfolding sint_u64_nat [OF assms(2)] sint_u64_nat [OF assms(3)] by (simp only: of_nat_mult)
  moreover have "s64_fits (int (unat a * unat b))" using assms(1) unfolding s64_fits_def by linarith
  ultimately show "s64_mul a b = Inr (a * b)" by (simp only: s64_mul_def if_True)
  show "unat (a * b) = unat a * unat b" using assms(1) by (simp add: unat_mult_u64)
qed

section \<open>Division\<close>

lemma div_split_product:
  fixes N c d :: nat
  assumes "0 < c"
  shows "N div c = N div (c * d) * d + N mod (c * d) div c"
proof -
  have "N = N mod (c * d) + (N div (c * d) * d) * c"
    using mod_mult_div_eq [of N "c * d"] by (simp add: algebra_simps)
  then have "N div c = (N mod (c * d) + (N div (c * d) * d) * c) div c" by simp
  also have "\<dots> = N div (c * d) * d + N mod (c * d) div c"
    using assms by (simp only: div_mult_self1 not_gr_zero)
  finally show ?thesis .
qed

lemma of_nat_inj_u32: "i < 4294967296 \<Longrightarrow> j < 4294967296 \<Longrightarrow> (of_nat i :: u32) = of_nat j \<longleftrightarrow> i = j"
  by (simp only: word_unat_eq_iff unat_of_nat) simp

lemma sint_u32_nat: "unat (a :: u32) < 2147483648 \<Longrightarrow> sint a = int (unat a)"
  using sint_u32 [of a] by (simp add: uint_less_numeral)

end
