(* ===== verification/Bus.thy ===== *)
theory Bus
  imports Prelude
begin

text \<open>
  The machine the C code runs on. The observable behaviour of the bare-metal programs is
  their sequence of device register accesses together with their calls of the C library's
  \<open>printf\<close> and \<open>getchar\<close>; the model records that sequence as a trace. The goldfish devices
  are not part of the repository: they are the parameter \<open>env\<close>, which answers a register
  read from the trace so far and says what a device stores into memory after a write.
  What the drivers rely on of a device is stated as a predicate on \<open>env\<close> where it is used.
  The theory also holds the register map of \<^verbatim>\<open>include/hardware.h\<close> and the accessors
  \<open>readl\<close> and \<open>writel\<close> of \<^verbatim>\<open>include/bsp.h\<close>.
\<close>

section \<open>Traces, memory and the environment\<close>

datatype io =
    Rd u32 u32               \<comment> \<open>address and the value the device answered\<close>
  | Wr u32 u32               \<comment> \<open>address and the value stored\<close>
  | Printf string "int list" \<comment> \<open>format string and integer arguments\<close>
  | Getchar int              \<comment> \<open>the character (or EOF) that \<open>getchar\<close> returned\<close>

type_synonym memory = "u32 \<Rightarrow> u8"

record env =
  env_read :: "io list \<Rightarrow> u32 \<Rightarrow> u32"
  env_dma :: "io list \<Rightarrow> memory \<Rightarrow> memory"
  env_getchar :: "io list \<Rightarrow> int"

record machine =
  trace :: "io list"
  mem :: memory

text \<open>\<^verbatim>\<open>include/bsp.h\<close>: the 32-bit accessors of device registers.\<close>

definition readl :: "env \<Rightarrow> u32 \<Rightarrow> 'a machine_scheme \<Rightarrow> u32 \<times> 'a machine_scheme" where
  "readl env addr m =
     (let v = env_read env (trace m) addr in (v, m\<lparr>trace := trace m @ [Rd addr v]\<rparr>))"

definition writel :: "env \<Rightarrow> u32 \<Rightarrow> u32 \<Rightarrow> 'a machine_scheme \<Rightarrow> 'a machine_scheme" where
  "writel env b addr m =
     (let t = trace m @ [Wr addr b] in m\<lparr>trace := t, mem := env_dma env t (mem m)\<rparr>)"

text \<open>The C library's \<open>printf\<close> (and \<open>debug\<close>, which is \<open>printf\<close> in the builds with
  \<open>__USE_CLIB__\<close>) and \<open>getchar\<close>.\<close>

definition printf :: "string \<Rightarrow> int list \<Rightarrow> 'a machine_scheme \<Rightarrow> 'a machine_scheme" where
  "printf fmt args m = m\<lparr>trace := trace m @ [Printf fmt args]\<rparr>"

definition getchar :: "env \<Rightarrow> 'a machine_scheme \<Rightarrow> int \<times> 'a machine_scheme" where
  "getchar env m =
     (let c = env_getchar env (trace m) in (c, m\<lparr>trace := trace m @ [Getchar c]\<rparr>))"

text \<open>A 32-bit little-endian store to RAM and the load that reads it back.\<close>

definition store32 :: "u32 \<Rightarrow> u32 \<Rightarrow> memory \<Rightarrow> memory" where
  "store32 a v s = s(a := ucast v, a + 1 := ucast (drop_bit 8 v),
     a + 2 := ucast (drop_bit 16 v), a + 3 := ucast (drop_bit 24 v))"

definition load32 :: "memory \<Rightarrow> u32 \<Rightarrow> u32" where
  "load32 s a = ucast (s a) OR push_bit 8 (ucast (s (a + 1)))
     OR push_bit 16 (ucast (s (a + 2))) OR push_bit 24 (ucast (s (a + 3)))"

text \<open>The other accessors, which no driver uses, on memory. \<open>writeq\<close> takes a 32-bit value.\<close>

definition readb :: "u32 \<Rightarrow> 'a machine_scheme \<Rightarrow> u8" where
  "readb addr m = mem m addr"

definition readw :: "u32 \<Rightarrow> 'a machine_scheme \<Rightarrow> 16 word" where
  "readw addr m = ucast (mem m addr) OR push_bit 8 (ucast (mem m (addr + 1)))"

definition readq :: "u32 \<Rightarrow> 'a machine_scheme \<Rightarrow> u64" where
  "readq addr m = ucast (load32 (mem m) addr) OR push_bit 32 (ucast (load32 (mem m) (addr + 4)))"

definition writeb :: "u8 \<Rightarrow> u32 \<Rightarrow> 'a machine_scheme \<Rightarrow> 'a machine_scheme" where
  "writeb b addr m = m\<lparr>mem := (mem m)(addr := b)\<rparr>"

definition writew :: "16 word \<Rightarrow> u32 \<Rightarrow> 'a machine_scheme \<Rightarrow> 'a machine_scheme" where
  "writew b addr m = m\<lparr>mem := (mem m)(addr := ucast b, addr + 1 := ucast (drop_bit 8 b))\<rparr>"

definition writeq :: "u32 \<Rightarrow> u32 \<Rightarrow> 'a machine_scheme \<Rightarrow> 'a machine_scheme" where
  "writeq b addr m =
     (let v = (ucast b :: u64)
      in m\<lparr>mem := store32 (addr + 4) (ucast (drop_bit 32 v)) (store32 addr (ucast v) (mem m))\<rparr>)"

section \<open>The register map\<close>

definition IRQ_TIMER :: u32 where [simp]: "IRQ_TIMER = 3"
definition IRQ_TTY0 :: u32 where [simp]: "IRQ_TTY0 = 4"
definition IRQ_TTY1 :: u32 where [simp]: "IRQ_TTY1 = 11"
definition IRQ_TTY2 :: u32 where [simp]: "IRQ_TTY2 = 12"
definition IRQ_RANDOM :: u32 where [simp]: "IRQ_RANDOM = 20"

definition IO_BASE :: u32 where [simp]: "IO_BASE = 0xfe000000"
definition IO_START :: u32 where [simp]: "IO_START = 0xff000000"

definition GOLDFISH_INTERRUPT_BASE :: u32 where [simp]: "GOLDFISH_INTERRUPT_BASE = 0"
definition GOLDFISH_INTERRUPT_STATUS :: u32 where [simp]: "GOLDFISH_INTERRUPT_STATUS = 0x00"
definition GOLDFISH_INTERRUPT_NUMBER :: u32 where [simp]: "GOLDFISH_INTERRUPT_NUMBER = 0x04"
definition GOLDFISH_INTERRUPT_DISABLE_ALL :: u32 where [simp]: "GOLDFISH_INTERRUPT_DISABLE_ALL = 0x08"
definition GOLDFISH_INTERRUPT_DISABLE :: u32 where [simp]: "GOLDFISH_INTERRUPT_DISABLE = 0x0c"
definition GOLDFISH_INTERRUPT_ENABLE :: u32 where [simp]: "GOLDFISH_INTERRUPT_ENABLE = 0x10"

definition GOLDFISH_TIMER_BASE :: u32 where [simp]: "GOLDFISH_TIMER_BASE = 0x3000"
definition GOLDFISH_TTY2_BASE :: u32 where [simp]: "GOLDFISH_TTY2_BASE = 0x12000"
definition GOLDFISH_NAND_BASE :: u32 where [simp]: "GOLDFISH_NAND_BASE = 0x17000"

definition IO_ADDRESS :: "u32 \<Rightarrow> u32" where [simp]: "IO_ADDRESS x = x + IO_START"

definition CONFIG_SYS_HZ :: u32 where [simp]: "CONFIG_SYS_HZ = 1000"

text \<open>The interrupts and devices that no driver of the repository uses.\<close>

definition IRQ_PDEV_BUS :: u32 where [simp]: "IRQ_PDEV_BUS = 1"
definition IRQ_RTC :: u32 where [simp]: "IRQ_RTC = 10"
definition IRQ_smc91x :: u32 where [simp]: "IRQ_smc91x = 13"
definition IRQ_FB :: u32 where [simp]: "IRQ_FB = 14"
definition IRQ_AUDIO :: u32 where [simp]: "IRQ_AUDIO = 15"
definition IRQ_EVENTS :: u32 where [simp]: "IRQ_EVENTS = 16"
definition IRQ_PIPE :: u32 where [simp]: "IRQ_PIPE = 17"
definition IRQ_SWITCH0 :: u32 where [simp]: "IRQ_SWITCH0 = 18"
definition IRQ_SWITCH1 :: u32 where [simp]: "IRQ_SWITCH1 = 19"
definition IO_SIZE :: u32 where [simp]: "IO_SIZE = 0x00800000"
definition GOLDFISH_PDEV_BUS_BASE :: u32 where [simp]: "GOLDFISH_PDEV_BUS_BASE = 0x1000"
definition GOLDFISH_PDEV_BUS_END :: u32 where [simp]: "GOLDFISH_PDEV_BUS_END = 0x100"
definition GOLDFISH_TTY_BASE :: u32 where [simp]: "GOLDFISH_TTY_BASE = 0x2000"
definition GOLDFISH_AUDIO_BASE :: u32 where [simp]: "GOLDFISH_AUDIO_BASE = 0x4000"
definition GOLDFISH_MMC_BASE :: u32 where [simp]: "GOLDFISH_MMC_BASE = 0x5000"
definition GOLDFISH_MEMLOG_BASE :: u32 where [simp]: "GOLDFISH_MEMLOG_BASE = 0x6000"
definition GOLDFISH_RTC_BASE :: u32 where [simp]: "GOLDFISH_RTC_BASE = 0x10000"
definition GOLDFISH_TTY1_BASE :: u32 where [simp]: "GOLDFISH_TTY1_BASE = 0x11000"
definition GOLDFISH_smc91x_BASE :: u32 where [simp]: "GOLDFISH_smc91x_BASE = 0x13000"
definition GOLDFISH_FB_BASE :: u32 where [simp]: "GOLDFISH_FB_BASE = 0x14000"
definition GOLDFISH_EVENTS_BASE :: u32 where [simp]: "GOLDFISH_EVENTS_BASE = 0x16000"
definition GOLDFISH_PIPE_BASE :: u32 where [simp]: "GOLDFISH_PIPE_BASE = 0x18000"
definition GOLDFISH_SWITCH0_BASE :: u32 where [simp]: "GOLDFISH_SWITCH0_BASE = 0x19000"
definition GOLDFISH_SWITCH1_BASE :: u32 where [simp]: "GOLDFISH_SWITCH1_BASE = 0x1a000"

text \<open>The devices by interrupt number and by the offset of their registers.\<close>

definition irq_numbers :: "u32 list" where
  "irq_numbers =
    [IRQ_PDEV_BUS, IRQ_TIMER, IRQ_TTY0, IRQ_RTC, IRQ_TTY1, IRQ_TTY2, IRQ_smc91x, IRQ_FB, IRQ_AUDIO,
     IRQ_EVENTS, IRQ_PIPE, IRQ_SWITCH0, IRQ_SWITCH1, IRQ_RANDOM]"

definition device_bases :: "u32 list" where
  "device_bases =
    [GOLDFISH_INTERRUPT_BASE, GOLDFISH_PDEV_BUS_BASE, GOLDFISH_TTY_BASE, GOLDFISH_TIMER_BASE,
     GOLDFISH_AUDIO_BASE, GOLDFISH_MMC_BASE, GOLDFISH_MEMLOG_BASE, GOLDFISH_RTC_BASE, GOLDFISH_TTY1_BASE,
     GOLDFISH_TTY2_BASE, GOLDFISH_smc91x_BASE, GOLDFISH_FB_BASE, GOLDFISH_EVENTS_BASE, GOLDFISH_NAND_BASE,
     GOLDFISH_PIPE_BASE, GOLDFISH_SWITCH0_BASE, GOLDFISH_SWITCH1_BASE]"

text \<open>No two devices share an interrupt, and each device has a page of 4 KiB for its registers within the I/O area.\<close>

lemma memory_map:
  "distinct irq_numbers" "distinct device_bases" "\<forall>a \<in> set device_bases. a AND 0xFFF = 0 \<and> a + 0xFFF < IO_SIZE"
  by (simp_all add: irq_numbers_def device_bases_def)

section \<open>Frame lemmas\<close>

lemma trace_readl [simp]:
  "trace (snd (readl env a m)) = trace m @ [Rd a (env_read env (trace m) a)]"
  by (simp add: readl_def Let_def)

lemma mem_readl [simp]: "mem (snd (readl env a m)) = mem m"
  by (simp add: readl_def Let_def)

lemma fst_readl [simp]: "fst (readl env a m) = env_read env (trace m) a"
  by (simp add: readl_def Let_def)

lemma trace_writel [simp]: "trace (writel env v a m) = trace m @ [Wr a v]"
  by (simp add: writel_def Let_def)

lemma mem_writel [simp]: "mem (writel env v a m) = env_dma env (trace m @ [Wr a v]) (mem m)"
  by (simp add: writel_def Let_def)

lemma trace_printf [simp]: "trace (printf f xs m) = trace m @ [Printf f xs]"
  by (simp add: printf_def)

lemma mem_printf [simp]: "mem (printf f xs m) = mem m"
  by (simp add: printf_def)

lemma load32_store32 [simp]: "load32 (store32 a v s) a = v"
proof (rule bit_word_eqI)
  fix n assume n: "n < LENGTH(32)"
  consider "n < 8" | "8 \<le> n" "n < 16" | "16 \<le> n" "n < 24" | "24 \<le> n" by linarith
  then show "bit (load32 (store32 a v s) a) n = bit v n"
    using n by cases (auto simp: load32_def store32_def bit_simps)
qed

lemma load32_store32_other:
  assumes "6 < a - b + 3"
  shows "load32 (store32 a v s) b = load32 s b"
proof -
  have ne: "b + i \<noteq> a + j" if "i \<le> 3" "j \<le> 3" for i j :: u32
  proof
    assume "b + i = a + j"
    then have "a - b + 3 = 3 + i - j" by (simp add: algebra_simps)
    moreover have "3 + i - j \<le> 6" using that by uint_arith
    ultimately show False using assms by (metis linorder_not_less)
  qed
  have "(store32 a v s) (b + i) = s (b + i)" if "i \<le> 3" for i
    using ne [OF that, of 0] ne [OF that, of 1] ne [OF that, of 2] ne [OF that, of 3] by (simp add: store32_def)
  from this [of 0] this [of 1] this [of 2] this [of 3] show ?thesis by (simp add: load32_def)
qed

text \<open>What was stored is read back; of a 64-bit word only the lower half can be stored.\<close>

lemma accessors_roundtrip:
  "readb a (writeb b a m) = b" "readw a (writew w a m) = w" "readq a (writeq v a m) = ucast v"
proof -
  show "readb a (writeb b a m) = b" by (simp add: readb_def writeb_def)
  show "readw a (writew w a m) = w"
    by (rule bit_word_eqI) (auto simp: readw_def writew_def bit_simps)
  have "load32 (store32 (a + 4) x (store32 a v (mem m))) a = v" for x
    by (subst load32_store32_other) simp_all
  moreover have "(ucast (drop_bit 32 (ucast v :: u64)) :: u32) = 0" by (rule bit_word_eqI) (auto simp: bit_simps dest: bit_imp_le_length)
  moreover have "(ucast (ucast v :: u64) :: u32) = v" by (rule bit_word_eqI) (simp add: bit_simps)
  ultimately show "readq a (writeq v a m) = ucast v" by (simp add: readq_def writeq_def Let_def)
qed

section \<open>C strings in memory\<close>

text \<open>The bytes from \<open>a\<close> on are \<open>bs\<close>; and the string at \<open>a\<close> is \<open>bs\<close>, ended by a zero byte.\<close>

primrec bytes_at :: "memory \<Rightarrow> u32 \<Rightarrow> u8 list \<Rightarrow> bool" where
  "bytes_at m a [] \<longleftrightarrow> True"
| "bytes_at m a (b # bs) \<longleftrightarrow> m a = b \<and> bytes_at m (a + 1) bs"

primrec cstring :: "memory \<Rightarrow> u32 \<Rightarrow> u8 list \<Rightarrow> bool" where
  "cstring m a [] \<longleftrightarrow> m a = 0"
| "cstring m a (b # bs) \<longleftrightarrow> m a = b \<and> b \<noteq> 0 \<and> cstring m (a + 1) bs"

lemma bytes_at_append: "bytes_at m a (xs @ ys) \<longleftrightarrow> bytes_at m a xs \<and> bytes_at m (a + of_nat (length xs)) ys"
  by (induction xs arbitrary: a) (simp_all add: algebra_simps)

lemma cstring_bytes: "cstring m a bs \<longleftrightarrow> bytes_at m a (bs @ [0]) \<and> 0 \<notin> set bs"
  by (induction bs arbitrary: a) auto

lemma cstring_cong: "(\<And>k. k \<le> length bs \<Longrightarrow> m' (a + of_nat k) = m (a + of_nat k)) \<Longrightarrow> cstring m' a bs = cstring m a bs"
proof (induction bs arbitrary: a)
  case (Cons b bs)
  have "m' (a + 1 + of_nat k) = m (a + 1 + of_nat k)" if "k \<le> length bs" for k
    using Cons.prems [of "Suc k"] that by (simp add: add.assoc)
  then show ?case using Cons.IH [of "a + 1"] Cons.prems [of 0] by simp
next
  case Nil
  from Nil [of 0] show ?case by simp
qed

section \<open>Runs against the environment\<close>

text \<open>The memory after a sequence of events, and that every register read in it has the value the
  environment gives: what a run of the accessors from history \<open>h\<close> looks like.\<close>

primrec bus_mem :: "env \<Rightarrow> io list \<Rightarrow> io list \<Rightarrow> memory \<Rightarrow> memory" where
  "bus_mem env h [] m = m"
| "bus_mem env h (e # es) m =
     bus_mem env (h @ [e]) es (case e of Wr a v \<Rightarrow> env_dma env (h @ [e]) m | _ \<Rightarrow> m)"

primrec bus_reads :: "env \<Rightarrow> io list \<Rightarrow> io list \<Rightarrow> bool" where
  "bus_reads env h [] \<longleftrightarrow> True"
| "bus_reads env h (e # es) \<longleftrightarrow>
     (case e of Rd a v \<Rightarrow> v = env_read env h a | _ \<Rightarrow> True) \<and> bus_reads env (h @ [e]) es"

definition bus_run :: "env \<Rightarrow> io list \<Rightarrow> 'a machine_scheme \<Rightarrow> 'a machine_scheme \<Rightarrow> bool" where
  "bus_run env t s s' \<longleftrightarrow> trace s' = trace s @ t \<and> mem s' = bus_mem env (trace s) t (mem s) \<and>
     bus_reads env (trace s) t"

lemma bus_mem_append: "bus_mem env h (xs @ ys) m = bus_mem env (h @ xs) ys (bus_mem env h xs m)"
  by (induction xs arbitrary: h m) simp_all

lemma bus_reads_append: "bus_reads env h (xs @ ys) \<longleftrightarrow> bus_reads env h xs \<and> bus_reads env (h @ xs) ys"
  by (induction xs arbitrary: h) simp_all

lemma bus_run_refl [simp, intro]: "bus_run env [] s s"
  by (simp add: bus_run_def)

lemma bus_run_trans: "bus_run env t s s' \<Longrightarrow> bus_run env t' s' s'' \<Longrightarrow> bus_run env (t @ t') s s''"
  by (simp add: bus_run_def bus_mem_append bus_reads_append)

lemma bus_run_writel: "bus_run env [Wr a v] s (writel env v a s)"
  by (simp add: bus_run_def)

lemma bus_run_readl: "bus_run env [Rd a (env_read env (trace s) a)] s (snd (readl env a s))"
  by (simp add: bus_run_def)

lemma bus_run_printf: "bus_run env [Printf f xs] s (printf f xs s)"
  by (simp add: bus_run_def)

text \<open>Bytes stored to memory one after the other, and read from it.\<close>

primrec store_bytes :: "u32 \<Rightarrow> u8 list \<Rightarrow> memory \<Rightarrow> memory" where
  "store_bytes a [] m = m"
| "store_bytes a (b # bs) m = store_bytes (a + 1) bs (m(a := b))"

definition load_bytes :: "memory \<Rightarrow> u32 \<Rightarrow> nat \<Rightarrow> u8 list" where
  "load_bytes m a n = map (\<lambda>k. m (a + of_nat k)) [0..<n]"

lemma length_load_bytes [simp]: "length (load_bytes m a n) = n"
  by (simp add: load_bytes_def)

end
