(* ===== verification/Timer.thy ===== *)
theory Timer
  imports Bus
begin

text \<open>
  The goldfish timer driver, \<^verbatim>\<open>drivers/timer.c\<close> in its bare-metal configuration, with the
  register offsets of \<^verbatim>\<open>include/timer.h\<close>. The two global variables \<open>timestamp\<close> and
  \<open>lastdec\<close> extend the machine state. The timer device is described by
  \<open>goldfish_timer env ns\<close>: a read of the low register at the \<open>n\<close>th bus access returns the
  low half of the time \<open>ns n\<close> in nanoseconds, and a read of the high register right after it
  returns the high half of the same instant, as \<^verbatim>\<open>timer.h\<close> documents.
\<close>

section \<open>The driver\<close>

definition TIMER_TIME_LOW :: u32 where [simp]: "TIMER_TIME_LOW = 0x00"
definition TIMER_TIME_HIGH :: u32 where [simp]: "TIMER_TIME_HIGH = 0x04"
definition TIMER_ALARM_LOW :: u32 where [simp]: "TIMER_ALARM_LOW = 0x08"
definition TIMER_ALARM_HIGH :: u32 where [simp]: "TIMER_ALARM_HIGH = 0x0c"
definition TIMER_CLEAR_INTERRUPT :: u32 where [simp]: "TIMER_CLEAR_INTERRUPT = 0x10"
definition TIMER_CLEAR_ALARM :: u32 where [simp]: "TIMER_CLEAR_ALARM = 0x14"

definition TIMER_LOAD_VAL :: u32 where "TIMER_LOAD_VAL = 0xffffffff"

record timer_st = machine +
  timestamp :: u32
  lastdec :: u32

definition get_second :: "env \<Rightarrow> 'a machine_scheme \<Rightarrow> u32 \<times> 'a machine_scheme" where
  "get_second env m =
     (let timer_base = IO_ADDRESS GOLDFISH_TIMER_BASE;
          (lo, m) = readl env (timer_base + TIMER_TIME_LOW) m;
          (hi, m) = readl env (timer_base + TIMER_TIME_HIGH) m;
          hi = hi * 4;
          lo = drop_bit 30 lo;
          rv = hi + lo
      in (rv, m))"

definition get_millisecond :: "env \<Rightarrow> 'a machine_scheme \<Rightarrow> u32 \<times> 'a machine_scheme" where
  "get_millisecond env m =
     (let timer_base = IO_ADDRESS GOLDFISH_TIMER_BASE;
          (lo, m) = readl env (timer_base + TIMER_TIME_LOW) m;
          (hi, m) = readl env (timer_base + TIMER_TIME_HIGH) m;
          hi = push_bit 12 hi;
          lo = drop_bit 20 lo;
          rv = hi + lo
      in (rv, m))"

definition reset_timer_masked :: "env \<Rightarrow> 'a timer_st_scheme \<Rightarrow> 'a timer_st_scheme" where
  "reset_timer_masked env s =
     (let (rv, s) = get_millisecond env s in s\<lparr>lastdec := rv, timestamp := 0\<rparr>)"

definition timer_init :: "env \<Rightarrow> 'a timer_st_scheme \<Rightarrow> u32 \<times> 'a timer_st_scheme" where
  "timer_init env s = (0, reset_timer_masked env s)"

definition get_timer_masked :: "env \<Rightarrow> 'a timer_st_scheme \<Rightarrow> u32 \<times> 'a timer_st_scheme" where
  "get_timer_masked env s =
     (let (now, s) = get_millisecond env s;
          ts = (if lastdec s \<le> now
                then timestamp s + (now - lastdec s)
                else timestamp s + (now + TIMER_LOAD_VAL - lastdec s));
          s = s\<lparr>timestamp := ts, lastdec := now\<rparr>
      in (timestamp s, s))"

definition get_timer :: "env \<Rightarrow> u32 \<Rightarrow> 'a timer_st_scheme \<Rightarrow> u32 \<times> 'a timer_st_scheme" where
  "get_timer env base s = (let (t, s) = get_timer_masked env s in (t - base, s))"

text \<open>The busy loop \<open>while (get_timer_masked () < tmo);\<close>.\<close>

partial_function (option) udelay_wait ::
  "env \<Rightarrow> u32 \<Rightarrow> 'a timer_st_scheme \<Rightarrow> 'a timer_st_scheme option" where
  "udelay_wait env tmo s =
     (if fst (get_timer_masked env s) < tmo
      then udelay_wait env tmo (snd (get_timer_masked env s))
      else Some (snd (get_timer_masked env s)))"

text \<open>\<open>__udelay\<close>; the result is \<open>None\<close> when the loop never ends.\<close>

definition udelay :: "env \<Rightarrow> u32 \<Rightarrow> 'a timer_st_scheme \<Rightarrow> 'a timer_st_scheme option" where
  "udelay env usec s =
     (let tmo = usec div CONFIG_SYS_HZ;
          (tmp, s) = get_timer env 0 s
      in if tmo + tmp + 1 < tmp
         then udelay_wait env tmo (reset_timer_masked env s)
         else udelay_wait env (tmo + tmp) s)"

text \<open>The loop \<open>do { ... } while (diff >= 0);\<close> of \<open>udelay_masked\<close>; \<open>diff\<close> is a signed long.\<close>

partial_function (option) udelay_masked_wait ::
  "env \<Rightarrow> u32 \<Rightarrow> 'a timer_st_scheme \<Rightarrow> 'a timer_st_scheme option" where
  "udelay_masked_wait env endtime s =
     (if 0 \<le> sint (endtime - fst (get_timer_masked env s))
      then udelay_masked_wait env endtime (snd (get_timer_masked env s))
      else Some (snd (get_timer_masked env s)))"

definition udelay_masked :: "env \<Rightarrow> u32 \<Rightarrow> 'a timer_st_scheme \<Rightarrow> 'a timer_st_scheme option" where
  "udelay_masked env usec s =
     (let tmo = usec div CONFIG_SYS_HZ;
          (t, s) = get_timer_masked env s;
          endtime = t + tmo
      in udelay_masked_wait env endtime s)"

definition get_ticks :: "env \<Rightarrow> 'a timer_st_scheme \<Rightarrow> u64 \<times> 'a timer_st_scheme" where
  "get_ticks env s = (let (t, s) = get_timer env 0 s in (ucast t, s))"

definition get_tbclk :: u32 where
  "get_tbclk = CONFIG_SYS_HZ"

definition goldfish_set_timer :: "env \<Rightarrow> u32 \<Rightarrow> 'a machine_scheme \<Rightarrow> 'a machine_scheme" where
  "goldfish_set_timer env cycles m =
     (let timer_base = IO_ADDRESS GOLDFISH_TIMER_BASE;
          (lo, m) = readl env (timer_base + TIMER_TIME_LOW) m;
          (hi, m) = readl env (timer_base + TIMER_TIME_HIGH) m;
          hi = hi + cycles div 4096;
          tmp = lo + push_bit 20 (cycles mod 4096);
          (lo, hi) = (if tmp < lo then (tmp, hi + 1) else (tmp, hi));
          m = writel env hi (timer_base + TIMER_ALARM_HIGH) m
      in writel env lo (timer_base + TIMER_ALARM_LOW) m)"

definition goldfish_clear_timer_int :: "env \<Rightarrow> 'a machine_scheme \<Rightarrow> 'a machine_scheme" where
  "goldfish_clear_timer_int env m =
     (let timer_base = IO_ADDRESS GOLDFISH_TIMER_BASE
      in writel env 1 (timer_base + TIMER_CLEAR_INTERRUPT) m)"

text \<open>
  The high word is shifted as a 64-bit value, and the result is assigned to a 32-bit
  \<open>unsigned long\<close>.
\<close>

definition goldfish_timer_read :: "env \<Rightarrow> 'a machine_scheme \<Rightarrow> u32 \<times> 'a machine_scheme" where
  "goldfish_timer_read env m =
     (let timer_base = IO_ADDRESS GOLDFISH_TIMER_BASE;
          (rv, m) = readl env (timer_base + TIMER_TIME_LOW) m;
          (hi, m) = readl env (timer_base + TIMER_TIME_HIGH) m;
          rv = ucast ((ucast rv :: u64) OR push_bit 32 (ucast hi))
      in (rv, m))"

definition goldfish_clear_alarm :: "env \<Rightarrow> 'a machine_scheme \<Rightarrow> 'a machine_scheme" where
  "goldfish_clear_alarm env m =
     (let timer_base = IO_ADDRESS GOLDFISH_TIMER_BASE
      in writel env 1 (timer_base + TIMER_CLEAR_ALARM) m)"

section \<open>The timer device\<close>

definition goldfish_timer :: "env \<Rightarrow> (nat \<Rightarrow> nat) \<Rightarrow> bool" where
  "goldfish_timer env ns \<longleftrightarrow>
     (\<forall>h. env_read env h (IO_ADDRESS GOLDFISH_TIMER_BASE + TIMER_TIME_LOW) = of_nat (ns (length h))) \<and>
     (\<forall>h v. env_read env (h @ [Rd (IO_ADDRESS GOLDFISH_TIMER_BASE + TIMER_TIME_LOW) v])
               (IO_ADDRESS GOLDFISH_TIMER_BASE + TIMER_TIME_HIGH)
             = of_nat (ns (length h) div 2 ^ 32))"

text \<open>The clock runs forward, and two register accesses take less than one tick of \<open>2 ^ 20\<close> ns.\<close>

definition steady_clock :: "(nat \<Rightarrow> nat) \<Rightarrow> bool" where
  "steady_clock ns \<longleftrightarrow> (\<forall>n. ns n < ns (Suc n) \<and> ns (Suc n) \<le> ns n + 2 ^ 19)"

definition ticks :: "(nat \<Rightarrow> nat) \<Rightarrow> nat \<Rightarrow> nat" where
  "ticks ns n = ns n div 2 ^ 20"

section \<open>Reading the clock\<close>

lemma drop_bit_of_nat_u32: "drop_bit k (of_nat N :: u32) = of_nat (N mod 4294967296 div 2 ^ k)"
proof -
  have "N mod 4294967296 div 2 ^ k < 4294967296"
    by (rule order_le_less_trans [OF div_le_dividend]) simp
  then show ?thesis
    by (simp only: word_unat_eq_iff unat_drop_bit) (simp add: unat_of_nat take_bit_eq_mod)
qed

lemma get_millisecond_simps:
  assumes "goldfish_timer env ns"
  shows "fst (get_millisecond env m) = of_nat (ticks ns (length (trace m)))"
    and "length (trace (snd (get_millisecond env m))) = length (trace m) + 2"
    and "mem (snd (get_millisecond env m)) = mem m"
proof -
  let ?N = "ns (length (trace m))"
  have "?N div 1048576 = ?N div 4294967296 * 4096 + ?N mod 4294967296 div 1048576"
    using div_split_product [of 1048576 ?N 4096] by simp
  then have "(of_nat (ticks ns (length (trace m))) :: u32) =
      of_nat (?N div 4294967296) * 4096 + of_nat (?N mod 4294967296 div 1048576)"
    by (simp add: ticks_def)
  then show "fst (get_millisecond env m) = of_nat (ticks ns (length (trace m)))"
    using assms by (simp add: get_millisecond_def readl_def Let_def goldfish_timer_def
       drop_bit_of_nat_u32 push_bit_eq_mult del: drop_bit_eq_div)
qed (simp_all add: get_millisecond_def Let_def readl_def)

lemma get_second_simps:
  assumes "goldfish_timer env ns"
  shows "fst (get_second env m) = of_nat (ns (length (trace m)) div 2 ^ 30)"
    and "length (trace (snd (get_second env m))) = length (trace m) + 2"
    and "mem (snd (get_second env m)) = mem m"
proof -
  let ?N = "ns (length (trace m))"
  have "?N div 1073741824 = ?N div 4294967296 * 4 + ?N mod 4294967296 div 1073741824"
    using div_split_product [of 1073741824 ?N 4] by simp
  then have "(of_nat (?N div 1073741824) :: u32) =
      of_nat (?N div 4294967296) * 4 + of_nat (?N mod 4294967296 div 1073741824)"
    by simp
  then show "fst (get_second env m) = of_nat (?N div 2 ^ 30)"
    using assms by (simp add: get_second_def readl_def Let_def goldfish_timer_def
       drop_bit_of_nat_u32 del: drop_bit_eq_div)
qed (simp_all add: get_second_def Let_def readl_def)

lemma get_millisecond_globals [simp]:
  "timestamp (snd (get_millisecond env s)) = timestamp s"
  "lastdec (snd (get_millisecond env s)) = lastdec s"
  by (simp_all add: get_millisecond_def Let_def readl_def)

lemma reset_timer_masked_simps:
  assumes "goldfish_timer env ns"
  shows "lastdec (reset_timer_masked env s) = of_nat (ticks ns (length (trace s)))"
    and "timestamp (reset_timer_masked env s) = 0"
    and "length (trace (reset_timer_masked env s)) = length (trace s) + 2"
  using get_millisecond_simps [OF assms, of s]
  by (simp_all add: reset_timer_masked_def split_beta)

lemma get_timer_masked_simps:
  assumes "goldfish_timer env ns"
  shows "fst (get_timer_masked env s) = timestamp (snd (get_timer_masked env s))"
    and "lastdec (snd (get_timer_masked env s)) = of_nat (ticks ns (length (trace s)))"
    and "length (trace (snd (get_timer_masked env s))) = length (trace s) + 2"
    and "timestamp (snd (get_timer_masked env s)) =
      timestamp s + (of_nat (ticks ns (length (trace s))) - lastdec s)
       - (if of_nat (ticks ns (length (trace s))) < lastdec s then 1 else 0)"
  using get_millisecond_simps [OF assms, of s]
  by (auto simp: get_timer_masked_def split_beta Let_def TIMER_LOAD_VAL_def not_less)


lemma steady_clock_mono: "steady_clock ns \<Longrightarrow> i \<le> j \<Longrightarrow> ns i \<le> ns j"
  by (rule lift_Suc_mono_le [of ns]) (simp_all add: steady_clock_def less_imp_le)
 
lemma ticks_mono: "steady_clock ns \<Longrightarrow> i \<le> j \<Longrightarrow> ticks ns i \<le> ticks ns j"
  by (simp add: ticks_def div_le_mono steady_clock_mono)

lemma ticks_step: "steady_clock ns \<Longrightarrow> ticks ns (Suc (Suc i)) \<le> ticks ns i + 1"
proof -
  assume "steady_clock ns"
  then have "ns (Suc i) \<le> ns i + 524288" "ns (Suc (Suc i)) \<le> ns (Suc i) + 524288"
    by (auto simp: steady_clock_def)
  then have "ns (Suc (Suc i)) \<le> ns i + 1048576" by linarith
  then have "ns (Suc (Suc i)) div 1048576 \<le> (ns i + 1048576) div 1048576" by (rule div_le_mono)
  then show ?thesis by (simp add: ticks_def)
qed

lemma udelay_wait_total:
  assumes dev: "goldfish_timer env ns" and clk: "steady_clock ns"
    and "lastdec s = of_nat (ticks ns i)" and "length (trace s) = Suc (Suc i)"
    and "unat (timestamp s) + K = unat tmo + ticks ns i" and "ticks ns i \<le> K"
    and "K + 1 < 4294967296" and "unat tmo + 1 < 4294967296"
  shows "\<exists>s' j. udelay_wait env tmo s = Some s' \<and> i < j \<and> length (trace s') = Suc (Suc j)
     \<and> K \<le> ticks ns j \<and> ticks ns j \<le> K + 1"
  using assms(3-)
proof (induction "K * 1048576 - ns (length (trace s))" arbitrary: s i rule: less_induct)
  case less
  let ?n = "length (trace s)" and ?D = "ticks ns"
  let ?s = "snd (get_timer_masked env s)"
  have n: "?n = Suc (Suc i)" by (rule less.prems(2))
  have le: "?D i \<le> ?D ?n" and st: "?D ?n \<le> ?D i + 1"
    using n ticks_mono [OF clk, of i ?n] ticks_step [OF clk, of i] by simp_all
  have noroll: "\<not> (of_nat (?D ?n) :: u32) < of_nat (?D i)"
    using le st less.prems(4,5) by (simp add: word_less_nat_alt unat_of_nat take_bit_eq_mod)
  have "(of_nat (?D ?n) :: u32) - of_nat (?D i) = of_nat (?D ?n - ?D i)"
    using le by (simp add: of_nat_diff)
  then have ts: "timestamp ?s = timestamp s + of_nat (?D ?n - ?D i)"
    using get_timer_masked_simps(4) [OF dev, of s] noroll less.prems(1) by simp
  have d: "unat (of_nat (?D ?n - ?D i) :: u32) = ?D ?n - ?D i"
    using st by (simp add: unat_of_nat take_bit_eq_mod)
  have "unat (timestamp s) + (?D ?n - ?D i) \<le> unat tmo + 1" 
    using less.prems(3,4) st le by linarith
  then have uts: "unat (timestamp ?s) = unat (timestamp s) + (?D ?n - ?D i)"
    using ts d less.prems(6) unat_add_u32 [of "timestamp s" "of_nat (?D ?n - ?D i)"] by simp
  have eq: "unat (timestamp ?s) + K = unat tmo + ?D ?n" using uts less.prems(3) le by linarith
  have cont: "fst (get_timer_masked env s) < tmo \<longleftrightarrow> ?D ?n < K"
    using eq get_timer_masked_simps(1) [OF dev, of s] by (simp add: word_less_nat_alt) linarith
  show ?case
  proof (cases "?D ?n < K")
    case True
    have "ns ?n < K * 1048576" using True by (simp add: ticks_def div_less_iff_less_mult)
    moreover have "ns ?n < ns (length (trace ?s))"
      using clk get_timer_masked_simps(3) [OF dev, of s] 
      by (auto simp: steady_clock_def intro: less_trans)
    ultimately have "K * 1048576 - ns (length (trace ?s)) < K * 1048576 - ns ?n" by linarith
    from less.hyps [OF this, of ?n] get_timer_masked_simps(2,3) [OF dev, of s] eq True less.prems(5,6)
    obtain s' j where "udelay_wait env tmo ?s = Some s'" "?n < j" "length (trace s') = Suc (Suc j)"
      "K \<le> ?D j" "?D j \<le> K + 1"
      by auto
    moreover have "udelay_wait env tmo s = udelay_wait env tmo ?s"
      using True cont by (subst udelay_wait.simps) simp
    ultimately show ?thesis using n by (intro exI [of _ s'] exI [of _ j]) simp
  next
    case False
    then have "udelay_wait env tmo s = Some ?s" using cont by (subst udelay_wait.simps) simp
    moreover have "?D ?n \<le> K + 1" using st less.prems(4) by linarith
    ultimately show ?thesis using False n get_timer_masked_simps(3) [OF dev, of s]
      by (intro exI [of _ ?s] exI [of _ ?n]) simp
  qed
qed

text \<open>Adding with carry on two halves.\<close>

lemma add_with_carry:
  fixes lo r :: u32
  shows "(if lo + r < lo then 1 else 0) = (of_nat ((unat lo + unat r) div 4294967296) :: u32)"
proof -
  have b: "unat lo < 4294967296" "unat r < 4294967296" by (rule unat_lt_u32)+
  have u: "unat (lo + r) = (unat lo + unat r) mod 4294967296" by (simp add: unat_word_ariths)
  show ?thesis
  proof (cases "unat lo + unat r < 4294967296")
    case True
    then show ?thesis using u by (simp add: word_less_nat_alt)
  next
    case False
    then have "(unat lo + unat r) div 4294967296 = 1" "unat (lo + r) = unat lo + unat r - 4294967296"
      using b u by (simp_all add: div_nat_eqI le_mod_geq)
    then show ?thesis using b False by (simp add: word_less_nat_alt)
  qed
qed

lemma alarm_value:
  fixes a q n c N C l r :: nat
  assumes "l = n" and "r = c * 1048576" and "a * 4294967296 + n = N" and "q * 4096 + c = C"
  shows "(a + q) * 4294967296 + (l + r) = N + C * 1048576"
  unfolding assms(1,2) assms(3,4) [symmetric] by (simp add: algebra_simps)

lemma halves_mod:
  fixes H A :: nat
  shows "(H + A div 4294967296) mod 4294967296 * 4294967296 + A mod 4294967296
    = (H * 4294967296 + A) mod 18446744073709551616"
  using mod_mult2_eq [of "H * 4294967296 + A" 4294967296 4294967296] by simp

text \<open>The test \<open>tmo + tmp + 1 < tmp\<close> of \<open>__udelay\<close> is exact for a delay of the range of \<open>usec\<close>.\<close>

lemma udelay_roll_test:
  fixes tmo tmp :: u32
  assumes "unat tmo \<le> 4294967" and "\<not> tmo + tmp + 1 < tmp"
  shows "unat tmo + unat tmp + 1 < 4294967296"
proof (rule ccontr)
  assume ov: "\<not> ?thesis"
  have "unat (tmo + tmp + 1) = (unat tmo + unat tmp + 1) mod 4294967296"
    by (simp add: unat_word_ariths mod_Suc_eq)
  also have "\<dots> = unat tmo + unat tmp + 1 - 4294967296"
    using ov assms(1) unat_lt_u32 [of tmp] by (simp add: le_mod_geq)
  finally show False using ov assms by (simp add: word_less_nat_alt)
qed


section \<open>Properties\<close>

text \<open>
  A concrete timer device for the examples below: at the \<open>n\<close>th bus access its time is \<open>ns n\<close>.
\<close>

definition clock_env :: "(nat \<Rightarrow> nat) \<Rightarrow> env" where
  "clock_env ns = \<lparr>
     env_read = (\<lambda>h a. if a = IO_ADDRESS GOLDFISH_TIMER_BASE + TIMER_TIME_LOW
                       then of_nat (ns (length h))
                       else of_nat (ns (length h - 1) div 2 ^ 32)),
     env_dma = (\<lambda>h s. s), env_getchar = (\<lambda>h. - 1)\<rparr>"

definition slow_clock :: "nat \<Rightarrow> nat" where
  "slow_clock n = 1000 * n"

lemma goldfish_timer_clock_env: "goldfish_timer (clock_env ns) ns"
  by (simp add: goldfish_timer_def clock_env_def)

lemma steady_slow_clock: "steady_clock slow_clock"
  by (simp add: steady_clock_def slow_clock_def)

definition timer_boot :: timer_st where
  "timer_boot = \<lparr>trace = [], mem = (\<lambda>_. 0), timestamp = 0, lastdec = 0\<rparr>"

text \<open>C23: \<open>__udelay\<close> ends, and it ends on time. On a timer device whose clock runs forward and on
  which two register accesses take at most one tick of \<open>2 ^ 20\<close> ns, and while the tick counter is
  not about to pass \<open>2 ^ 32\<close>, the call returns; the last poll happens at least \<open>usec / 1000\<close> ticks
  after the call and at most two ticks later than that. It holds whatever \<open>timestamp\<close> and
  \<open>lastdec\<close> are on entry, on the branch that resets the time stamp too.\<close>

theorem udelay_correct:
  assumes dev: "goldfish_timer env ns" and clk: "steady_clock ns"
    and horizon: "ticks ns (length (trace s)) + unat usec div 1000 + 2 < 4294967296"
  shows "\<exists>s' j. udelay env usec s = Some s' \<and> length (trace s') = Suc (Suc j)
     \<and> ticks ns (length (trace s)) + unat usec div 1000 \<le> ticks ns j
     \<and> ticks ns j \<le> ticks ns (length (trace s)) + unat usec div 1000 + 2"
proof -
  let ?n = "length (trace s)" and ?D = "ticks ns"
  let ?s = "snd (get_timer_masked env s)"
  define tmo where "tmo = usec div CONFIG_SYS_HZ"
  define tmp where "tmp = timestamp ?s"
  have tmo: "unat tmo = unat usec div 1000" by (simp add: tmo_def unat_div)
  then have small: "unat tmo \<le> 4294967" using unat_lt_u32 [of usec] by simp
  have len: "length (trace ?s) = Suc (Suc ?n)" and ld: "lastdec ?s = of_nat (?D ?n)"
    using get_timer_masked_simps(2,3) [OF dev, of s] by simp_all
  have u: "udelay env usec s = (if tmo + tmp + 1 < tmp
      then udelay_wait env tmo (reset_timer_masked env ?s) else udelay_wait env (tmo + tmp) ?s)"
    using get_timer_masked_simps(1) [OF dev, of s]
    by (simp add: udelay_def get_timer_def split_beta Let_def tmo_def tmp_def)
  show ?thesis
  proof (cases "tmo + tmp + 1 < tmp")
    case True
    let ?r = "reset_timer_masked env ?s"
    have st: "?D (Suc (Suc ?n)) \<le> ?D ?n + 1" "?D ?n \<le> ?D (Suc (Suc ?n))"
      using ticks_step [OF clk, of ?n] ticks_mono [OF clk, of ?n "Suc (Suc ?n)"] by simp_all
    obtain s' j where "udelay_wait env tmo ?r = Some s'" "length (trace s') = Suc (Suc j)"
       "?D (Suc (Suc ?n)) + unat tmo \<le> ?D j" "?D j \<le> ?D (Suc (Suc ?n)) + unat tmo + 1"
      using reset_timer_masked_simps [OF dev, of ?s] len st horizon tmo small
        udelay_wait_total [OF dev clk, of ?r "Suc (Suc ?n)" "?D (Suc (Suc ?n)) + unat tmo" tmo]
      by auto
    then show ?thesis using u True st tmo by (intro exI [of _ s'] exI [of _ j]) simp
  next
    case False
    have nw: "unat tmo + unat tmp + 1 < 4294967296"
      using small False by (rule udelay_roll_test)
    then have "unat (tmo + tmp) = unat tmo + unat tmp" by (simp add: word_nat)
    then obtain s' j where "udelay_wait env (tmo + tmp) ?s = Some s'" "length (trace s') = Suc (Suc j)"
       "?D ?n + unat tmo \<le> ?D j" "?D j \<le> ?D ?n + unat tmo + 1"
      using len ld horizon tmo nw
        udelay_wait_total [OF dev clk, of ?s ?n "?D ?n + unat tmo" "tmo + tmp"]
      by (auto simp: tmp_def)
    then show ?thesis using u False tmo by (intro exI [of _ s'] exI [of _ j]) simp
  qed
qed

theorem udelay_correct_witness:
  "\<exists>s' j. udelay (clock_env slow_clock) 3000000 timer_boot = Some s' \<and> length (trace s') = Suc (Suc j)
     \<and> ticks slow_clock 0 + 3000 \<le> ticks slow_clock j \<and> ticks slow_clock j \<le> ticks slow_clock 0 + 3000 + 2"
  using udelay_correct [OF goldfish_timer_clock_env steady_slow_clock, of timer_boot 3000000]
  by (simp add: timer_boot_def ticks_def slow_clock_def)

text \<open>C24: \<open>goldfish_set_timer\<close> programs the alarm for \<open>cycles\<close> ticks of \<open>2 ^ 20\<close> ns after the
  time it reads, with the carry from the low into the high half and modulo \<open>2 ^ 64\<close>; it writes the
  high register before the low one, whose write arms the alarm.\<close>

theorem goldfish_set_timer_alarm:
  assumes dev: "goldfish_timer env ns"
  shows "\<exists>lo hi hi' lo'. 
     trace (goldfish_set_timer env cycles m) = trace m @
       [Rd (IO_ADDRESS GOLDFISH_TIMER_BASE + TIMER_TIME_LOW) lo,
        Rd (IO_ADDRESS GOLDFISH_TIMER_BASE + TIMER_TIME_HIGH) hi,
        Wr (IO_ADDRESS GOLDFISH_TIMER_BASE + TIMER_ALARM_HIGH) hi',
        Wr (IO_ADDRESS GOLDFISH_TIMER_BASE + TIMER_ALARM_LOW) lo'] \<and>
     unat hi' * 2 ^ 32 + unat lo' = (ns (length (trace m)) + unat cycles * 2 ^ 20) mod 2 ^ 64"
proof -
  define N where "N = ns (length (trace m))"
  define lo where "lo = (of_nat N :: u32)"
  define hi where "hi = (of_nat (N div 4294967296) :: u32)"
  define r where "r = push_bit 20 (cycles mod 4096)"
  define hi' where "hi' = (if lo + r < lo then hi + cycles div 4096 + 1 else hi + cycles div 4096)"
  let ?A = "unat lo + unat r"
  have tr: "trace (goldfish_set_timer env cycles m) = trace m @
       [Rd (IO_ADDRESS GOLDFISH_TIMER_BASE + TIMER_TIME_LOW) lo,
        Rd (IO_ADDRESS GOLDFISH_TIMER_BASE + TIMER_TIME_HIGH) hi,
        Wr (IO_ADDRESS GOLDFISH_TIMER_BASE + TIMER_ALARM_HIGH) hi',
        Wr (IO_ADDRESS GOLDFISH_TIMER_BASE + TIMER_ALARM_LOW) (lo + r)]"
    using dev by (simp add: goldfish_set_timer_def goldfish_timer_def readl_def Let_def
        lo_def hi_def r_def hi'_def N_def)
  have r: "unat r = unat cycles mod 4096 * 1048576"
    by (simp add: r_def unat_push_bit unat_mod)
  have "hi' = of_nat (N div 4294967296 + unat cycles div 4096 + ?A div 4294967296)"
  proof -
    have "of_nat (unat cycles div 4096) = cycles div (4096 :: u32)"
      by (simp add: word_unat_eq_iff unat_div unat_of_nat take_bit_eq_mod
          order_le_less_trans [OF div_le_dividend unat_lt_u32])
    moreover have "hi' = hi + cycles div 4096 + (if lo + r < lo then 1 else 0)" by (simp add: hi'_def)
    ultimately show ?thesis unfolding add_with_carry hi_def by (simp only: of_nat_add)
  qed
  then have uh: "unat hi' = (N div 4294967296 + unat cycles div 4096 + ?A div 4294967296) mod 4294967296"
    by (simp only: unat_of_nat) simp
  have ul: "unat (lo + r) = ?A mod 4294967296" by (simp add: unat_word_ariths)
  have "unat hi' * 4294967296 + unat (lo + r)
      = ((N div 4294967296 + unat cycles div 4096) * 4294967296 + ?A) mod 18446744073709551616"
    unfolding uh ul by (rule halves_mod)
  also have "(N div 4294967296 + unat cycles div 4096) * 4294967296 + ?A = N + unat cycles * 1048576"
  proof -
    have "unat lo = N mod 4294967296" by (simp add: lo_def unat_of_nat take_bit_eq_mod)
    then show ?thesis
      by (rule alarm_value [OF _ r div_mult_mod_eq div_mult_mod_eq])
  qed
  finally show ?thesis using tr unfolding N_def by (intro exI conjI) simp_all
qed

theorem goldfish_set_timer_alarm_witness:
  "\<exists>lo hi hi' lo'.
     trace (goldfish_set_timer (clock_env slow_clock) 5000 timer_boot) =
       [Rd (IO_ADDRESS GOLDFISH_TIMER_BASE + TIMER_TIME_LOW) lo,
        Rd (IO_ADDRESS GOLDFISH_TIMER_BASE + TIMER_TIME_HIGH) hi,
        Wr (IO_ADDRESS GOLDFISH_TIMER_BASE + TIMER_ALARM_HIGH) hi',
        Wr (IO_ADDRESS GOLDFISH_TIMER_BASE + TIMER_ALARM_LOW) lo'] \<and>
     unat hi' * 2 ^ 32 + unat lo' = 5000 * 2 ^ 20"
  using goldfish_set_timer_alarm [OF goldfish_timer_clock_env, of slow_clock 5000 timer_boot]
  by (simp add: timer_boot_def slow_clock_def)

text \<open>\<open>get_millisecond\<close> and \<open>get_second\<close> return the device time divided by \<open>2 ^ 20\<close> and
  \<open>2 ^ 30\<close> nanoseconds, modulo \<open>2 ^ 32\<close>, for every 64-bit time; neither changes memory.\<close>

lemma clock_readings:
  assumes "goldfish_timer env ns"
  shows "fst (get_millisecond env m) = of_nat (ns (length (trace m)) div 2 ^ 20) \<and>
         fst (get_second env m) = of_nat (ns (length (trace m)) div 2 ^ 30) \<and>
         mem (snd (get_millisecond env m)) = mem m \<and> mem (snd (get_second env m)) = mem m"
  using get_millisecond_simps [OF assms, of m] get_second_simps [OF assms, of m]
  by (simp add: ticks_def)

lemma clock_readings_example:
  "fst (get_millisecond (clock_env (\<lambda>_. 7 * 2 ^ 32)) timer_boot) = 28672 \<and>
   fst (get_second (clock_env (\<lambda>_. 7 * 2 ^ 32)) timer_boot) = 28"
  using clock_readings [OF goldfish_timer_clock_env, of "\<lambda>_. 7 * 2 ^ 32" timer_boot] by simp

text \<open>The time stamp advances by the ticks since the previous reading as long as the tick
  counter has not passed \<open>2 ^ 32\<close> in between; when it has, the stamp comes out one tick short.\<close>

lemma get_timer_masked_advance:
  assumes "goldfish_timer env ns" and now: "now = of_nat (ticks ns (length (trace s)))"
  shows "fst (get_timer_masked env s) =
      timestamp s + (now - lastdec s) - (if now < lastdec s then 1 else 0) \<and>
    lastdec (snd (get_timer_masked env s)) = now \<and>
    timestamp (snd (get_timer_masked env s)) = fst (get_timer_masked env s)"
  using get_timer_masked_simps [OF assms(1), of s] by (simp add: now)

lemma get_timer_masked_advance_example:
  "fst (get_timer_masked (clock_env (\<lambda>_. 5 * 2 ^ 20)) timer_boot) = 5 \<and>
   fst (get_timer_masked (clock_env (\<lambda>_. 5 * 2 ^ 20)) (timer_boot\<lparr>lastdec := 0xffffffff\<rparr>)) = 5"
  using get_timer_masked_advance [OF goldfish_timer_clock_env refl, of "\<lambda>_. 5 * 2 ^ 20" timer_boot]
    get_timer_masked_advance [OF goldfish_timer_clock_env refl,
      of "\<lambda>_. 5 * 2 ^ 20" "timer_boot\<lparr>lastdec := 0xffffffff\<rparr>"]
  by (simp add: timer_boot_def ticks_def)

text \<open>\<open>goldfish_timer_read\<close> returns the low half of the time only: the high half, which it
  reads and shifts, is lost in the assignment to the 32-bit result.\<close>

lemma goldfish_timer_read_low:
  "fst (goldfish_timer_read env m) =
     env_read env (trace m) (IO_ADDRESS GOLDFISH_TIMER_BASE + TIMER_TIME_LOW)"
proof -
  have "ucast ((ucast a :: u64) OR push_bit 32 (ucast b)) = a" for a b :: u32
    by (rule bit_word_eqI) (auto simp: bit_simps)
  then show ?thesis by (simp add: goldfish_timer_read_def readl_def Let_def)
qed

end
