(* ===== verification/Div64.thy ===== *)
theory Div64
  imports Prelude
begin

text \<open>
  The 64-by-32 bit division of the NAND example: the macro \<open>do_div\<close> of
  \<^verbatim>\<open>include/div64.h\<close> and its slow path \<open>__div64_32\<close> of \<^verbatim>\<open>c08/c08e1/c08e1.c\<close>. The C
  function stores the quotient through its pointer argument and returns the remainder; the
  model returns the pair (remainder, quotient). The contract that clients rely on, the
  ``semantics of do_div'' comment in the header, is the locale \<open>divider\<close>.
\<close>

section \<open>The slow path\<close>

lemma unat_double:
  fixes b :: u64
  assumes "0 < sint b"
  shows "unat (b + b) = 2 * unat b" and "unat b < 9223372036854775808" and "0 < unat b"
proof -
  show b: "unat b < 9223372036854775808" and "0 < unat b" using assms by (simp_all add: sint_u64_pos)
  from b show "unat (b + b) = 2 * unat b" using unat_add_u64 [of b b] by simp
qed

text \<open>The first loop doubles \<open>b\<close> and \<open>d\<close> until \<open>b\<close> reaches \<open>rem\<close> or its sign bit.\<close>

function div64_scale :: "u64 \<Rightarrow> u64 \<Rightarrow> u64 \<Rightarrow> u64 \<times> u64" where
  "div64_scale rem b d =
     (if 0 < sint b \<and> b < rem then div64_scale rem (b + b) (d + d) else (b, d))"
  by pat_completeness auto
termination
proof (relation "measure (\<lambda>(rem, b, d). 18446744073709551616 - unat b)", goal_cases)
  case (2 rem b d)
  then show ?case using unat_double [of b] by auto
qed simp

text \<open>The second loop subtracts and halves while \<open>d\<close> is not zero.\<close>

function div64_reduce :: "u64 \<Rightarrow> u64 \<Rightarrow> u64 \<Rightarrow> u64 \<Rightarrow> u64 \<times> u64" where
  "div64_reduce rem res b d =
     (let (rem', res') = (if b \<le> rem then (rem - b, res + d) else (rem, res));
          b' = drop_bit 1 b; d' = drop_bit 1 d
      in if d' \<noteq> 0 then div64_reduce rem' res' b' d' else (rem', res'))"
  by pat_completeness auto
termination
proof (relation "measure (\<lambda>(rem, res, b, d). unat d)", goal_cases)
  case (2 rem res b d x y z b' d')
  then have "unat d div 2 \<noteq> 0" by (auto simp: word_eq_0_unat word_nat)
  then show ?case using 2 by (simp add: word_nat)
qed simp

declare div64_scale.simps [simp del] div64_reduce.simps [simp del]

text \<open>
  \<open>__div64_32\<close>. The first division is by \<open>base\<close>: with \<open>base = 0\<close> the test
  \<open>high >= base\<close> holds and the division faults. The product \<open>high*base\<close> is a 32-bit one.
\<close>

definition div64_32 :: "u64 \<Rightarrow> u32 \<Rightarrow> (u32 \<times> u64) result" where
  "div64_32 n base =
     (let rem = n; b = (ucast base :: u64); d = 1; high = (ucast (drop_bit 32 rem) :: u32); res = 0 in
      if base \<le> high \<and> base = 0 then Inl Div_by_zero
      else
        let (res, rem) =
              (if base \<le> high
               then let high = high div base
                    in (push_bit 32 (ucast high), rem - push_bit 32 (ucast (high * base)))
               else (res, rem));
            (b, d) = div64_scale rem b d;
            (rem, res) = div64_reduce rem res b d
        in Inr (ucast rem, res))"

text \<open>
  The macro \<open>do_div(n, base)\<close>: the result is the remainder, \<open>n\<close> becomes the quotient.
  For a signed \<open>n\<close> (\<open>loff_t\<close>) the test \<open>(n) >> 32 == 0\<close> holds for the same bit
  patterns, and the slow path reads the bits as unsigned.
\<close>

definition do_div :: "u64 \<Rightarrow> u32 \<Rightarrow> (u32 \<times> u64) result" where
  "do_div n base =
     (if drop_bit 32 n = 0
      then if base = 0 then Inl Div_by_zero
           else Inr ((ucast n :: u32) mod base, ucast ((ucast n :: u32) div base))
      else div64_32 n base)"

text \<open>The wrapper that returns the quotient.\<close>

definition lldiv :: "u64 \<Rightarrow> u32 \<Rightarrow> u64 result" where
  "lldiv dividend divisor = rbind (do_div dividend divisor) (\<lambda>(r, q). Inr q)"

section \<open>Correctness of the loops\<close>

text \<open>The scaled pair: \<open>b\<close> is \<open>base\<close> times \<open>d\<close>, and \<open>d\<close> is a power of two.\<close>

lemma div64_scale_invariant:
  assumes "div64_scale rem b d = (b', d')"
    and "unat b = unat base * 2 ^ k" and "unat d = 2 ^ k" and "0 < unat (base :: u32)"
  shows "\<exists>k'. unat b' = unat base * 2 ^ k' \<and> unat d' = 2 ^ k' \<and> unat rem < 2 * unat b'"
  using assms
proof (induction rem b d arbitrary: k rule: div64_scale.induct)
  case (1 rem b d)
  show ?case
  proof (cases "0 < sint b \<and> b < rem")
    case True
    have d: "unat d \<le> unat b" using "1.prems"(2-4) by simp
    have bb: "unat (b + b) = unat base * 2 ^ Suc k"
      using True "1.prems"(2) by (simp only: unat_double) simp
    have dd: "unat (d + d) = 2 ^ Suc k"
      using True "1.prems"(3) d unat_double(2) [of b] unat_add_u64 [of d d] by simp
    from True "1.prems"(1) have "div64_scale rem (b + b) (d + d) = (b', d')"
      by (simp add: div64_scale.simps [of rem b d])
    from "1.IH" [OF True this bb dd "1.prems"(4)] show ?thesis .
  next
    case False
    then have r: "b' = b" "d' = d" using "1.prems"(1) by (auto simp: div64_scale.simps [of rem b d])
    have "0 < unat b" using "1.prems"(2,4) by simp
    with False have "unat rem < 2 * unat b"
      using unat_lt_u64 [of rem] unat_lt_u64 [of b]
      by (auto simp: sint_u64_pos word_less_nat_alt)
    with r "1.prems" show ?thesis by blast
  qed
qed

text \<open>
  The reduction: with \<open>rem < 2 b\<close> it ends with a remainder below \<open>base\<close>, and the value
  \<open>res * base + rem\<close> is the same as before.
\<close>

lemma div64_reduce_correct:
  assumes "div64_reduce rem res b d = (rem', res')"
    and "unat b = unat base * 2 ^ k" and "unat d = 2 ^ k" and "0 < unat (base :: u32)"
    and "unat rem < 2 * unat b"
    and "unat res * unat base + unat rem < 18446744073709551616"
  shows "unat res' * unat base + unat rem' = unat res * unat base + unat rem \<and> unat rem' < unat base"
  using assms
proof (induction rem res b d arbitrary: k rule: div64_reduce.induct)
  case (1 rem res b d)
  define r where "r = (if b \<le> rem then rem - b else rem)"
  define q where "q = (if b \<le> rem then res + d else res)"
  have le: "unat q * unat base + unat r = unat res * unat base + unat rem" and rb: "unat r < unat b"
  proof -
    show rb: "unat r < unat b"
      using "1.prems"(5) by (auto simp: r_def word_le_nat_alt unat_sub_no_wrap)
    show "unat q * unat base + unat r = unat res * unat base + unat rem"
    proof (cases "b \<le> rem")
      case True
      then have "unat base * 2 ^ k \<le> unat rem" using "1.prems"(2) by (simp add: word_le_nat_alt)
      moreover have "unat res \<le> unat res * unat base" "2 ^ k \<le> unat base * 2 ^ k"
        using "1.prems"(4) by simp_all
      ultimately have "unat res + unat d < 18446744073709551616"
        using "1.prems"(3,6) by linarith
      then have "unat (res + d) = unat res + 2 ^ k"
        using "1.prems"(3) by (simp only: unat_add_u64)
      then show ?thesis using True "1.prems"(2)
        by (simp add: q_def r_def unat_sub_no_wrap word_le_nat_alt algebra_simps)
    qed (simp add: q_def r_def)
  qed
  have unf: "div64_reduce rem res b d =
      (if drop_bit 1 d \<noteq> 0 then div64_reduce r q (drop_bit 1 b) (drop_bit 1 d) else (r, q))"
    by (simp add: div64_reduce.simps [of rem res b d] r_def q_def Let_def)
  show ?case
  proof (cases k)
    case 0
    then have "drop_bit 1 d = 0" using "1.prems"(3) by (simp add: word_eq_0_unat word_nat)
    with unf "1.prems"(1) have "rem' = r" "res' = q" by simp_all
    then show ?thesis using le rb "1.prems"(2) 0 by simp
  next
    case (Suc j)
    have d': "unat (drop_bit 1 d) = 2 ^ j" and b': "unat (drop_bit 1 b) = unat base * 2 ^ j"
      using "1.prems"(2,3) Suc by (simp_all add: word_nat)
    then have nz: "drop_bit 1 d \<noteq> 0" by (auto simp: word_eq_0_unat)
    have p: "(if b \<le> rem then (rem - b, res + d) else (rem, res)) = (r, q)"
      by (simp add: r_def q_def)
    from nz unf "1.prems"(1) have "div64_reduce r q (drop_bit 1 b) (drop_bit 1 d) = (rem', res')"
      by simp
    moreover have "unat r < 2 * unat (drop_bit 1 b)" using rb b' "1.prems"(2) Suc by simp
    moreover have "unat q * unat base + unat r < 18446744073709551616" using le "1.prems"(6) by simp
    ultimately show ?thesis
      using "1.IH" [OF p [symmetric] refl refl refl nz _ b' d' "1.prems"(4)] le by simp
  qed
qed

section \<open>Correctness of the division\<close>

text \<open>The first step of \<open>__div64_32\<close> takes \<open>(high div base) * base\<close> off the upper half.\<close>

lemma div64_first_step:
  fixes n :: u64 and base :: u32
  defines "high \<equiv> (ucast (drop_bit 32 n) :: u32)"
  defines "res \<equiv> (push_bit 32 (ucast (high div base)) :: u64)"
  defines "rem \<equiv> n - push_bit 32 (ucast (high div base * base) :: u64)"
  assumes "0 < unat base"
  shows "unat res * unat base + unat rem = unat n"
proof -
  let ?q = "unat high div unat base"
  have h: "unat high = unat n div 4294967296"
    using unat_lt_u64 [of n] by (simp add: high_def unat_ucast_down unat_drop_bit)
  have q: "unat (high div base) = ?q" by (simp add: unat_div)
  have qb: "?q * unat base \<le> unat high" by simp
  then have p: "unat (high div base * base) = ?q * unat base"
    using order_le_less_trans [OF qb unat_lt_u32] q unat_mult_u32 [of "high div base" base] by simp
  have r: "unat res = ?q * 4294967296" by (simp only: res_def unat_high_half q)
  have s: "unat (push_bit 32 (ucast (high div base * base)) :: u64) = ?q * unat base * 4294967296"
    by (simp only: unat_high_half p)
  have "?q * unat base * 4294967296 \<le> unat n"
    using mult_le_mono1 [OF qb, of 4294967296] unfolding h
    by (rule order_trans) simp
  then have "unat rem = unat n - ?q * unat base * 4294967296"
    using s by (simp add: rem_def unat_sub_no_wrap)
  with r \<open>?q * unat base * 4294967296 \<le> unat n\<close> show ?thesis by (simp add: algebra_simps)
qed

lemma div64_32_cases:
  assumes "base \<noteq> 0"
  obtains rem0 res0 b d rem res where
    "unat res0 * unat base + unat rem0 = unat n"
    "div64_scale rem0 (ucast base) 1 = (b, d)"
    "div64_reduce rem0 res0 b d = (rem, res)"
    "div64_32 n base = Inr (ucast rem, res)"
proof -
  define high where "high = (ucast (drop_bit 32 n) :: u32)"
  define res0 where "res0 = (if base \<le> high then push_bit 32 (ucast (high div base)) else 0 :: u64)"
  define rem0 where "rem0 = (if base \<le> high then n - push_bit 32 (ucast (high div base * base)) else n)"
  obtain b d where bd: "div64_scale rem0 (ucast base) 1 = (b, d)" by fastforce
  obtain rem res where rr: "div64_reduce rem0 res0 b d = (rem, res)" by fastforce
  have "unat res0 * unat base + unat rem0 = unat n"
    using div64_first_step [of base n] assms by (simp add: res0_def rem0_def high_def unat_gt_0)
  moreover have "div64_32 n base = Inr (ucast rem, res)"
    using bd rr assms unfolding div64_32_def Let_def res0_def rem0_def high_def [symmetric]
    by (auto split: if_splits)
  ultimately show thesis using that bd rr by blast
qed

lemma div64_32_correct:
  assumes "base \<noteq> 0"
  shows "\<exists>r q. div64_32 n base = Inr (r, q) \<and> unat r = unat n mod unat base \<and> unat q = unat n div unat base"
proof -
  obtain rem0 res0 b d rem res where
    n: "unat res0 * unat base + unat rem0 = unat n" and
    sc: "div64_scale rem0 (ucast base) 1 = (b, d)" and
    rd: "div64_reduce rem0 res0 b d = (rem, res)" and
    eq: "div64_32 n base = Inr (ucast rem, res)"
    by (rule div64_32_cases [OF assms])
  have pos: "0 < unat base" using assms by (simp add: unat_gt_0)
  obtain k where k: "unat b = unat base * 2 ^ k" "unat d = 2 ^ k" "unat rem0 < 2 * unat b"
    using div64_scale_invariant [OF sc, of base 0] pos by (auto simp: word_nat)
  have "unat res * unat base + unat rem = unat n" and lt: "unat rem < unat base"
    using div64_reduce_correct [OF rd k(1,2) pos k(3)] n unat_lt_u64 [of n] by simp_all
  then have dm: "unat n div unat base = unat res" "unat n mod unat base = unat rem"
    by (simp_all flip: \<open>unat res * unat base + unat rem = unat n\<close>)
  have "unat (ucast rem :: u32) = unat rem"
    using lt unat_lt_u32 [of base] by (simp add: unat_ucast_down)
  with eq dm show ?thesis by simp
qed

text \<open>The macro computes quotient and remainder on both paths.\<close>

lemma do_div_quot_rem:
  assumes "base \<noteq> 0"
  shows "\<exists>r q. do_div n base = Inr (r, q) \<and> unat r = unat n mod unat base \<and> unat q = unat n div unat base"
proof (cases "drop_bit 32 n = 0")
  case True
  then have "unat n < 4294967296"
    by (simp add: word_eq_0_unat word_nat div_eq_0_iff)
  then have "unat (ucast n :: u32) = unat n" by (simp add: unat_ucast_down)
  then show ?thesis using assms True
    by (simp add: do_div_def unat_mod unat_div unat_ucast_up)
next
  case False
  then show ?thesis using div64_32_correct [OF assms] by (simp add: do_div_def)
qed

lemma do_div_zero [simp]: "do_div n 0 = Inl Div_by_zero"
  by (simp add: do_div_def div64_32_def)

lemma lldiv_quotient: "lldiv n base = (if base = 0 then Inl Div_by_zero else Inr (n div ucast base))"
proof (cases "base = 0")
  case False
  then obtain r q where rq: "do_div n base = Inr (r, q)" "unat q = unat n div unat base" using do_div_quot_rem by blast
  have "q = n div ucast base" using rq(2) by (simp add: word_unat_eq_iff unat_div unat_ucast_up)
  then show ?thesis using rq(1) False by (simp add: lldiv_def)
qed (simp add: lldiv_def)

section \<open>The contract of a divider\<close>

locale divider =
  fixes divmod :: "u64 \<Rightarrow> u32 \<Rightarrow> (u32 \<times> u64) result"
  assumes divmod_zero: "divmod n 0 = Inl Div_by_zero"
    and divmod_nonzero: "base \<noteq> 0 \<Longrightarrow>
      \<exists>r q. divmod n base = Inr (r, q) \<and> unat r = unat n mod unat base \<and> unat q = unat n div unat base"
begin

lemma divmod_Inr:
  assumes "divmod n base = Inr (r, q)"
  shows "base \<noteq> 0" and "unat r = unat n mod unat base" and "unat q = unat n div unat base"
    and "unat n = unat q * unat base + unat r"
proof -
  show nz: "base \<noteq> 0" using assms divmod_zero by auto
  from divmod_nonzero [OF nz, of n] assms
  show r: "unat r = unat n mod unat base" and q: "unat q = unat n div unat base" by auto
  then show "unat n = unat q * unat base + unat r" by simp
qed

text \<open>A test \<open>if (rem) goto invalid_arg\<close> after the division is a divisibility test.\<close>

lemma divmod_aligned:
  assumes "base \<noteq> 0"
  shows "(\<exists>q. divmod n base = Inr (0, q)) \<longleftrightarrow> unat base dvd unat n"
proof -
  obtain r q where rq: "divmod n base = Inr (r, q)" "unat r = unat n mod unat base"
    using divmod_nonzero [OF assms, of n] by blast
  have "r = 0 \<longleftrightarrow> unat base dvd unat n" by (simp add: word_eq_0_unat rq(2) dvd_eq_mod_eq_0)
  with rq(1) show ?thesis by auto
qed

lemma divmod_exact:
  assumes "base \<noteq> 0" and "unat n = p * unat base"
  shows "\<exists>q. divmod n base = Inr (0, q) \<and> unat q = p"
proof -
  obtain r q where rq: "divmod n base = Inr (r, q)"
      "unat r = unat n mod unat base" "unat q = unat n div unat base"
    using divmod_nonzero [OF assms(1), of n] by blast
  moreover have "r = 0" using rq(2) assms(2) by (simp add: word_eq_0_unat)
  ultimately show ?thesis using assms by (simp add: word_eq_0_unat)
qed

end

interpretation dd: divider do_div
  by unfold_locales (simp_all add: do_div_quot_rem)

section \<open>Property\<close>

text \<open>C1: the macro \<open>do_div\<close> divides. For every 64-bit dividend and every non-zero 32-bit divisor it ends,
  on the 32-bit path and on the path through \<open>__div64_32\<close>, with the exact quotient and remainder; with
  divisor zero it faults.\<close>

theorem do_div_correct:
  "(base \<noteq> 0 \<longrightarrow> (\<exists>r q. do_div n base = Inr (r, q) \<and>
      unat n = unat q * unat base + unat r \<and> unat r < unat base)) \<and>
   do_div n 0 = Inl Div_by_zero"
proof -
  have "\<exists>r q. do_div n base = Inr (r, q) \<and> unat n = unat q * unat base + unat r \<and> unat r < unat base"
    if nz: "base \<noteq> 0"
  proof -
    obtain r q where rq: "do_div n base = Inr (r, q)" using dd.divmod_nonzero [OF nz, of n] by blast
    have "0 < unat base" using nz by (simp add: unat_gt_0)
    then have "unat r < unat base" using dd.divmod_Inr(2) [OF rq] by simp
    then show ?thesis using rq dd.divmod_Inr(4) [OF rq] by blast
  qed
  then show ?thesis by simp
qed

theorem do_div_correct_witness:
  "\<exists>r q. do_div 0x123456789ABCDEF0 1000 = Inr (r, q) \<and> 0x123456789ABCDEF0 = unat q * 1000 + unat r \<and> unat r < 1000"
  using do_div_correct [of 1000 "0x123456789ABCDEF0"] by simp

end
