(* ===== verification/Nand.thy ===== *)
theory Nand
  imports Timer Div64
begin

text \<open>
  The NAND flash driver \<^verbatim>\<open>c08/c08e1/goldfish_nand.c\<close> with the structures of \<^verbatim>\<open>mtd.h\<close> and the
  register numbers of \<^verbatim>\<open>goldfish_nand_reg.h\<close>. The driver's globals \<open>nand_info\<close> and
  \<open>goldfish_nand_info\<close> extend the machine state; the array \<open>goldfish_dev_name\<close>, which the device
  writes, lies in memory at an address the linker chooses. A pointer to an element of \<open>nand_info\<close>
  is its index. A \<open>loff_t\<close> is a 64-bit word read as signed where C does: its sums and products
  fault on overflow, and a comparison with the unsigned \<open>mtd->size\<close> is unsigned.
\<close>

section \<open>Data\<close>

definition EIO :: int where [simp]: "EIO = 5"
definition ENOMEM :: int where [simp]: "ENOMEM = 12"
definition ENODEV :: int where [simp]: "ENODEV = 19"
definition EINVAL :: int where [simp]: "EINVAL = 22"
definition CONFIG_SYS_MAX_NAND_DEVICE :: nat where [simp]: "CONFIG_SYS_MAX_NAND_DEVICE = 3"
definition GOLDFISH_DEV_NAME_MAX_LEN :: u32 where [simp]: "GOLDFISH_DEV_NAME_MAX_LEN = 64"

datatype nand_cmd = NAND_CMD_GET_DEV_NAME | NAND_CMD_READ | NAND_CMD_WRITE
  | NAND_CMD_ERASE | NAND_CMD_BLOCK_BAD_GET | NAND_CMD_BLOCK_BAD_SET

fun nand_cmd_code :: "nand_cmd \<Rightarrow> u32" where
  "nand_cmd_code NAND_CMD_GET_DEV_NAME = 0"
| "nand_cmd_code NAND_CMD_READ = 1"
| "nand_cmd_code NAND_CMD_WRITE = 2"
| "nand_cmd_code NAND_CMD_ERASE = 3"
| "nand_cmd_code NAND_CMD_BLOCK_BAD_GET = 4"
| "nand_cmd_code NAND_CMD_BLOCK_BAD_SET = 5"

definition NAND_DEV_FLAG_READ_ONLY :: u32 where [simp]: "NAND_DEV_FLAG_READ_ONLY = 1"
definition NAND_VERSION_CURRENT :: u32 where [simp]: "NAND_VERSION_CURRENT = 1"

definition NAND_VERSION :: u32 where [simp]: "NAND_VERSION = 0x000"
definition NAND_NUM_DEV :: u32 where [simp]: "NAND_NUM_DEV = 0x004"
definition NAND_DEV :: u32 where [simp]: "NAND_DEV = 0x008"
definition NAND_DEV_FLAGS :: u32 where [simp]: "NAND_DEV_FLAGS = 0x010"
definition NAND_DEV_NAME_LEN :: u32 where [simp]: "NAND_DEV_NAME_LEN = 0x014"
definition NAND_DEV_PAGE_SIZE :: u32 where [simp]: "NAND_DEV_PAGE_SIZE = 0x018"
definition NAND_DEV_EXTRA_SIZE :: u32 where [simp]: "NAND_DEV_EXTRA_SIZE = 0x01c"
definition NAND_DEV_ERASE_SIZE :: u32 where [simp]: "NAND_DEV_ERASE_SIZE = 0x020"
definition NAND_DEV_SIZE_LOW :: u32 where [simp]: "NAND_DEV_SIZE_LOW = 0x028"
definition NAND_DEV_SIZE_HIGH :: u32 where [simp]: "NAND_DEV_SIZE_HIGH = 0x02c"
definition NAND_RESULT :: u32 where [simp]: "NAND_RESULT = 0x040"
definition NAND_COMMAND :: u32 where [simp]: "NAND_COMMAND = 0x044"
definition NAND_DATA :: u32 where [simp]: "NAND_DATA = 0x048"
definition NAND_TRANSFER_SIZE :: u32 where [simp]: "NAND_TRANSFER_SIZE = 0x04c"
definition NAND_ADDR_LOW :: u32 where [simp]: "NAND_ADDR_LOW = 0x050"
definition NAND_ADDR_HIGH :: u32 where [simp]: "NAND_ADDR_HIGH = 0x054"

definition MTD_ERASE_DONE :: u8 where [simp]: "MTD_ERASE_DONE = 0x08"
definition MTD_NANDFLASH :: u8 where [simp]: "MTD_NANDFLASH = 4"
definition MTD_WRITEABLE :: u32 where [simp]: "MTD_WRITEABLE = 0x400"
definition MTD_CAP_NANDFLASH :: u32 where [simp]: "MTD_CAP_NANDFLASH = MTD_WRITEABLE"

text \<open>The functions that the method pointers of an \<open>mtd_info\<close> can point to.\<close>

datatype nand_method = M_erase | M_read | M_write | M_read_oob | M_write_oob
  | M_block_isbad | M_block_markbad

text \<open>\<open>struct mtd_info\<close>, with the fields the driver sets or reads; \<open>mtd_priv\<close> tells whether
  \<open>priv\<close> points to \<open>goldfish_nand_info\<close> or is still \<open>NULL\<close>.\<close>

record mtd_info =
  mtd_type :: u8
  mtd_flags :: u32
  mtd_size :: u64
  erasesize :: u32
  writesize :: u32
  oobsize :: u32
  oobavail :: u32
  mtd_name :: u32
  mtd_erase :: "nand_method option"
  mtd_read :: "nand_method option"
  mtd_write :: "nand_method option"
  mtd_read_oob :: "nand_method option"
  mtd_write_oob :: "nand_method option"
  mtd_block_isbad :: "nand_method option"
  mtd_block_markbad :: "nand_method option"
  mtd_priv :: bool
  mtd_owner :: u32

record erase_info =
  ei_addr :: u64
  ei_len :: u64
  ei_state :: u8

record mtd_oob_ops =
  op_len :: u32
  op_retlen :: u32
  op_ooblen :: u32
  op_oobretlen :: u32
  op_ooboffs :: u32
  op_datbuf :: u32
  op_oobbuf :: u32

text \<open>\<open>struct goldfish_nand\<close>; \<open>nand_mtd\<close> is the element of \<open>nand_info\<close> that \<open>mtd\<close> points to.\<close>

record goldfish_nand =
  nand_base :: u32
  mtd_count :: u32
  nand_mtd :: "nat option"

record nand_st = timer_st +
  goldfish_nand_info :: goldfish_nand
  nand_info :: "mtd_info list"
  goldfish_dev_name :: u32

definition mtd_ref :: "'a nand_st_scheme \<Rightarrow> nat \<Rightarrow> mtd_info result" where
  "mtd_ref s i = (if i < length (nand_info s) then Inr (nand_info s ! i) else Inl Out_of_bounds)"

definition mtd_upd :: "nat \<Rightarrow> (mtd_info \<Rightarrow> mtd_info) \<Rightarrow> 'a nand_st_scheme \<Rightarrow> 'a nand_st_scheme" where
  "mtd_upd i f s = s\<lparr>nand_info := list_update (nand_info s) i (f (nand_info s ! i))\<rparr>"

section \<open>The driver\<close>

definition goldfish_nand_cmd ::
  "env \<Rightarrow> nat \<Rightarrow> nand_cmd \<Rightarrow> u64 \<Rightarrow> u32 \<Rightarrow> u32 \<Rightarrow> 'a nand_st_scheme \<Rightarrow> (u32 \<times> 'a nand_st_scheme) result" where
  "goldfish_nand_cmd env i cmd addr len ptr s =
     rbind (mtd_ref s i) (\<lambda>mtd.
       if \<not> mtd_priv mtd then Inl Null_pointer
       else case nand_mtd (goldfish_nand_info s) of
         None \<Rightarrow> Inl Null_pointer
       | Some j \<Rightarrow>
           let base = nand_base (goldfish_nand_info s);
               s = writel env (of_nat i - of_nat j) (base + NAND_DEV) s;
               s = writel env (ucast (drop_bit 32 addr)) (base + NAND_ADDR_HIGH) s;
               s = writel env (ucast addr) (base + NAND_ADDR_LOW) s;
               s = writel env len (base + NAND_TRANSFER_SIZE) s;
               s = writel env ptr (base + NAND_DATA) s;
               s = writel env (nand_cmd_code cmd) (base + NAND_COMMAND) s
           in Inr (readl env (base + NAND_RESULT) s))"

text \<open>\<^verbatim>\<open>mtd.h\<close>: the callback is a function of the caller.\<close>

definition mtd_erase_callback ::
  "(erase_info \<Rightarrow> 's \<Rightarrow> erase_info \<times> 's) option \<Rightarrow> erase_info \<Rightarrow> 's \<Rightarrow> erase_info \<times> 's" where
  "mtd_erase_callback callback instr s =
     (case callback of None \<Rightarrow> (instr, s) | Some f \<Rightarrow> f instr s)"

definition mtd_div_by_eb :: "u64 \<Rightarrow> mtd_info \<Rightarrow> u32 result" where
  "mtd_div_by_eb sz mtd = rbind (do_div sz (erasesize mtd)) (\<lambda>(rem, sz). Inr (ucast sz))"

definition mtd_mod_by_eb :: "u64 \<Rightarrow> mtd_info \<Rightarrow> u32 result" where
  "mtd_mod_by_eb sz mtd = rbind (do_div sz (erasesize mtd)) (\<lambda>(rem, sz). Inr rem)"

definition goldfish_nand_erase ::
  "env \<Rightarrow> (erase_info \<Rightarrow> 'a nand_st_scheme \<Rightarrow> erase_info \<times> 'a nand_st_scheme) option \<Rightarrow> nat \<Rightarrow> erase_info
   \<Rightarrow> 'a nand_st_scheme \<Rightarrow> (int \<times> erase_info \<times> 'a nand_st_scheme) result" where
  "goldfish_nand_erase env callback i instr s =
     rbind (mtd_ref s i) (\<lambda>mtd.
     let ofs = ei_addr instr;
         len = (ucast (ei_len instr) :: u32);
         invalid_arg = (\<lambda>ofs len. Inr (- EINVAL, instr,
           printf ''goldfish_nand_erase: invalid erase, start %llx, len %x, dev_size %llx, erase_size %x\<newline>''
             [sint (ofs :: u64), uint (len :: u32), uint (mtd_size mtd), uint (erasesize mtd)] s))
     in rbind (s64_add ofs (ucast len)) (\<lambda>last.
        if mtd_size mtd < last then invalid_arg ofs len
        else rbind (do_div ofs (writesize mtd)) (\<lambda>(rem, ofs).
        if rem \<noteq> 0 then invalid_arg ofs len
        else rbind (s64_mul ofs (ucast (writesize mtd + oobsize mtd))) (\<lambda>ofs.
        if len mod writesize mtd \<noteq> 0 then invalid_arg ofs len
        else let len = len div writesize mtd * (writesize mtd + oobsize mtd)
        in rbind (goldfish_nand_cmd env i NAND_CMD_ERASE ofs len 0 s) (\<lambda>(rv, s).
           if rv \<noteq> len
           then Inr (- EIO, instr,
             printf ''goldfish_nand_erase: erase failed, start %llx, len %x, dev_size %llx, erase_size %x\<newline>''
               [sint ofs, uint len, uint (mtd_size mtd), uint (erasesize mtd)] s)
           else let instr = instr\<lparr>ei_state := MTD_ERASE_DONE\<rparr>;
                    (instr, s) = mtd_erase_callback callback instr s
                in Inr (0, instr, s))))))"

text \<open>The transfers of a page with its spare area; a null buffer is skipped.\<close>

definition goldfish_nand_read_oob ::
  "env \<Rightarrow> nat \<Rightarrow> u64 \<Rightarrow> mtd_oob_ops \<Rightarrow> 'a nand_st_scheme \<Rightarrow> (int \<times> mtd_oob_ops \<times> 'a nand_st_scheme) result" where
  "goldfish_nand_read_oob env i ofs ops s =
     rbind (mtd_ref s i) (\<lambda>mtd.
     let invalid_arg = (\<lambda>ofs. Inr (- EINVAL, ops,
           printf ''goldfish_nand_read_oob: invalid read, start %llx, len %x, ooblen %x, dev_size %llx, write_size %x\<newline>''
             [sint (ofs :: u64), uint (op_len ops), uint (op_ooblen ops), uint (mtd_size mtd), uint (writesize mtd)] s))
     in rbind (s64_add ofs (ucast (op_len ops))) (\<lambda>last.
        if mtd_size mtd < last then invalid_arg ofs
        else if op_datbuf ops \<noteq> 0 \<and> op_len ops \<noteq> 0 \<and> op_len ops \<noteq> writesize mtd then invalid_arg ofs
        else if oobsize mtd < op_ooblen ops + op_ooboffs ops then invalid_arg ofs
        else rbind (do_div ofs (writesize mtd)) (\<lambda>(rem, ofs).
        if rem \<noteq> 0 then invalid_arg ofs
        else rbind (s64_mul ofs (ucast (writesize mtd + oobsize mtd))) (\<lambda>ofs.
        rbind (if op_datbuf ops \<noteq> 0
               then rbind (goldfish_nand_cmd env i NAND_CMD_READ ofs (op_len ops) (op_datbuf ops) s)
                      (\<lambda>(rv, s). Inr (ops\<lparr>op_retlen := rv\<rparr>, s))
               else Inr (ops, s)) (\<lambda>(ops, s).
        rbind (s64_add ofs (ucast (writesize mtd + op_ooboffs ops))) (\<lambda>ofs.
        rbind (if op_oobbuf ops \<noteq> 0
               then rbind (goldfish_nand_cmd env i NAND_CMD_READ ofs (op_ooblen ops) (op_oobbuf ops) s)
                      (\<lambda>(rv, s). Inr (ops\<lparr>op_oobretlen := rv\<rparr>, s))
               else Inr (ops, s)) (\<lambda>(ops, s).
        Inr (0, ops, s))))))))"

definition goldfish_nand_write_oob ::
  "env \<Rightarrow> nat \<Rightarrow> u64 \<Rightarrow> mtd_oob_ops \<Rightarrow> 'a nand_st_scheme \<Rightarrow> (int \<times> mtd_oob_ops \<times> 'a nand_st_scheme) result" where
  "goldfish_nand_write_oob env i ofs ops s =
     rbind (mtd_ref s i) (\<lambda>mtd.
     let invalid_arg = (\<lambda>ofs. Inr (- EINVAL, ops,
           printf ''goldfish_nand_write_oob: invalid write, start %llx, len %x, ooblen %x, dev_size %llx, write_size %x\<newline>''
             [sint (ofs :: u64), uint (op_len ops), uint (op_ooblen ops), uint (mtd_size mtd), uint (writesize mtd)] s))
     in rbind (s64_add ofs (ucast (op_len ops))) (\<lambda>last.
        if mtd_size mtd < last then invalid_arg ofs
        else if op_len ops \<noteq> 0 \<and> op_len ops \<noteq> writesize mtd then invalid_arg ofs
        else if oobsize mtd < op_ooblen ops + op_ooboffs ops then invalid_arg ofs
        else rbind (do_div ofs (writesize mtd)) (\<lambda>(rem, ofs).
        if rem \<noteq> 0 then invalid_arg ofs
        else rbind (s64_mul ofs (ucast (writesize mtd + oobsize mtd))) (\<lambda>ofs.
        rbind (if op_datbuf ops \<noteq> 0
               then rbind (goldfish_nand_cmd env i NAND_CMD_WRITE ofs (op_len ops) (op_datbuf ops) s)
                      (\<lambda>(rv, s). Inr (ops\<lparr>op_retlen := rv\<rparr>, s))
               else Inr (ops, s)) (\<lambda>(ops, s).
        rbind (s64_add ofs (ucast (writesize mtd + op_ooboffs ops))) (\<lambda>ofs.
        rbind (if op_oobbuf ops \<noteq> 0
               then rbind (goldfish_nand_cmd env i NAND_CMD_WRITE ofs (op_ooblen ops) (op_oobbuf ops) s)
                      (\<lambda>(rv, s). Inr (ops\<lparr>op_oobretlen := rv\<rparr>, s))
               else Inr (ops, s)) (\<lambda>(ops, s).
        Inr (0, ops, s))))))))"

text \<open>\<open>*retlen\<close> is passed in and returned.\<close>

definition goldfish_nand_read ::
  "env \<Rightarrow> nat \<Rightarrow> u64 \<Rightarrow> u32 \<Rightarrow> u32 \<Rightarrow> u32 \<Rightarrow> 'a nand_st_scheme \<Rightarrow> (int \<times> u32 \<times> 'a nand_st_scheme) result" where
  "goldfish_nand_read env i start len retlen buf s =
     rbind (mtd_ref s i) (\<lambda>mtd.
     let invalid_arg = (\<lambda>start. Inr (- EINVAL, retlen,
           printf ''goldfish_nand_read: invalid read, start %llx, len %x, dev_size %llx, write_size %x\<newline>''
             [sint (start :: u64), uint len, uint (mtd_size mtd), uint (writesize mtd)] s))
     in rbind (s64_add start (ucast len)) (\<lambda>last.
        if mtd_size mtd < last then invalid_arg start
        else if len \<noteq> writesize mtd then invalid_arg start
        else rbind (do_div start (writesize mtd)) (\<lambda>(rem, start).
        if rem \<noteq> 0 then invalid_arg start
        else rbind (s64_mul start (ucast (writesize mtd + oobsize mtd))) (\<lambda>start.
        rbind (goldfish_nand_cmd env i NAND_CMD_READ start len buf s) (\<lambda>(retlen, s).
        Inr (0, retlen, s))))))"

definition goldfish_nand_write ::
  "env \<Rightarrow> nat \<Rightarrow> u64 \<Rightarrow> u32 \<Rightarrow> u32 \<Rightarrow> u32 \<Rightarrow> 'a nand_st_scheme \<Rightarrow> (int \<times> u32 \<times> 'a nand_st_scheme) result" where
  "goldfish_nand_write env i start len retlen buf s =
     rbind (mtd_ref s i) (\<lambda>mtd.
     let invalid_arg = (\<lambda>start. Inr (- EINVAL, retlen,
           printf ''goldfish_nand_write: invalid write, start %llx, len %x, dev_size %llx, write_size %x\<newline>''
             [sint (start :: u64), uint len, uint (mtd_size mtd), uint (writesize mtd)] s))
     in rbind (s64_add start (ucast len)) (\<lambda>last.
        if mtd_size mtd < last then invalid_arg start
        else if len \<noteq> writesize mtd then invalid_arg start
        else rbind (do_div start (writesize mtd)) (\<lambda>(rem, start).
        if rem \<noteq> 0 then invalid_arg start
        else rbind (s64_mul start (ucast (writesize mtd + oobsize mtd))) (\<lambda>start.
        rbind (goldfish_nand_cmd env i NAND_CMD_WRITE start len buf s) (\<lambda>(retlen, s).
        Inr (0, retlen, s))))))"

definition goldfish_nand_block_isbad ::
  "env \<Rightarrow> nat \<Rightarrow> u64 \<Rightarrow> 'a nand_st_scheme \<Rightarrow> (int \<times> 'a nand_st_scheme) result" where
  "goldfish_nand_block_isbad env i ofs s =
     rbind (mtd_ref s i) (\<lambda>mtd.
     let invalid_arg = (\<lambda>ofs. Inr (- EINVAL,
           printf ''goldfish_nand_block_isbad: invalid arg, ofs %llx, dev_size %llx, write_size %x\<newline>''
             [sint (ofs :: u64), uint (mtd_size mtd), uint (writesize mtd)] s))
     in if mtd_size mtd \<le> ofs then invalid_arg ofs
        else rbind (do_div ofs (erasesize mtd)) (\<lambda>(rem, ofs).
        if rem \<noteq> 0 then invalid_arg ofs
        else rbind (u32_div (erasesize mtd) (writesize mtd)) (\<lambda>ppb.
        rbind (s64_mul ofs (ucast ppb)) (\<lambda>ofs.
        rbind (s64_mul ofs (ucast (writesize mtd + oobsize mtd))) (\<lambda>ofs.
        rbind (goldfish_nand_cmd env i NAND_CMD_BLOCK_BAD_GET ofs 0 0 s) (\<lambda>(rv, s).
        Inr (sint rv, s)))))))"

definition goldfish_nand_block_markbad ::
  "env \<Rightarrow> nat \<Rightarrow> u64 \<Rightarrow> 'a nand_st_scheme \<Rightarrow> (int \<times> 'a nand_st_scheme) result" where
  "goldfish_nand_block_markbad env i ofs s =
     rbind (mtd_ref s i) (\<lambda>mtd.
     let invalid_arg = (\<lambda>ofs. Inr (- EINVAL,
           printf ''goldfish_nand_block_markbad: invalid arg, ofs %llx, dev_size %llx, write_size %x\<newline>''
             [sint (ofs :: u64), uint (mtd_size mtd), uint (writesize mtd)] s))
     in if mtd_size mtd \<le> ofs then invalid_arg ofs
        else rbind (do_div ofs (erasesize mtd)) (\<lambda>(rem, ofs).
        if rem \<noteq> 0 then invalid_arg ofs
        else rbind (u32_div (erasesize mtd) (writesize mtd)) (\<lambda>ppb.
        rbind (s64_mul ofs (ucast ppb)) (\<lambda>ofs.
        rbind (s64_mul ofs (ucast (writesize mtd + oobsize mtd))) (\<lambda>ofs.
        rbind (goldfish_nand_cmd env i NAND_CMD_BLOCK_BAD_SET ofs 0 0 s) (\<lambda>(rv, s).
        if rv \<noteq> 1 then Inr (- EIO, s) else Inr (0, s)))))))"

text \<open>
  The geometry that \<open>goldfish_nand_init_device\<close> computes from the device registers. The
  assignments to the structure happen in the order of the code, between the register reads.
\<close>

definition goldfish_nand_init_device ::
  "env \<Rightarrow> nat \<Rightarrow> 'a nand_st_scheme \<Rightarrow> (int \<times> 'a nand_st_scheme) result" where
  "goldfish_nand_init_device env dev_id s =
     (case nand_mtd (goldfish_nand_info s) of
        None \<Rightarrow> Inl Null_pointer
      | Some j \<Rightarrow>
     let i = j + dev_id;
         base = nand_base (goldfish_nand_info s)
     in rbind (mtd_ref s i) (\<lambda>_.
     let s = writel env (of_nat dev_id) (base + NAND_DEV) s;
         (flags, s) = readl env (base + NAND_DEV_FLAGS) s;
         (name_len, s) = readl env (base + NAND_DEV_NAME_LEN) s;
         (v, s) = readl env (base + NAND_DEV_PAGE_SIZE) s;
         s = mtd_upd i (\<lambda>m. m\<lparr>writesize := v\<rparr>) s;
         (v, s) = readl env (base + NAND_DEV_SIZE_LOW) s;
         s = mtd_upd i (\<lambda>m. m\<lparr>mtd_size := ucast v\<rparr>) s;
         (v, s) = readl env (base + NAND_DEV_SIZE_HIGH) s;
         s = mtd_upd i (\<lambda>m. m\<lparr>mtd_size := mtd_size m OR push_bit 32 (ucast v)\<rparr>) s;
         (v, s) = readl env (base + NAND_DEV_EXTRA_SIZE) s;
         s = mtd_upd i (\<lambda>m. m\<lparr>oobsize := v, oobavail := v\<rparr>) s;
         (v, s) = readl env (base + NAND_DEV_ERASE_SIZE) s;
         mtd = nand_info s ! i
     in rbind (u32_div v (writesize mtd + oobsize mtd)) (\<lambda>q.
     let s = mtd_upd i (\<lambda>m. m\<lparr>erasesize := q * writesize m\<rparr>) s
     in rbind (do_div (mtd_size mtd) (writesize mtd + oobsize mtd)) (\<lambda>(rem, sz).
     let s = mtd_upd i (\<lambda>m. m\<lparr>mtd_size := sz\<rparr>) s;
         s = mtd_upd i (\<lambda>m. m\<lparr>mtd_size := mtd_size m * ucast (writesize m)\<rparr>) s;
         s = mtd_upd i (\<lambda>m. m\<lparr>mtd_priv := True\<rparr>) s
     in if GOLDFISH_DEV_NAME_MAX_LEN < name_len
        then Inr (- ENOMEM,
          printf ''goldfish_nand_init_device: name_len=%d, larger than maximum length.'' [uint name_len] s)
        else let name = goldfish_dev_name s + of_nat dev_id * GOLDFISH_DEV_NAME_MAX_LEN;
                 s = mtd_upd i (\<lambda>m. m\<lparr>mtd_name := name\<rparr>) s
        in rbind (goldfish_nand_cmd env i NAND_CMD_GET_DEV_NAME 0 name_len name s) (\<lambda>(result, s).
        if result \<noteq> name_len
        then Inr (- ENODEV,
          printf ''goldfish_nand_init_device failed to get dev name %d != %d\<newline>''
            [uint result, uint name_len] (mtd_upd i (\<lambda>m. m\<lparr>mtd_name := 0\<rparr>) s))
        else let s = s\<lparr>mem := (mem s)(name + name_len := 0)\<rparr>;
                 s = mtd_upd i (\<lambda>m. m\<lparr>mtd_type := MTD_NANDFLASH, mtd_flags := MTD_CAP_NANDFLASH\<rparr>) s;
                 s = (if flags AND NAND_DEV_FLAG_READ_ONLY \<noteq> 0
                      then mtd_upd i (\<lambda>m. m\<lparr>mtd_flags := mtd_flags m AND NOT MTD_WRITEABLE\<rparr>) s else s);
                 s = mtd_upd i (\<lambda>m. m\<lparr>mtd_owner := 0, mtd_erase := Some M_erase, mtd_read := Some M_read,
                       mtd_write := Some M_write, mtd_read_oob := Some M_read_oob,
                       mtd_write_oob := Some M_write_oob, mtd_block_isbad := Some M_block_isbad,
                       mtd_block_markbad := Some M_block_markbad\<rparr>) s
        in Inr (0, s))))))"

text \<open>The loop of \<open>board_nand_init\<close> over \<open>n\<close> devices from \<open>i\<close> on; it counts the working ones.\<close>

fun board_nand_init_loop ::
  "env \<Rightarrow> nat \<Rightarrow> nat \<Rightarrow> nat \<Rightarrow> 'a nand_st_scheme \<Rightarrow> (nat \<times> 'a nand_st_scheme) result" where
  "board_nand_init_loop env i 0 num_dev_working s = Inr (num_dev_working, s)"
| "board_nand_init_loop env i (Suc n) num_dev_working s =
     rbind (goldfish_nand_init_device env i s) (\<lambda>(err, s).
     if err = 0
     then rbind (mtd_ref s i) (\<lambda>mtd.
       board_nand_init_loop env (i + 1) n (num_dev_working + 1)
        (printf ''goldfish_nand_init: id=%d: name=%s, nand_name=%s\<newline>''
          [int i, uint (mtd_name mtd), uint (goldfish_dev_name s + of_nat i * GOLDFISH_DEV_NAME_MAX_LEN)] s))
     else board_nand_init_loop env (i + 1) n num_dev_working s)"

definition board_nand_init :: "env \<Rightarrow> 'a nand_st_scheme \<Rightarrow> 'a nand_st_scheme result" where
  "board_nand_init env s =
     (let base = IO_ADDRESS GOLDFISH_NAND_BASE;
          s = printf ''base=%x\<newline>'' [uint base] s;
          (version, s) = readl env (base + NAND_VERSION) s
      in if version \<noteq> NAND_VERSION_CURRENT
         then Inr (printf ''goldfish_nand_init: version mismatch, got %d, expected %d\<newline>''
                [uint version, uint NAND_VERSION_CURRENT] s)
         else let (num_dev, s) = readl env (base + NAND_NUM_DEV) s
         in if num_dev = 0 \<or> of_nat CONFIG_SYS_MAX_NAND_DEVICE < num_dev
            then Inr (printf ''goldfish_nand_init: NAND_NUM_DEV=%d, fatal error!'' [uint num_dev] s)
            else let s = s\<lparr>goldfish_nand_info := \<lparr>nand_base = base, mtd_count = num_dev, nand_mtd = Some 0\<rparr>\<rparr>
            in rbind (board_nand_init_loop env 0 (unat num_dev) 0 s) (\<lambda>(num_dev_working, s). Inr s))"

section \<open>Geometry\<close>

text \<open>
  The flash holds pages of \<open>writesize\<close> data bytes followed by \<open>oobsize\<close> spare bytes, and the
  device is addressed by raw bytes. The raw address of the page that starts at data offset \<open>ofs\<close>:
\<close>

definition raw_addr :: "mtd_info \<Rightarrow> nat \<Rightarrow> nat" where
  "raw_addr m ofs = ofs div unat (writesize m) * (unat (writesize m) + unat (oobsize m))"

definition mtd_wf :: "mtd_info \<Rightarrow> bool" where
  "mtd_wf m \<longleftrightarrow> mtd_priv m \<and> 0 < unat (writesize m) \<and>
     unat (writesize m) + unat (oobsize m) < 2 ^ 32 \<and>
     0 < unat (erasesize m) \<and> unat (writesize m) dvd unat (erasesize m) \<and>
     unat (writesize m) dvd unat (mtd_size m) \<and>
     raw_addr m (unat (mtd_size m)) < 2 ^ 63 - 2 ^ 32"

definition nand_ready :: "'a nand_st_scheme \<Rightarrow> nat \<Rightarrow> bool" where
  "nand_ready s i \<longleftrightarrow> i < length (nand_info s) \<and> mtd_wf (nand_info s ! i) \<and>
     nand_mtd (goldfish_nand_info s) = Some 0"

text \<open>The register accesses of one command.\<close>

definition nand_access :: "u32 \<Rightarrow> nat \<Rightarrow> nand_cmd \<Rightarrow> nat \<Rightarrow> u32 \<Rightarrow> u32 \<Rightarrow> u32 \<Rightarrow> io list" where
  "nand_access base i cmd addr len ptr rv =
     [Wr (base + NAND_DEV) (of_nat i), Wr (base + NAND_ADDR_HIGH) (of_nat (addr div 2 ^ 32)),
      Wr (base + NAND_ADDR_LOW) (of_nat addr), Wr (base + NAND_TRANSFER_SIZE) len,
      Wr (base + NAND_DATA) ptr, Wr (base + NAND_COMMAND) (nand_cmd_code cmd),
      Rd (base + NAND_RESULT) rv]"

text \<open>The state after a sequence of bus events that leave the driver's variables alone.\<close>

definition nand_does :: "io list \<Rightarrow> 'a nand_st_scheme \<Rightarrow> 'a nand_st_scheme \<Rightarrow> bool" where
  "nand_does tr s s' \<longleftrightarrow> trace s' = trace s @ tr \<and> nand_info s' = nand_info s \<and>
     goldfish_nand_info s' = goldfish_nand_info s \<and> goldfish_dev_name s' = goldfish_dev_name s"

lemma raw_addr_mono: "a \<le> b \<Longrightarrow> raw_addr m a \<le> raw_addr m b"
  by (simp add: raw_addr_def div_le_mono)

lemma raw_addr_pages:
  assumes "0 < unat (writesize m)" and "unat (writesize m) dvd a" "unat (writesize m) dvd b" "a < b"
  shows "raw_addr m a + (unat (writesize m) + unat (oobsize m)) \<le> raw_addr m b"
proof -
  obtain p q where pq: "a = unat (writesize m) * p" "b = unat (writesize m) * q"
    using assms(2,3) by (elim dvdE)
  then have "Suc p \<le> q" using assms(1,4) by simp
  then have "Suc p * (unat (writesize m) + unat (oobsize m)) \<le> q * (unat (writesize m) + unat (oobsize m))"
    by (rule mult_le_mono1)
  then show ?thesis using assms(1) pq by (simp add: raw_addr_def)
qed

lemma raw_addr_ge:
  assumes "0 < unat (writesize m)" "unat (writesize m) dvd a"
  shows "a \<le> raw_addr m a"
proof -
  have "a = a div unat (writesize m) * unat (writesize m)" using assms(2) by simp
  also have "\<dots> \<le> raw_addr m a" by (simp add: raw_addr_def)
  finally show ?thesis .
qed

lemma in_device_small: "mtd_wf m \<Longrightarrow> a \<le> unat (mtd_size m) \<Longrightarrow> a < 9223372032559808512"
  using raw_addr_ge [of m "unat (mtd_size m)"] by (simp add: mtd_wf_def)

lemma unat_page_pitch:
  "mtd_wf m \<Longrightarrow> unat (writesize m + oobsize m) = unat (writesize m) + unat (oobsize m)"
  by (simp add: mtd_wf_def word_nat)

lemma page_address:
  assumes wf: "mtd_wf m" and al: "unat (writesize m) dvd unat ofs" and le: "unat ofs \<le> unat (mtd_size m)"
  shows "\<exists>q r. do_div ofs (writesize m) = Inr (0, q) \<and>
     s64_mul q (ucast (writesize m + oobsize m)) = Inr r \<and> unat r = raw_addr m (unat ofs)"
proof -
  let ?ws = "writesize m"
  have ws: "?ws \<noteq> 0" "0 < unat ?ws" using wf by (auto simp: mtd_wf_def)
  have "unat ofs = unat ofs div unat ?ws * unat ?ws" using al by simp
  from dd.divmod_exact [OF ws(1) this] obtain q where
    q: "do_div ofs ?ws = Inr (0, q)" "unat q = unat ofs div unat ?ws" by blast
  let ?p = "ucast (?ws + oobsize m) :: u64"
  have p: "unat ?p = unat ?ws + unat (oobsize m)"
    using unat_page_pitch [OF wf] by (simp add: word_nat)
  have raw: "unat q * unat ?p = raw_addr m (unat ofs)" by (simp only: q p raw_addr_def)
  have lt: "raw_addr m (unat ofs) < 9223372036854775808"
    using raw_addr_mono [OF le, of m] wf by (simp add: mtd_wf_def)
  have "unat q \<le> unat q * unat ?p" using p ws(2) by simp
  then have "unat q < 9223372036854775808" using lt raw by linarith
  moreover have "unat ?p < 9223372036854775808" using p wf by (simp add: mtd_wf_def)
  ultimately show ?thesis using s64_mul_nat [of q ?p] raw lt q(1) by simp
qed

lemma ucast_high_half: "(ucast (drop_bit 32 (a :: u64)) :: u32) = of_nat (unat a div 2 ^ 32)"
  by (simp only: word_unat_eq_iff unat_ucast_down unat_drop_bit unat_of_nat)

lemma ucast_low_half: "(ucast (a :: u64) :: u32) = of_nat (unat a)"
  by (simp only: word_unat_eq_iff unat_ucast_down unat_of_nat)

lemma nand_vars_writel [simp]:
  "nand_info (writel env v a s) = nand_info s"
  "goldfish_nand_info (writel env v a s) = goldfish_nand_info s"
  "goldfish_dev_name (writel env v a s) = goldfish_dev_name s"
  by (simp_all add: writel_def Let_def)

lemma nand_vars_readl [simp]:
  "nand_info (snd (readl env a s)) = nand_info s"
  "goldfish_nand_info (snd (readl env a s)) = goldfish_nand_info s"
  "goldfish_dev_name (snd (readl env a s)) = goldfish_dev_name s"
  by (simp_all add: readl_def Let_def)

lemma nand_vars_printf [simp]:
  "nand_info (printf f xs s) = nand_info s"
  "goldfish_nand_info (printf f xs s) = goldfish_nand_info s"
  "goldfish_dev_name (printf f xs s) = goldfish_dev_name s"
  by (simp_all add: printf_def)

lemma nand_does_trans: "nand_does t s s' \<Longrightarrow> nand_does t' s' s'' \<Longrightarrow> nand_does (t @ t') s s''"
  by (simp add: nand_does_def)

lemma nand_does_printf: "nand_does [Printf f xs] s (printf f xs s)"
  by (simp add: nand_does_def printf_def)

lemma nand_ready_keep: "nand_does t s s' \<Longrightarrow> nand_ready s' i = nand_ready s i"
  by (simp add: nand_does_def nand_ready_def)

lemma goldfish_nand_cmd_access:
  assumes "i < length (nand_info s)" "mtd_priv (nand_info s ! i)" "nand_mtd (goldfish_nand_info s) = Some 0"
  shows "\<exists>rv s'. goldfish_nand_cmd env i cmd addr len ptr s = Inr (rv, s') \<and>
     nand_does (nand_access (nand_base (goldfish_nand_info s)) i cmd (unat addr) len ptr rv) s s'"
  unfolding nand_does_def nand_access_def ucast_high_half [symmetric] ucast_low_half [symmetric]
  using assms
  by (simp add: goldfish_nand_cmd_def mtd_ref_def Let_def prod_eq_iff ex_simps del: drop_bit_eq_div)

lemma nand_cmd_ready:
  "nand_ready s i \<Longrightarrow> \<exists>rv s'. goldfish_nand_cmd env i cmd addr len ptr s = Inr (rv, s') \<and>
     nand_does (nand_access (nand_base (goldfish_nand_info s)) i cmd (unat addr) len ptr rv) s s'"
  by (rule goldfish_nand_cmd_access) (simp_all add: nand_ready_def mtd_wf_def)

section \<open>Page transfers\<close>

text \<open>Which requests the driver is meant to accept.\<close>

definition page_request :: "mtd_info \<Rightarrow> nat \<Rightarrow> nat \<Rightarrow> bool" where
  "page_request m ofs len \<longleftrightarrow>
     ofs + len \<le> unat (mtd_size m) \<and> len = unat (writesize m) \<and> unat (writesize m) dvd ofs"

lemma mtd_ref_ready: "nand_ready s i \<Longrightarrow> mtd_ref s i = Inr (nand_info s ! i)"
  by (simp add: nand_ready_def mtd_ref_def)

lemma ready_writesize: "nand_ready s i \<Longrightarrow> writesize (nand_info s ! i) \<noteq> 0"
  by (auto simp: nand_ready_def mtd_wf_def)

lemma range_check:
  assumes "unat ofs < 9223372032559808512"
  shows "s64_add ofs (ucast (len :: u32)) = Inr (ofs + ucast len)"
    and "sz < ofs + ucast len \<longleftrightarrow> unat sz < unat ofs + unat len"
proof -
  have u: "unat (ucast len :: u64) = unat len" by (simp add: word_nat)
  then have "unat ofs + unat (ucast len :: u64) < 9223372036854775808"
    using assms unat_lt_u32 [of len] by simp
  from s64_add_nat [OF this] u
  show "s64_add ofs (ucast len) = Inr (ofs + ucast len)" and
    "sz < ofs + ucast len \<longleftrightarrow> unat sz < unat ofs + unat len"
    by (simp_all add: word_less_nat_alt)
qed

lemma unaligned:
  assumes "base \<noteq> 0" "\<not> unat base dvd unat ofs"
  shows "\<exists>r q. do_div ofs base = Inr (r, q) \<and> r \<noteq> 0"
proof -
  obtain r q where "do_div ofs base = Inr (r, q)" "unat r = unat ofs mod unat base"
    using dd.divmod_nonzero [OF assms(1), of ofs] by blast
  with assms(2) show ?thesis by (auto simp: dvd_eq_mod_eq_0)
qed

locale page_op =
  fixes op :: "env \<Rightarrow> nat \<Rightarrow> u64 \<Rightarrow> u32 \<Rightarrow> u32 \<Rightarrow> u32 \<Rightarrow> 'a nand_st_scheme
      \<Rightarrow> (int \<times> u32 \<times> 'a nand_st_scheme) result"
    and cmd :: nand_cmd
  assumes accept: "nand_ready s i \<Longrightarrow>
      page_request (nand_info s ! i) (unat start) (unat len) \<Longrightarrow>
      \<exists>rv s'. op env i start len retlen buf s = Inr (0, rv, s') \<and>
        nand_does (nand_access (nand_base (goldfish_nand_info s)) i cmd
           (raw_addr (nand_info s ! i) (unat start)) len buf rv) s s'"
    and reject: "nand_ready s i \<Longrightarrow> unat start < 9223372032559808512 \<Longrightarrow>
      \<not> page_request (nand_info s ! i) (unat start) (unat len) \<Longrightarrow>
      \<exists>f xs. op env i start len retlen buf s = Inr (- EINVAL, retlen, printf f xs s)"
begin

lemma op_total:
  assumes "nand_ready s i" "unat start < 9223372032559808512"
  shows "\<exists>r rv s'. op env i start len retlen buf s = Inr (r, rv, s') \<and> nand_ready s' i \<and>
     (r = 0 \<longleftrightarrow> page_request (nand_info s ! i) (unat start) (unat len))"
proof (cases "page_request (nand_info s ! i) (unat start) (unat len)")
  case True
  with accept [OF assms(1) True] nand_ready_keep assms(1) show ?thesis by fastforce
next
  case False
  with reject [OF assms False] nand_ready_keep [OF nand_does_printf] assms(1) show ?thesis by fastforce
qed

lemma op_done:
  assumes ready: "nand_ready s i" and small: "unat start < 9223372032559808512"
    and ok: "op env i start len retlen buf s = Inr (0, rv, s')"
  shows "page_request (nand_info s ! i) (unat start) (unat len)"
    and "nand_does (nand_access (nand_base (goldfish_nand_info s)) i cmd
       (raw_addr (nand_info s ! i) (unat start)) len buf rv) s s'"
proof -
  show req: "page_request (nand_info s ! i) (unat start) (unat len)"
    using reject [OF ready small, of len env retlen buf] ok by fastforce
  show "nand_does (nand_access (nand_base (goldfish_nand_info s)) i cmd
       (raw_addr (nand_info s ! i) (unat start)) len buf rv) s s'"
    using accept [OF ready req, of env retlen buf] ok by auto
qed

end

lemma page_request_steps:
  assumes ready: "nand_ready s i" and m: "m = nand_info s ! i"
    and req: "page_request m (unat start) (unat len)"
  shows "\<exists>q r. do_div start (writesize m) = Inr (0, q) \<and>
     s64_mul q (ucast (writesize m + oobsize m)) = Inr r \<and> unat r = raw_addr m (unat start)"
  using page_address [of m start] ready req by (simp add: nand_ready_def page_request_def m)

text \<open>\<open>goldfish_nand_read\<close> and \<open>goldfish_nand_write\<close> differ in the command and the message.\<close>

definition page_transfer ::
  "nand_cmd \<Rightarrow> string \<Rightarrow> env \<Rightarrow> nat \<Rightarrow> u64 \<Rightarrow> u32 \<Rightarrow> u32 \<Rightarrow> u32 \<Rightarrow> 'a nand_st_scheme
   \<Rightarrow> (int \<times> u32 \<times> 'a nand_st_scheme) result" where
  "page_transfer cmd msg env i start len retlen buf s =
     rbind (mtd_ref s i) (\<lambda>mtd.
     let invalid_arg = (\<lambda>start. Inr (- EINVAL, retlen,
           printf msg [sint (start :: u64), uint len, uint (mtd_size mtd), uint (writesize mtd)] s))
     in rbind (s64_add start (ucast len)) (\<lambda>last.
        if mtd_size mtd < last then invalid_arg start
        else if len \<noteq> writesize mtd then invalid_arg start
        else rbind (do_div start (writesize mtd)) (\<lambda>(rem, start).
        if rem \<noteq> 0 then invalid_arg start
        else rbind (s64_mul start (ucast (writesize mtd + oobsize mtd))) (\<lambda>start.
        rbind (goldfish_nand_cmd env i cmd start len buf s) (\<lambda>(retlen, s).
        Inr (0, retlen, s))))))"

lemma read_is_transfer: "\<exists>msg. goldfish_nand_read = page_transfer NAND_CMD_READ msg"
  by (intro exI ext) (simp only: goldfish_nand_read_def page_transfer_def)

lemma write_is_transfer: "\<exists>msg. goldfish_nand_write = page_transfer NAND_CMD_WRITE msg"
  by (intro exI ext) (simp only: goldfish_nand_write_def page_transfer_def)

lemma page_transfer_accept:
  fixes len :: u32
  assumes ready: "nand_ready s i"
    and req: "page_request (nand_info s ! i) (unat start) (unat len)"
  shows "\<exists>rv s'. page_transfer cmd msg env i start len retlen buf s = Inr (0, rv, s') \<and>
     nand_does (nand_access (nand_base (goldfish_nand_info s)) i cmd
       (raw_addr (nand_info s ! i) (unat start)) len buf rv) s s'"
proof -
  let ?m = "nand_info s ! i"
  have small: "unat start < 9223372032559808512"
    using ready req in_device_small [of ?m "unat start"] by (simp add: nand_ready_def page_request_def)
  obtain q r where qr: "do_div start (writesize ?m) = Inr (0, q)"
      "s64_mul q (ucast (writesize ?m + oobsize ?m)) = Inr r" "unat r = raw_addr ?m (unat start)"
    using page_request_steps [OF ready refl req] by blast
  have "len = writesize ?m" "\<not> mtd_size ?m < start + ucast len"
    using req range_check(2) [OF small, of "mtd_size ?m" len] by (simp_all add: page_request_def word_unat_eq_iff)
  then show ?thesis
    using nand_cmd_ready [OF ready, of env cmd r len buf] qr range_check(1) [OF small, of len]
    by (auto simp: page_transfer_def mtd_ref_ready [OF ready])
qed

lemma page_transfer_reject:
  fixes len :: u32
  assumes ready: "nand_ready s i" and small: "unat start < 9223372032559808512"
    and bad: "\<not> page_request (nand_info s ! i) (unat start) (unat len)"
  shows "\<exists>f xs. page_transfer cmd msg env i start len retlen buf s = Inr (- EINVAL, retlen, printf f xs s)"
proof (cases "unat (writesize (nand_info s ! i)) dvd unat start")
  case True
  then show ?thesis using bad range_check(1) [OF small, of len]
      range_check(2) [OF small, of "mtd_size (nand_info s ! i)" len]
    by (auto simp: page_transfer_def mtd_ref_ready [OF ready] page_request_def Let_def)
next
  case False
  then obtain r q where "do_div start (writesize (nand_info s ! i)) = Inr (r, q)" "r \<noteq> 0"
    using unaligned [OF ready_writesize [OF ready]] by blast
  then show ?thesis using range_check(1) [OF small, of len]
    by (auto simp: page_transfer_def mtd_ref_ready [OF ready] Let_def)
qed

lemma page_op_transfer: "page_op (page_transfer cmd msg) cmd"
  by unfold_locales (rule page_transfer_accept page_transfer_reject; assumption)+

interpretation rd: page_op goldfish_nand_read NAND_CMD_READ
  using read_is_transfer page_op_transfer by metis

interpretation wr: page_op goldfish_nand_write NAND_CMD_WRITE
  using write_is_transfer page_op_transfer by metis

lemma raw_pages_disjoint:
  assumes "mtd_wf m" and "page_request m a la" and "page_request m b lb" and "a \<noteq> b"
  shows "{raw_addr m a ..< raw_addr m a + (unat (writesize m) + unat (oobsize m))} \<inter>
         {raw_addr m b ..< raw_addr m b + (unat (writesize m) + unat (oobsize m))} = {} \<and>
         raw_addr m a + (unat (writesize m) + unat (oobsize m)) \<le> raw_addr m (unat (mtd_size m))"
proof -
  have ws: "0 < unat (writesize m)" using assms(1) by (simp add: mtd_wf_def)
  have al: "unat (writesize m) dvd a" "unat (writesize m) dvd b" "a < unat (mtd_size m)"
    using assms ws by (simp_all add: page_request_def)
  have "raw_addr m a + (unat (writesize m) + unat (oobsize m)) \<le> raw_addr m b \<or>
      raw_addr m b + (unat (writesize m) + unat (oobsize m)) \<le> raw_addr m a"
    using raw_addr_pages [OF ws al(1,2)] raw_addr_pages [OF ws al(2,1)] assms(4) by (meson linorder_neqE_nat)
  then show ?thesis
    using raw_addr_pages [OF ws al(1) _ al(3)] assms(1) by (auto simp: mtd_wf_def)
qed

section \<open>Blocks\<close>

definition block_request :: "mtd_info \<Rightarrow> nat \<Rightarrow> bool" where
  "block_request m ofs \<longleftrightarrow> ofs < unat (mtd_size m) \<and> unat (erasesize m) dvd ofs"

lemma ready_erasesize: "nand_ready s i \<Longrightarrow> erasesize (nand_info s ! i) \<noteq> 0"
  by (auto simp: nand_ready_def mtd_wf_def)

lemma block_address:
  assumes wf: "mtd_wf m" and req: "block_request m (unat ofs)"
  shows "\<exists>b ppb p r. do_div ofs (erasesize m) = Inr (0, b) \<and> u32_div (erasesize m) (writesize m) = Inr ppb \<and>
     s64_mul b (ucast ppb) = Inr p \<and> s64_mul p (ucast (writesize m + oobsize m)) = Inr r \<and>
     unat r = raw_addr m (unat ofs)"
proof -
  let ?ws = "unat (writesize m)" and ?es = "unat (erasesize m)"
  have ws: "0 < ?ws" and es: "0 < ?es" and d: "?ws dvd ?es" using wf by (auto simp: mtd_wf_def)
  have al: "?ws dvd unat ofs" using d req by (auto simp: block_request_def intro: dvd_trans)
  have "unat ofs = unat ofs div ?es * ?es" using req by (simp add: block_request_def)
  from dd.divmod_exact [OF _ this] es obtain b where
    b: "do_div ofs (erasesize m) = Inr (0, b)" "unat b = unat ofs div ?es" by (auto simp: word_eq_0_unat)
  let ?ppb = "erasesize m div writesize m"
  have ppb: "u32_div (erasesize m) (writesize m) = Inr ?ppb" "unat (ucast ?ppb :: u64) = ?es div ?ws"
    using ws by (auto simp: u32_div_def word_nat unat_div)
  have bp: "unat b * unat (ucast ?ppb :: u64) = unat ofs div ?ws"
    unfolding b(2) ppb(2) using req d es by (auto simp: block_request_def div_mult_swap elim!: dvdE)
  obtain q r where qr: "do_div ofs (writesize m) = Inr (0, q)"
     "s64_mul q (ucast (writesize m + oobsize m)) = Inr r" "unat r = raw_addr m (unat ofs)"
    using page_address [OF wf al] req by (auto simp: block_request_def)
  have q: "unat q = unat ofs div ?ws" using dd.divmod_Inr(3) [OF qr(1)] .
  have "unat q \<le> raw_addr m (unat ofs)" using ws by (simp add: q raw_addr_def)
  also have "\<dots> < 9223372036854775808"
    using raw_addr_mono [of "unat ofs" "unat (mtd_size m)" m] wf req by (simp add: mtd_wf_def block_request_def)
  finally have lt: "unat b * unat (ucast ?ppb :: u64) < 9223372036854775808" using bp q by simp
  have "0 < unat (ucast ?ppb :: u64)" using ppb(2) d es ws by (simp add: dvd_imp_le div_greater_zero_iff)
  then have "unat b \<le> unat b * unat (ucast ?ppb :: u64)" by simp
  then have bl: "unat b < 9223372036854775808" using lt by linarith
  have pl: "unat (ucast ?ppb :: u64) < 9223372036854775808"
    using ppb(2) unat_lt_u32 [of "erasesize m"] by (simp add: div_less_iff_less_mult order_le_less_trans [OF div_le_dividend])
  have "b * ucast ?ppb = q"
    using s64_mul_nat(2) [OF lt bl pl] bp q by (simp only: word_unat_eq_iff)
  then show ?thesis using s64_mul_nat(1) [OF lt bl pl] b(1) ppb(1) qr(2,3) by auto
qed

lemma block_isbad_accept:
  assumes ready: "nand_ready s i" and req: "block_request (nand_info s ! i) (unat ofs)"
  shows "\<exists>rv s'. goldfish_nand_block_isbad env i ofs s = Inr (sint rv, s') \<and>
     nand_does (nand_access (nand_base (goldfish_nand_info s)) i NAND_CMD_BLOCK_BAD_GET
       (raw_addr (nand_info s ! i) (unat ofs)) 0 0 rv) s s'"
proof -
  let ?m = "nand_info s ! i"
  have "mtd_wf ?m" using ready by (simp add: nand_ready_def)
  from block_address [OF this req] obtain b ppb p r where r: "do_div ofs (erasesize ?m) = Inr (0, b)"
     "u32_div (erasesize ?m) (writesize ?m) = Inr ppb" "s64_mul b (ucast ppb) = Inr p"
     "s64_mul p (ucast (writesize ?m + oobsize ?m)) = Inr r" "unat r = raw_addr ?m (unat ofs)" by blast
  have "\<not> mtd_size ?m \<le> ofs" using req by (simp add: block_request_def word_le_nat_alt)
  then show ?thesis
    using nand_cmd_ready [OF ready, of env NAND_CMD_BLOCK_BAD_GET r 0 0] r
    by (auto simp: goldfish_nand_block_isbad_def mtd_ref_ready [OF ready] Let_def)
qed

lemma block_markbad_accept:
  assumes ready: "nand_ready s i" and req: "block_request (nand_info s ! i) (unat ofs)"
  shows "\<exists>rv s'. goldfish_nand_block_markbad env i ofs s = Inr (if rv = 1 then 0 else - EIO, s') \<and>
     nand_does (nand_access (nand_base (goldfish_nand_info s)) i NAND_CMD_BLOCK_BAD_SET
       (raw_addr (nand_info s ! i) (unat ofs)) 0 0 rv) s s'"
proof -
  let ?m = "nand_info s ! i"
  have "mtd_wf ?m" using ready by (simp add: nand_ready_def)
  from block_address [OF this req] obtain b ppb p r where r: "do_div ofs (erasesize ?m) = Inr (0, b)"
     "u32_div (erasesize ?m) (writesize ?m) = Inr ppb" "s64_mul b (ucast ppb) = Inr p"
     "s64_mul p (ucast (writesize ?m + oobsize ?m)) = Inr r" "unat r = raw_addr ?m (unat ofs)" by blast
  have lt: "\<not> mtd_size ?m \<le> ofs" using req by (simp add: block_request_def word_le_nat_alt)
  obtain rv s' where c: "goldfish_nand_cmd env i NAND_CMD_BLOCK_BAD_SET r 0 0 s = Inr (rv, s')"
    "nand_does (nand_access (nand_base (goldfish_nand_info s)) i NAND_CMD_BLOCK_BAD_SET (unat r) 0 0 rv) s s'"
    using nand_cmd_ready [OF ready] by blast
  then show ?thesis using r lt
    by (intro exI [of _ rv] exI [of _ s'])
      (simp add: goldfish_nand_block_markbad_def mtd_ref_ready [OF ready] Let_def)
qed

lemma block_reject:
  assumes ready: "nand_ready s i" and bad: "\<not> block_request (nand_info s ! i) (unat ofs)"
  shows "\<exists>f xs. goldfish_nand_block_isbad env i ofs s = Inr (- EINVAL, printf f xs s)"
    and "\<exists>f xs. goldfish_nand_block_markbad env i ofs s = Inr (- EINVAL, printf f xs s)"
proof -
  let ?m = "nand_info s ! i"
  consider "mtd_size ?m \<le> ofs" | r q where "do_div ofs (erasesize ?m) = Inr (r, q)" "r \<noteq> 0"
    using bad unaligned [OF ready_erasesize [OF ready], of ofs]
    by (auto simp: block_request_def word_le_nat_alt not_less)
  then have "(\<exists>f xs. goldfish_nand_block_isbad env i ofs s = Inr (- EINVAL, printf f xs s)) \<and>
     (\<exists>f xs. goldfish_nand_block_markbad env i ofs s = Inr (- EINVAL, printf f xs s))"
    by cases (auto simp: goldfish_nand_block_isbad_def goldfish_nand_block_markbad_def
        mtd_ref_ready [OF ready] Let_def)
  then show "\<exists>f xs. goldfish_nand_block_isbad env i ofs s = Inr (- EINVAL, printf f xs s)"
    and "\<exists>f xs. goldfish_nand_block_markbad env i ofs s = Inr (- EINVAL, printf f xs s)" by blast+
qed

section \<open>Erasing\<close>

definition erase_request :: "mtd_info \<Rightarrow> nat \<Rightarrow> nat \<Rightarrow> bool" where
  "erase_request m ofs len \<longleftrightarrow> ofs + len \<le> unat (mtd_size m) \<and>
     unat (writesize m) dvd ofs \<and> unat (writesize m) dvd len"

lemma unat_raw_length:
  assumes "mtd_wf m" and "raw_addr m (unat len) < 2 ^ 32"
  shows "unat (len div writesize m * (writesize m + oobsize m)) = raw_addr m (unat len)"
proof -
  have "unat (len div writesize m) = unat len div unat (writesize m)" by (simp add: unat_div)
  then have "unat (len div writesize m) * unat (writesize m + oobsize m) = raw_addr m (unat len)"
    unfolding unat_page_pitch [OF assms(1)] by (simp add: raw_addr_def)
  with assms(2) show ?thesis using unat_mult_u32 [of "len div writesize m" "writesize m + oobsize m"] by simp
qed

lemma erase_accept:
  fixes l :: u32
  assumes ready: "nand_ready s i" and l: "l = ucast (ei_len instr)"
    and req: "erase_request (nand_info s ! i) (unat (ei_addr instr)) (unat l)"
    and fits: "raw_addr (nand_info s ! i) (unat l) < 2 ^ 32"
  shows "\<exists>rv s'. nand_does (nand_access (nand_base (goldfish_nand_info s)) i NAND_CMD_ERASE
       (raw_addr (nand_info s ! i) (unat (ei_addr instr)))
       (of_nat (raw_addr (nand_info s ! i) (unat l))) 0 rv) s s' \<and>
     (if unat rv = raw_addr (nand_info s ! i) (unat l)
      then goldfish_nand_erase env callback i instr s =
        Inr (0, mtd_erase_callback callback (instr\<lparr>ei_state := MTD_ERASE_DONE\<rparr>) s')
      else \<exists>f xs. goldfish_nand_erase env callback i instr s = Inr (- EIO, instr, printf f xs s'))"
proof -
  let ?m = "nand_info s ! i" and ?ofs = "ei_addr instr"
  have wf: "mtd_wf ?m" using ready by (simp add: nand_ready_def)
  have small: "unat ?ofs < 9223372032559808512"
    using in_device_small [OF wf, of "unat ?ofs"] req by (simp add: erase_request_def)
  have rl: "unat (l div writesize ?m * (writesize ?m + oobsize ?m)) = raw_addr ?m (unat l)"
    using unat_raw_length [OF wf] fits by simp
  then have rl': "l div writesize ?m * (writesize ?m + oobsize ?m) = of_nat (raw_addr ?m (unat l))"
    by (simp flip: rl)
  obtain q r where qr: "do_div ?ofs (writesize ?m) = Inr (0, q)"
      "s64_mul q (ucast (writesize ?m + oobsize ?m)) = Inr r" "unat r = raw_addr ?m (unat ?ofs)"
    using page_address [OF wf, of ?ofs] req by (auto simp: erase_request_def)
  have ok: "\<not> mtd_size ?m < ?ofs + ucast l" "l mod writesize ?m = 0"
    using req range_check(2) [OF small, of "mtd_size ?m" l]
    by (simp_all add: erase_request_def word_eq_0_unat unat_mod)
  obtain rv s' where c: "goldfish_nand_cmd env i NAND_CMD_ERASE r (of_nat (raw_addr ?m (unat l))) 0 s = Inr (rv, s')"
    "nand_does (nand_access (nand_base (goldfish_nand_info s)) i NAND_CMD_ERASE (unat r)
       (of_nat (raw_addr ?m (unat l))) 0 rv) s s'"
    using nand_cmd_ready [OF ready] by blast
  have rveq: "unat rv = raw_addr ?m (unat l) \<longleftrightarrow> rv = of_nat (raw_addr ?m (unat l))"
    using rl rl' by (simp add: word_unat_eq_iff)
  have "goldfish_nand_erase env callback i instr s =
    (if rv = of_nat (raw_addr ?m (unat l))
     then Inr (0, mtd_erase_callback callback (instr\<lparr>ei_state := MTD_ERASE_DONE\<rparr>) s')
     else Inr (- EIO, instr, printf
       ''goldfish_nand_erase: erase failed, start %llx, len %x, dev_size %llx, erase_size %x\<newline>''
       [sint r, uint (of_nat (raw_addr ?m (unat l)) :: u32), uint (mtd_size ?m), uint (erasesize ?m)] s'))"
    using range_check(1) [OF small, of l] ok qr c(1) rl'
    by (simp add: goldfish_nand_erase_def mtd_ref_ready [OF ready] Let_def l [symmetric] split_beta)
  then show ?thesis using c(2) qr(3) rveq by (intro exI [of _ rv] exI [of _ s']) auto
qed

lemma erase_reject:
  fixes l :: u32
  assumes ready: "nand_ready s i" and l: "l = ucast (ei_len instr)"
    and small: "unat (ei_addr instr) < 9223372032559808512"
    and bad: "\<not> erase_request (nand_info s ! i) (unat (ei_addr instr)) (unat l)"
  shows "\<exists>f xs. goldfish_nand_erase env callback i instr s = Inr (- EINVAL, instr, printf f xs s)"
proof -
  let ?m = "nand_info s ! i" and ?ofs = "ei_addr instr"
  have wf: "mtd_wf ?m" using ready by (simp add: nand_ready_def)
  note rc = range_check(1) [OF small, of l] range_check(2) [OF small, of "mtd_size ?m" l]
  note unf = goldfish_nand_erase_def mtd_ref_ready [OF ready] l [symmetric] rc(1) Let_def
  consider (range) "mtd_size ?m < ?ofs + ucast l"
    | (align) r q where "\<not> mtd_size ?m < ?ofs + ucast l" "do_div ?ofs (writesize ?m) = Inr (r, q)" "r \<noteq> 0"
    | (len) "\<not> mtd_size ?m < ?ofs + ucast l" "unat ?ofs \<le> unat (mtd_size ?m)"
        "unat (writesize ?m) dvd unat ?ofs" "l mod writesize ?m \<noteq> 0"
  proof (cases "unat (writesize ?m) dvd unat ?ofs")
    case True
    then show thesis using bad rc(2) range len
      by (auto simp: erase_request_def not_less word_eq_0_unat unat_mod dvd_eq_mod_eq_0)
  next
    case False
    with unaligned [OF ready_writesize [OF ready]] show thesis using range align by blast
  qed
  then show ?thesis
  proof cases
    case range
    then show ?thesis by (auto simp: unf)
  next
    case align
    then show ?thesis by (auto simp: unf)
  next
    case len
    with page_address [OF wf len(3,2)] show ?thesis by (auto simp: unf) blast
  qed
qed

section \<open>Transfers with the spare area\<close>

text \<open>The two functions differ in the command, the message and the test of the data length.\<close>

definition oob_transfer ::
  "nand_cmd \<Rightarrow> string \<Rightarrow> (mtd_info \<Rightarrow> mtd_oob_ops \<Rightarrow> bool) \<Rightarrow> env \<Rightarrow> nat \<Rightarrow> u64 \<Rightarrow> mtd_oob_ops
   \<Rightarrow> 'a nand_st_scheme \<Rightarrow> (int \<times> mtd_oob_ops \<times> 'a nand_st_scheme) result" where
  "oob_transfer cmd msg bad_len env i ofs ops s =
     rbind (mtd_ref s i) (\<lambda>mtd.
     let invalid_arg = (\<lambda>ofs. Inr (- EINVAL, ops, printf msg
             [sint (ofs :: u64), uint (op_len ops), uint (op_ooblen ops), uint (mtd_size mtd), uint (writesize mtd)] s))
     in rbind (s64_add ofs (ucast (op_len ops))) (\<lambda>last.
        if mtd_size mtd < last then invalid_arg ofs
        else if bad_len mtd ops then invalid_arg ofs
        else if oobsize mtd < op_ooblen ops + op_ooboffs ops then invalid_arg ofs
        else rbind (do_div ofs (writesize mtd)) (\<lambda>(rem, ofs).
        if rem \<noteq> 0 then invalid_arg ofs
        else rbind (s64_mul ofs (ucast (writesize mtd + oobsize mtd))) (\<lambda>ofs.
        rbind (if op_datbuf ops \<noteq> 0
               then rbind (goldfish_nand_cmd env i cmd ofs (op_len ops) (op_datbuf ops) s)
                      (\<lambda>(rv, s). Inr (ops\<lparr>op_retlen := rv\<rparr>, s))
               else Inr (ops, s)) (\<lambda>(ops, s).
        rbind (s64_add ofs (ucast (writesize mtd + op_ooboffs ops))) (\<lambda>ofs.
        rbind (if op_oobbuf ops \<noteq> 0
               then rbind (goldfish_nand_cmd env i cmd ofs (op_ooblen ops) (op_oobbuf ops) s)
                      (\<lambda>(rv, s). Inr (ops\<lparr>op_oobretlen := rv\<rparr>, s))
               else Inr (ops, s)) (\<lambda>(ops, s).
        Inr (0, ops, s))))))))"

definition read_bad_len :: "mtd_info \<Rightarrow> mtd_oob_ops \<Rightarrow> bool" where
  "read_bad_len m ops \<longleftrightarrow> op_datbuf ops \<noteq> 0 \<and> op_len ops \<noteq> 0 \<and> op_len ops \<noteq> writesize m"

definition write_bad_len :: "mtd_info \<Rightarrow> mtd_oob_ops \<Rightarrow> bool" where
  "write_bad_len m ops \<longleftrightarrow> op_len ops \<noteq> 0 \<and> op_len ops \<noteq> writesize m"

lemma read_oob_is_transfer: "\<exists>msg. goldfish_nand_read_oob = oob_transfer NAND_CMD_READ msg read_bad_len"
  by (intro exI ext) (simp only: goldfish_nand_read_oob_def oob_transfer_def read_bad_len_def)

lemma write_oob_is_transfer: "\<exists>msg. goldfish_nand_write_oob = oob_transfer NAND_CMD_WRITE msg write_bad_len"
  by (intro exI ext) (simp only: goldfish_nand_write_oob_def oob_transfer_def write_bad_len_def)

text \<open>The requests that pass the guards, and the bus accesses of each part of a request.\<close>

definition oob_request :: "(mtd_info \<Rightarrow> mtd_oob_ops \<Rightarrow> bool) \<Rightarrow> mtd_info \<Rightarrow> nat \<Rightarrow> mtd_oob_ops \<Rightarrow> bool" where
  "oob_request bad_len m ofs ops \<longleftrightarrow> ofs + unat (op_len ops) \<le> unat (mtd_size m) \<and> \<not> bad_len m ops \<and>
     unat (op_ooblen ops) + unat (op_ooboffs ops) \<le> unat (oobsize m) \<and> unat (writesize m) dvd ofs"

definition part_access :: "u32 \<Rightarrow> nat \<Rightarrow> nand_cmd \<Rightarrow> nat \<Rightarrow> u32 \<Rightarrow> u32 \<Rightarrow> u32 \<Rightarrow> io list" where
  "part_access base i cmd addr len ptr rv = (if ptr \<noteq> 0 then nand_access base i cmd addr len ptr rv else [])"

lemma nand_part:
  assumes "nand_ready s i"
  shows "\<exists>rv s'. (if ptr \<noteq> 0 then rbind (goldfish_nand_cmd env i cmd addr len ptr s) (\<lambda>(rv, s). Inr (f rv, s))
         else Inr (ops, s)) = Inr (if ptr \<noteq> 0 then f rv else ops, s') \<and>
      nand_does (part_access (nand_base (goldfish_nand_info s)) i cmd (unat addr) len ptr rv) s s'"
proof (cases "ptr = 0")
  case True
  then show ?thesis by (auto simp: part_access_def nand_does_def)
next
  case False
  obtain rv s' where "goldfish_nand_cmd env i cmd addr len ptr s = Inr (rv, s')"
    "nand_does (nand_access (nand_base (goldfish_nand_info s)) i cmd (unat addr) len ptr rv) s s'"
    using nand_cmd_ready [OF assms] by blast
  then show ?thesis using False by (intro exI [of _ rv] exI [of _ s']) (simp add: part_access_def)
qed

lemma spare_address:
  assumes wf: "mtd_wf m" and r: "unat r = raw_addr m a" and a: "a \<le> unat (mtd_size m)"
    and o: "unat ofs \<le> unat (oobsize m)"
  shows "\<exists>p. s64_add r (ucast (writesize m + ofs)) = Inr p \<and>
      unat p = raw_addr m a + unat (writesize m) + unat ofs"
proof -
  have w: "unat (writesize m) + unat ofs < 4294967296" using wf o by (simp add: mtd_wf_def)
  then have u: "unat (ucast (writesize m + ofs) :: u64) = unat (writesize m) + unat ofs"
    by (simp add: word_nat)
  have "raw_addr m a < 9223372032559808512"
    using raw_addr_mono [OF a, of m] wf by (simp add: mtd_wf_def)
  then have "unat r + unat (ucast (writesize m + ofs) :: u64) < 9223372036854775808"
    unfolding r u using w by linarith
  from s64_add_nat [OF this] show ?thesis unfolding u r by (simp add: add.assoc)
qed

lemma oob_transfer_accept:
  assumes ready: "nand_ready s i" and req: "oob_request bad_len (nand_info s ! i) (unat ofs) ops"
    and base: "base = nand_base (goldfish_nand_info s)"
    and raw: "raw = raw_addr (nand_info s ! i) (unat ofs)"
  shows "\<exists>rv1 rv2 s'. oob_transfer cmd msg bad_len env i ofs ops s =
      Inr (0, ops\<lparr>op_retlen := if op_datbuf ops \<noteq> 0 then rv1 else op_retlen ops,
                  op_oobretlen := if op_oobbuf ops \<noteq> 0 then rv2 else op_oobretlen ops\<rparr>, s') \<and>
     nand_does (part_access base i cmd raw (op_len ops) (op_datbuf ops) rv1 @
       part_access base i cmd (raw + unat (writesize (nand_info s ! i)) + unat (op_ooboffs ops))
         (op_ooblen ops) (op_oobbuf ops) rv2) s s'"
proof -
  let ?m = "nand_info s ! i"
  have wf: "mtd_wf ?m" using ready by (simp add: nand_ready_def)
  have le: "unat ofs \<le> unat (mtd_size ?m)" "unat (op_ooboffs ops) \<le> unat (oobsize ?m)"
    using req by (simp_all add: oob_request_def)
  have small: "unat ofs < 9223372032559808512" using in_device_small [OF wf le(1)] .
  obtain q r where qr: "do_div ofs (writesize ?m) = Inr (0, q)"
      "s64_mul q (ucast (writesize ?m + oobsize ?m)) = Inr r" "unat r = raw"
    using page_address [OF wf _ le(1)] req raw by (auto simp: oob_request_def)
  obtain p where p: "s64_add r (ucast (writesize ?m + op_ooboffs ops)) = Inr p"
      "unat p = raw + unat (writesize ?m) + unat (op_ooboffs ops)"
    using spare_address [OF wf qr(3) [unfolded raw] le] unfolding raw by blast
  have "unat (op_ooblen ops) + unat (op_ooboffs ops) < 4294967296"
    using req wf by (simp add: oob_request_def mtd_wf_def)
  then have ok: "\<not> mtd_size ?m < ofs + ucast (op_len ops)" "\<not> oobsize ?m < op_ooblen ops + op_ooboffs ops"
    using req range_check(2) [OF small, of "mtd_size ?m" "op_len ops"]
    by (simp_all add: oob_request_def word_less_nat_alt word_nat)
  let ?f = "\<lambda>rv. ops\<lparr>op_retlen := rv\<rparr>"
  obtain rv1 s1 where c1: "(if op_datbuf ops \<noteq> 0
      then rbind (goldfish_nand_cmd env i cmd r (op_len ops) (op_datbuf ops) s) (\<lambda>(rv, s). Inr (?f rv, s))
      else Inr (ops, s)) = Inr (if op_datbuf ops \<noteq> 0 then ?f rv1 else ops, s1)"
    and d1: "nand_does (part_access base i cmd raw (op_len ops) (op_datbuf ops) rv1) s s1"
    using nand_part [OF ready, of "op_datbuf ops" env cmd r "op_len ops" ?f ops] unfolding qr(3) base by blast
  define ops1 where "ops1 = (if op_datbuf ops \<noteq> 0 then ?f rv1 else ops)"
  have s1: "nand_ready s1 i" "nand_base (goldfish_nand_info s1) = base"
    using ready d1 nand_ready_keep [OF d1] base by (simp_all add: nand_does_def)
  have o1: "op_ooboffs ops1 = op_ooboffs ops" "op_ooblen ops1 = op_ooblen ops" "op_oobbuf ops1 = op_oobbuf ops"
    by (simp_all add: ops1_def)
  obtain rv2 s2 where c2: "(if op_oobbuf ops \<noteq> 0
      then rbind (goldfish_nand_cmd env i cmd p (op_ooblen ops) (op_oobbuf ops) s1)
         (\<lambda>(rv, s). Inr (ops1\<lparr>op_oobretlen := rv\<rparr>, s))
      else Inr (ops1, s1)) = Inr (if op_oobbuf ops \<noteq> 0 then ops1\<lparr>op_oobretlen := rv2\<rparr> else ops1, s2)"
    and d2: "nand_does (part_access base i cmd (raw + unat (writesize ?m) + unat (op_ooboffs ops))
      (op_ooblen ops) (op_oobbuf ops) rv2) s1 s2"
    using nand_part [OF s1(1), of "op_oobbuf ops" env cmd p "op_ooblen ops" "\<lambda>rv. ops1\<lparr>op_oobretlen := rv\<rparr>" ops1]
    unfolding p(2) s1(2) by blast
  have "oob_transfer cmd msg bad_len env i ofs ops s =
      Inr (0, if op_oobbuf ops \<noteq> 0 then ops1\<lparr>op_oobretlen := rv2\<rparr> else ops1, s2)"
    unfolding oob_transfer_def mtd_ref_ready [OF ready] range_check(1) [OF small]
    using ok req qr(1,2) p(1) c1 c2 [folded o1(2,3)] o1
    by (simp add: oob_request_def Let_def flip: ops1_def split del: if_split)
  moreover have "(if op_oobbuf ops \<noteq> 0 then ops1\<lparr>op_oobretlen := rv2\<rparr> else ops1) =
      ops\<lparr>op_retlen := if op_datbuf ops \<noteq> 0 then rv1 else op_retlen ops,
          op_oobretlen := if op_oobbuf ops \<noteq> 0 then rv2 else op_oobretlen ops\<rparr>"
    by (simp add: ops1_def)
  ultimately show ?thesis using nand_does_trans [OF d1 d2] by (intro exI [of _ rv1] exI [of _ rv2] exI [of _ s2]) simp
qed

lemma oob_transfer_reject:
  assumes ready: "nand_ready s i" and small: "unat ofs < 9223372032559808512"
    and nowrap: "unat (op_ooblen ops) + unat (op_ooboffs ops) < 2 ^ 32"
    and bad: "\<not> oob_request bad_len (nand_info s ! i) (unat ofs) ops"
  shows "\<exists>f xs. oob_transfer cmd msg bad_len env i ofs ops s = Inr (- EINVAL, ops, printf f xs s)"
proof -
  let ?m = "nand_info s ! i"
  note rc = range_check(1) [OF small, of "op_len ops"] range_check(2) [OF small, of "mtd_size ?m" "op_len ops"]
  note unf = oob_transfer_def mtd_ref_ready [OF ready] rc(1) Let_def
  consider (guard) "mtd_size ?m < ofs + ucast (op_len ops) \<or> bad_len ?m ops \<or>
        oobsize ?m < op_ooblen ops + op_ooboffs ops"
    | (align) r q where "do_div ofs (writesize ?m) = Inr (r, q)" "r \<noteq> 0"
    using bad unaligned [OF ready_writesize [OF ready], of ofs] rc(2) nowrap
    by (auto simp: oob_request_def word_less_nat_alt word_nat not_less)
  then show ?thesis
  proof cases
    case guard
    then show ?thesis by (auto simp: unf)
  next
    case align
    then show ?thesis by (auto simp: unf)
  qed
qed

section \<open>Properties\<close>

text \<open>A flash of 2048 pages of 512 + 16 bytes, 32 pages to a block, for the examples.\<close>

definition demo_mtd :: mtd_info where
  "demo_mtd = \<lparr>mtd_type = 4, mtd_flags = 0x400, mtd_size = 0x100000, erasesize = 0x4000, writesize = 512,
     oobsize = 16, oobavail = 16, mtd_name = 0, mtd_erase = Some M_erase, mtd_read = Some M_read,
     mtd_write = Some M_write, mtd_read_oob = Some M_read_oob, mtd_write_oob = Some M_write_oob,
     mtd_block_isbad = Some M_block_isbad, mtd_block_markbad = Some M_block_markbad, mtd_priv = True, mtd_owner = 0\<rparr>"

definition demo_nand :: nand_st where
  "demo_nand = timer_st.extend timer_boot
     \<lparr>goldfish_nand_info = \<lparr>nand_base = 0xff017000, mtd_count = 1, nand_mtd = Some 0\<rparr>,
      nand_info = [demo_mtd, demo_mtd, demo_mtd], goldfish_dev_name = 0x8000\<rparr>"

text \<open>A device that stores nothing and answers one fixed value.\<close>

definition quiet_env :: "u32 \<Rightarrow> env" where
  "quiet_env v = \<lparr>env_read = (\<lambda>h a. v), env_dma = (\<lambda>h s. s), env_getchar = (\<lambda>h. - 1)\<rparr>"

lemma demo_nand_simps [simp]:
  "nand_info demo_nand = [demo_mtd, demo_mtd, demo_mtd]" "trace demo_nand = []"
  "goldfish_nand_info demo_nand = \<lparr>nand_base = 0xff017000, mtd_count = 1, nand_mtd = Some 0\<rparr>"
  "goldfish_dev_name demo_nand = 0x8000"
  by (simp_all add: demo_nand_def timer_st.extend_def timer_boot_def)

lemma demo_mtd_wf: "mtd_wf demo_mtd"
  by (simp add: mtd_wf_def demo_mtd_def raw_addr_def)

lemma demo_ready: "i < 3 \<Longrightarrow> nand_ready demo_nand i"
  using demo_mtd_wf by (auto simp: nand_ready_def numeral_3_eq_3 less_Suc_eq)

text \<open>C2: \<open>goldfish_nand_read\<close> and \<open>goldfish_nand_write\<close> on an initialised device. For every offset
  below \<open>2 ^ 63 - 2 ^ 32\<close> the call ends without a fault. A request for one whole page inside the device
  issues exactly one command, with the raw address \<open>page * (writesize + oobsize)\<close> split over the two
  address registers, hands back the device's result as the length and returns 0; every other
  request returns \<open>-EINVAL\<close> and touches no register, and \<open>*retlen\<close> is unchanged.\<close>

theorem nand_page_transfer:
  assumes ready: "nand_ready s i" and small: "unat start < 2 ^ 63 - 2 ^ 32" and m: "m = nand_info s ! i"
    and base: "base = nand_base (goldfish_nand_info s)"
  shows "(if page_request m (unat start) (unat len)
          then (\<exists>rv s'. goldfish_nand_read env i start len retlen buf s = Inr (0, rv, s') \<and>
                  nand_does (nand_access base i NAND_CMD_READ (raw_addr m (unat start)) len buf rv) s s') \<and>
               (\<exists>rv s'. goldfish_nand_write env i start len retlen buf s = Inr (0, rv, s') \<and>
                  nand_does (nand_access base i NAND_CMD_WRITE (raw_addr m (unat start)) len buf rv) s s')
          else (\<exists>f xs. goldfish_nand_read env i start len retlen buf s = Inr (- EINVAL, retlen, printf f xs s)) \<and>
               (\<exists>f xs. goldfish_nand_write env i start len retlen buf s = Inr (- EINVAL, retlen, printf f xs s)))"
  using rd.accept [OF ready, of start len env retlen buf] wr.accept [OF ready, of start len env retlen buf]
    rd.reject [OF ready, of start len env retlen buf] wr.reject [OF ready, of start len env retlen buf] small
  unfolding m base by (auto simp del: EINVAL_def)

theorem nand_page_transfer_witness:
  "\<exists>rv s'. goldfish_nand_read (quiet_env 512) 1 1024 512 0 0x10000 demo_nand = Inr (0, rv, s') \<and>
     nand_does (nand_access 0xff017000 1 NAND_CMD_READ 1056 512 0x10000 rv) demo_nand s'"
  using nand_page_transfer [OF demo_ready, of 1 1024 "nand_info demo_nand ! 1" "0xff017000" 512 "quiet_env 512" 0 "0x10000"]
  by (simp add: page_request_def demo_mtd_def raw_addr_def)

text \<open>C3: pages do not overlap on the flash. When a read at one offset and a write at another, in any two
  states of an initialised device, both succeed, then the commands they issue address areas of the
  flash (the page with its spare bytes) that are disjoint and lie within its raw size.\<close>

theorem nand_pages_disjoint:
  assumes ready: "nand_ready s i" "nand_ready t i" and same: "nand_info t = nand_info s"
    and small: "unat a < 2 ^ 63 - 2 ^ 32" "unat b < 2 ^ 63 - 2 ^ 32" and diff: "a \<noteq> b"
    and rd: "goldfish_nand_read env i a la ra bufa s = Inr (0, rva, s')"
    and wr: "goldfish_nand_write env i b lb rb bufb t = Inr (0, rvb, t')"
    and m: "m = nand_info s ! i" and pitch: "pitch = unat (writesize m) + unat (oobsize m)"
  shows "\<exists>x y. nand_does (nand_access (nand_base (goldfish_nand_info s)) i NAND_CMD_READ x la bufa rva) s s' \<and>
     nand_does (nand_access (nand_base (goldfish_nand_info t)) i NAND_CMD_WRITE y lb bufb rvb) t t' \<and>
     {x ..< x + pitch} \<inter> {y ..< y + pitch} = {} \<and> unat la \<le> pitch \<and> unat lb \<le> pitch \<and>
     x + pitch \<le> raw_addr m (unat (mtd_size m)) \<and> y + pitch \<le> raw_addr m (unat (mtd_size m))"
proof (intro exI conjI)
  have A: "page_request m (unat a) (unat la)" and B: "page_request m (unat b) (unat lb)"
    using rd.op_done(1) [OF ready(1) _ rd] wr.op_done(1) [OF ready(2) _ wr] small same by (simp_all add: m)
  show "nand_does (nand_access (nand_base (goldfish_nand_info s)) i NAND_CMD_READ (raw_addr m (unat a)) la bufa rva) s s'"
    using rd.op_done(2) [OF ready(1) _ rd] small by (simp add: m)
  show "nand_does (nand_access (nand_base (goldfish_nand_info t)) i NAND_CMD_WRITE (raw_addr m (unat b)) lb bufb rvb) t t'"
    using wr.op_done(2) [OF ready(2) _ wr] small same by (simp add: m)
  have wf: "mtd_wf m" using ready(1) by (simp add: nand_ready_def m)
  have ne: "unat a \<noteq> unat b" using diff by (simp add: word_unat_eq_iff)
  show "{raw_addr m (unat a) ..< raw_addr m (unat a) + pitch} \<inter> {raw_addr m (unat b) ..< raw_addr m (unat b) + pitch} = {}"
    "raw_addr m (unat a) + pitch \<le> raw_addr m (unat (mtd_size m))"
    using raw_pages_disjoint [OF wf A B ne] by (simp_all add: pitch)
  show "raw_addr m (unat b) + pitch \<le> raw_addr m (unat (mtd_size m))"
    using raw_pages_disjoint [OF wf B A] ne by (simp add: pitch)
  show "unat la \<le> pitch" "unat lb \<le> pitch" using A B by (simp_all add: page_request_def pitch)
qed

theorem nand_pages_disjoint_witness:
  "\<exists>rv s' rw t'. goldfish_nand_read (quiet_env 512) 1 1024 512 0 0x10000 demo_nand = Inr (0, rv, s') \<and>
     goldfish_nand_write (quiet_env 512) 1 512 512 0 0x10000 demo_nand = Inr (0, rw, t') \<and>
     (\<exists>x y. nand_does (nand_access 0xff017000 1 NAND_CMD_READ x 512 0x10000 rv) demo_nand s' \<and>
       nand_does (nand_access 0xff017000 1 NAND_CMD_WRITE y 512 0x10000 rw) demo_nand t' \<and>
       {x ..< x + 528} \<inter> {y ..< y + 528} = {})"
proof -
  have r: "page_request (nand_info demo_nand ! 1) (unat (1024 :: u64)) (unat (512 :: u32))"
    "page_request (nand_info demo_nand ! 1) (unat (512 :: u64)) (unat (512 :: u32))"
    by (simp_all add: page_request_def demo_mtd_def)
  obtain rv s' where rs: "goldfish_nand_read (quiet_env 512) 1 1024 512 0 0x10000 demo_nand = Inr (0, rv, s')"
    using rd.accept [OF demo_ready r(1)] by (metis one_less_numeral_iff semiring_norm(77))
  obtain rw t' where rt: "goldfish_nand_write (quiet_env 512) 1 512 512 0 0x10000 demo_nand = Inr (0, rw, t')"
    using wr.accept [OF demo_ready r(2)] by (metis one_less_numeral_iff semiring_norm(77))
  have "\<exists>x y. nand_does (nand_access 0xff017000 1 NAND_CMD_READ x 512 0x10000 rv) demo_nand s' \<and>
       nand_does (nand_access 0xff017000 1 NAND_CMD_WRITE y 512 0x10000 rw) demo_nand t' \<and>
       {x ..< x + 528} \<inter> {y ..< y + 528} = {}"
    using nand_pages_disjoint [OF demo_ready demo_ready refl _ _ _ rs rt refl refl]
    by (auto simp: demo_mtd_def)
  then show ?thesis using rs rt by blast
qed

text \<open>C5: \<open>goldfish_nand_erase\<close>, for a length that fits in 32 bits and whose raw length does too.
  A page-aligned range inside the device is erased with one command over the raw range of its pages.
  If the device reports the full raw length the state becomes \<open>MTD_ERASE_DONE\<close>, the callback runs
  and 0 is returned; if not, \<open>-EIO\<close> is returned, the request is unchanged, and the callback does not run, although
  the comment in \<^verbatim>\<open>mtd.h\<close> says that drivers call it also when an erase has failed: a caller that waits for it waits for ever. Every other range is
  refused with \<open>-EINVAL\<close> before any register access, also without a callback.\<close>

theorem nand_erase:
  assumes ready: "nand_ready s i" and m: "m = nand_info s ! i"
    and len: "unat (ei_len instr) < 2 ^ 32" and small: "unat (ei_addr instr) < 2 ^ 63 - 2 ^ 32"
    and fits: "raw_addr m (unat (ei_len instr)) < 2 ^ 32"
  shows "if erase_request m (unat (ei_addr instr)) (unat (ei_len instr))
     then \<exists>rv s'. nand_does (nand_access (nand_base (goldfish_nand_info s)) i NAND_CMD_ERASE
            (raw_addr m (unat (ei_addr instr))) (of_nat (raw_addr m (unat (ei_len instr)))) 0 rv) s s' \<and>
          (if unat rv = raw_addr m (unat (ei_len instr))
           then goldfish_nand_erase env callback i instr s =
             Inr (0, mtd_erase_callback callback (instr\<lparr>ei_state := MTD_ERASE_DONE\<rparr>) s')
           else \<exists>f xs. goldfish_nand_erase env callback i instr s = Inr (- EIO, instr, printf f xs s'))
     else \<exists>f xs. goldfish_nand_erase env callback i instr s = Inr (- EINVAL, instr, printf f xs s)"
proof -
  let ?l = "ucast (ei_len instr) :: u32"
  have l: "unat ?l = unat (ei_len instr)" using len by (simp add: unat_ucast_down)
  show ?thesis
    using erase_accept [OF ready refl, of instr env callback] erase_reject [OF ready refl, of instr env callback]
      fits small unfolding l m by (simp del: EINVAL_def EIO_def MTD_ERASE_DONE_def)
qed

theorem nand_erase_witness:
  "\<exists>f xs. goldfish_nand_erase (quiet_env 0) None 0 \<lparr>ei_addr = 100, ei_len = 512, ei_state = 0\<rparr> demo_nand
     = Inr (- EINVAL, \<lparr>ei_addr = 100, ei_len = 512, ei_state = 0\<rparr>, printf f xs demo_nand)"
  using nand_erase [OF demo_ready refl, of 0 "\<lparr>ei_addr = 100, ei_len = 512, ei_state = 0\<rparr>" "quiet_env 0" None]
  by (simp add: erase_request_def demo_mtd_def raw_addr_def)

text \<open>C7: \<open>goldfish_nand_block_isbad\<close> and \<open>goldfish_nand_block_markbad\<close>, for every offset. At the
  start of a block inside the device they issue one command with the raw address of the block's
  first page; the first returns the device's answer and the second 0 or \<open>-EIO\<close> according to it.
  Every other offset, a negative one included, gives \<open>-EINVAL\<close> without a register access.\<close>

theorem nand_bad_blocks:
  assumes ready: "nand_ready s i" and m: "m = nand_info s ! i"
    and base: "base = nand_base (goldfish_nand_info s)"
  shows "if block_request m (unat ofs)
     then (\<exists>rv s'. goldfish_nand_block_isbad env i ofs s = Inr (sint rv, s') \<and>
             nand_does (nand_access base i NAND_CMD_BLOCK_BAD_GET (raw_addr m (unat ofs)) 0 0 rv) s s') \<and>
          (\<exists>rv s'. goldfish_nand_block_markbad env i ofs s = Inr (if rv = 1 then 0 else - EIO, s') \<and>
             nand_does (nand_access base i NAND_CMD_BLOCK_BAD_SET (raw_addr m (unat ofs)) 0 0 rv) s s')
     else (\<exists>f xs. goldfish_nand_block_isbad env i ofs s = Inr (- EINVAL, printf f xs s)) \<and>
          (\<exists>f xs. goldfish_nand_block_markbad env i ofs s = Inr (- EINVAL, printf f xs s))"
  using block_isbad_accept [OF ready] block_markbad_accept [OF ready] block_reject [OF ready]
  unfolding m base by (simp del: EINVAL_def EIO_def)

theorem nand_bad_blocks_witness:
  "\<exists>rv s'. goldfish_nand_block_isbad (quiet_env 1) 0 0x4000 demo_nand = Inr (sint rv, s') \<and>
     nand_does (nand_access 0xff017000 0 NAND_CMD_BLOCK_BAD_GET 16896 0 0 rv) demo_nand s'"
  using nand_bad_blocks [OF demo_ready refl refl, of 0 "0x4000" "quiet_env 1"]
  by (simp add: block_request_def demo_mtd_def raw_addr_def)



text \<open>What the two functions refuse. A data length that is neither 0 nor a page (for a read: only
  when there is a data buffer), a spare range outside the spare area, an unaligned page or a range
  past the end give \<open>-EINVAL\<close> without a register access, if the sum \<open>ooblen + ooboffs\<close> does not
  wrap at 32 bits.\<close>

lemma nand_oob_reject:
  assumes ready: "nand_ready s i" and m: "m = nand_info s ! i" and small: "unat ofs < 2 ^ 63 - 2 ^ 32"
    and nowrap: "unat (op_ooblen ops) + unat (op_ooboffs ops) < 2 ^ 32"
  shows "(\<not> oob_request read_bad_len m (unat ofs) ops \<longrightarrow>
      (\<exists>f xs. goldfish_nand_read_oob env i ofs ops s = Inr (- EINVAL, ops, printf f xs s))) \<and>
    (\<not> oob_request write_bad_len m (unat ofs) ops \<longrightarrow>
      (\<exists>f xs. goldfish_nand_write_oob env i ofs ops s = Inr (- EINVAL, ops, printf f xs s)))"
proof -
  have sm: "unat ofs < 9223372032559808512" using small by simp
  obtain rmsg where r: "goldfish_nand_read_oob env i ofs ops s = oob_transfer NAND_CMD_READ rmsg read_bad_len env i ofs ops s"
    using read_oob_is_transfer by metis
  obtain wmsg where w: "goldfish_nand_write_oob env i ofs ops s = oob_transfer NAND_CMD_WRITE wmsg write_bad_len env i ofs ops s"
    using write_oob_is_transfer by metis
  show ?thesis unfolding r w using oob_transfer_reject [OF ready sm nowrap] unfolding m by blast
qed

lemma nand_oob_reject_example:
  "\<exists>f xs. goldfish_nand_read_oob (quiet_env 16) 0 100
      \<lparr>op_len = 0, op_retlen = 0, op_ooblen = 8, op_oobretlen = 0, op_ooboffs = 4, op_datbuf = 0, op_oobbuf = 0xa000\<rparr> demo_nand =
      Inr (- EINVAL, \<lparr>op_len = 0, op_retlen = 0, op_ooblen = 8, op_oobretlen = 0, op_ooboffs = 4, op_datbuf = 0, op_oobbuf = 0xa000\<rparr>, printf f xs demo_nand)"
  using nand_oob_reject [OF demo_ready refl, of 0 100
     "\<lparr>op_len = 0, op_retlen = 0, op_ooblen = 8, op_oobretlen = 0, op_ooboffs = 4, op_datbuf = 0, op_oobbuf = 0xa000\<rparr>" "quiet_env 16"]
  by (simp add: oob_request_def read_bad_len_def demo_mtd_def)

text \<open>The range test lets a request for the spare area of the page after the last one through.
  With no data buffer and \<open>len = 0\<close> the offset \<open>mtd->size\<close> passes \<open>ofs + len > mtd->size\<close>; the
  driver returns 0 after a command whose raw address lies at or past the end of the device.\<close>

lemma nand_read_oob_past_end:
  assumes ready: "nand_ready s i" and m: "m = nand_info s ! i"
    and ops: "op_len ops = 0" "op_datbuf ops = 0" "op_oobbuf ops \<noteq> 0"
      "unat (op_ooblen ops) + unat (op_ooboffs ops) \<le> unat (oobsize m)"
  shows "\<exists>rv s' addr. goldfish_nand_read_oob env i (mtd_size m) ops s = Inr (0, ops\<lparr>op_oobretlen := rv\<rparr>, s') \<and>
     nand_does (nand_access (nand_base (goldfish_nand_info s)) i NAND_CMD_READ addr (op_ooblen ops) (op_oobbuf ops) rv) s s' \<and>
     raw_addr m (unat (mtd_size m)) \<le> addr"
proof -
  obtain msg where r: "goldfish_nand_read_oob env i (mtd_size m) ops s = oob_transfer NAND_CMD_READ msg read_bad_len env i (mtd_size m) ops s"
    using read_oob_is_transfer by metis
  have "oob_request read_bad_len m (unat (mtd_size m)) ops"
    using ready ops by (simp add: oob_request_def read_bad_len_def nand_ready_def mtd_wf_def m)
  from oob_transfer_accept [OF ready this [unfolded m] refl refl, of NAND_CMD_READ msg env] ops
  obtain rv s' where "oob_transfer NAND_CMD_READ msg read_bad_len env i (mtd_size m) ops s = Inr (0, ops\<lparr>op_oobretlen := rv\<rparr>, s')"
    "nand_does (nand_access (nand_base (goldfish_nand_info s)) i NAND_CMD_READ
       (raw_addr m (unat (mtd_size m)) + unat (writesize m) + unat (op_ooboffs ops)) (op_ooblen ops) (op_oobbuf ops) rv) s s'"
    by (auto simp: part_access_def m)
  then show ?thesis unfolding r by (intro exI [of _ rv] exI [of _ s'] exI conjI) (assumption, assumption, simp)
qed

lemma nand_read_oob_past_end_example:
  "\<exists>rv s' addr. goldfish_nand_read_oob (quiet_env 16) 0 0x100000
      \<lparr>op_len = 0, op_retlen = 0, op_ooblen = 16, op_oobretlen = 0, op_ooboffs = 0, op_datbuf = 0, op_oobbuf = 0xa000\<rparr> demo_nand =
      Inr (0, \<lparr>op_len = 0, op_retlen = 0, op_ooblen = 16, op_oobretlen = rv, op_ooboffs = 0, op_datbuf = 0, op_oobbuf = 0xa000\<rparr>, s') \<and>
    nand_does (nand_access 0xff017000 0 NAND_CMD_READ addr 16 0xa000 rv) demo_nand s' \<and> 2048 * 528 \<le> addr"
  using nand_read_oob_past_end [OF demo_ready refl, of 0
     "\<lparr>op_len = 0, op_retlen = 0, op_ooblen = 16, op_oobretlen = 0, op_ooboffs = 0, op_datbuf = 0, op_oobbuf = 0xa000\<rparr>" "quiet_env 16"]
  by (simp add: raw_addr_def demo_mtd_def)

text \<open>The length of an erase request is 64 bits wide, but the driver keeps its low 32 bits only.
  A page-aligned request whose length is a multiple of \<open>2 ^ 32\<close> sends an erase command of length 0,
  and when the device answers 0 to it the driver reports success and \<open>MTD_ERASE_DONE\<close>: nothing was
  erased.\<close>

lemma nand_erase_truncated:
  assumes ready: "nand_ready s i" and m: "m = nand_info s ! i"
    and len: "ucast (ei_len instr) = (0 :: u32)"
    and ofs: "unat (ei_addr instr) \<le> unat (mtd_size m)" "unat (writesize m) dvd unat (ei_addr instr)"
  shows "\<exists>rv s'. nand_does (nand_access (nand_base (goldfish_nand_info s)) i NAND_CMD_ERASE
            (raw_addr m (unat (ei_addr instr))) 0 0 rv) s s' \<and>
     (rv = 0 \<longrightarrow> goldfish_nand_erase env callback i instr s =
            Inr (0, mtd_erase_callback callback (instr\<lparr>ei_state := MTD_ERASE_DONE\<rparr>) s'))"
proof -
  have "erase_request m (unat (ei_addr instr)) (unat (0 :: u32))" using ofs by (simp add: erase_request_def)
  moreover have "raw_addr m (unat (0 :: u32)) = 0" by (simp add: raw_addr_def)
  ultimately obtain rv s' where
    d: "nand_does (nand_access (nand_base (goldfish_nand_info s)) i NAND_CMD_ERASE
            (raw_addr m (unat (ei_addr instr))) 0 0 rv) s s'"
    and r: "if unat rv = 0 then goldfish_nand_erase env callback i instr s =
            Inr (0, mtd_erase_callback callback (instr\<lparr>ei_state := MTD_ERASE_DONE\<rparr>) s')
      else \<exists>f xs. goldfish_nand_erase env callback i instr s = Inr (- EIO, instr, printf f xs s')"
    using erase_accept [OF ready len [symmetric], of env callback] unfolding m by auto
  show ?thesis using d r by (intro exI [of _ rv] exI [of _ s']) simp
qed

lemma nand_erase_truncated_example:
  "\<exists>rv s'. nand_does (nand_access 0xff017000 0 NAND_CMD_ERASE 0 0 0 rv) demo_nand s' \<and>
     (rv = 0 \<longrightarrow> goldfish_nand_erase (quiet_env 0) None 0 \<lparr>ei_addr = 0, ei_len = 0x100000000, ei_state = 0\<rparr> demo_nand
        = Inr (0, \<lparr>ei_addr = 0, ei_len = 0x100000000, ei_state = 8\<rparr>, s'))"
  using nand_erase_truncated [OF demo_ready refl, of 0 "\<lparr>ei_addr = 0, ei_len = 0x100000000, ei_state = 0\<rparr>" "quiet_env 0" None]
  by (simp add: raw_addr_def mtd_erase_callback_def)

text \<open>A negative offset is not refused by the range test of \<open>goldfish_nand_read\<close>. On a flash with
  pages of 512 + 16 bytes a read of one page at offset -512 has the sum 0, passes the three tests, and
  runs into the overflow of the signed product that computes the raw address.\<close>

lemma nand_read_negative_offset:
  assumes ready: "nand_ready s i" and geo: "writesize (nand_info s ! i) = 512" "oobsize (nand_info s ! i) = 16"
  shows "goldfish_nand_read env i (- 512) 512 retlen buf s = Inl Signed_overflow"
proof -
  have "unat (- 512 :: u64) = 36028797018963967 * unat (512 :: u32)" by simp
  from dd.divmod_exact [OF _ this] obtain q where
    q: "do_div (- 512) 512 = Inr (0, q)" "unat q = 36028797018963967" by auto
  have q': "q = 36028797018963967" using q(2) by (simp add: word_unat_eq_iff)
  have "s64_mul q 528 = Inl Signed_overflow" unfolding q' by (simp add: s64_mul_def s64_fits_def)
  moreover have "s64_add (- 512) (ucast (512 :: u32)) = Inr 0" by (simp add: s64_add_def s64_fits_def)
  ultimately show ?thesis using q(1) geo
    by (simp add: goldfish_nand_read_def mtd_ref_ready [OF ready])
qed

lemma nand_read_negative_offset_example:
  "goldfish_nand_read (quiet_env 0) 0 (- 512) 512 0 0x9000 demo_nand = Inl Signed_overflow"
  by (rule nand_read_negative_offset [OF demo_ready]) (simp_all add: demo_mtd_def)

end
