(* ===== verification/Flash.thy ===== *)
theory Flash
  imports Nand
begin

text \<open>
  The NAND driver in front of a flash memory. The device behind the registers is a parameter: its
  state \<open>'d\<close>, the environment it is for the driver in a state, the state after a command, and the
  bytes it holds. What the driver relies on is \<open>goldfish_flash\<close>, after the names and comments of the
  commands in \<^verbatim>\<open>goldfish_nand_reg.h\<close>: a read command stores bytes of the flash to memory, a write command
  takes them from memory, an erase command sets them to \<open>0xFF\<close>, and the result register holds the
  number of bytes. Which commands a call of the driver issues is read off its bus trace. The
  theorem is a simulation: a sequence of calls of the driver, with stores of the client to memory
  in between, acts on the flash like the same sequence on an array of pages.
\<close>

section \<open>The device\<close>

text \<open>The registers of the controller that hold the arguments of a command, as the trace sets them.\<close>

record nand_regs =
  rg_dev :: u32
  rg_high :: u32
  rg_low :: u32
  rg_size :: u32
  rg_data :: u32

definition reg_step :: "u32 \<Rightarrow> io \<Rightarrow> nand_regs \<Rightarrow> nand_regs" where
  "reg_step base e r = (case e of
      Wr a v \<Rightarrow>
        if a = base + NAND_DEV then r\<lparr>rg_dev := v\<rparr>
        else if a = base + NAND_ADDR_HIGH then r\<lparr>rg_high := v\<rparr>
        else if a = base + NAND_ADDR_LOW then r\<lparr>rg_low := v\<rparr>
        else if a = base + NAND_TRANSFER_SIZE then r\<lparr>rg_size := v\<rparr>
        else if a = base + NAND_DATA then r\<lparr>rg_data := v\<rparr> else r
    | _ \<Rightarrow> r)"

text \<open>A command: device, code, raw address, number of bytes, address of the buffer.\<close>

type_synonym flash_cmd = "nat \<times> u32 \<times> nat \<times> nat \<times> u32"

definition reg_cmd :: "nand_regs \<Rightarrow> u32 \<Rightarrow> flash_cmd" where
  "reg_cmd r c = (unat (rg_dev r), c, unat (rg_high r) * 2 ^ 32 + unat (rg_low r), unat (rg_size r), rg_data r)"

fun flash_cmds :: "u32 \<Rightarrow> nand_regs \<Rightarrow> io list \<Rightarrow> flash_cmd list" where
  "flash_cmds base r [] = []"
| "flash_cmds base r (e # es) =
     (case e of
        Wr a v \<Rightarrow> if a = base + NAND_COMMAND then reg_cmd r v # flash_cmds base r es
                 else flash_cmds base (reg_step base e r) es
      | _ \<Rightarrow> flash_cmds base r es)"

text \<open>The five writes that set the arguments.\<close>

definition cmd_args :: "u32 \<Rightarrow> nat \<Rightarrow> nat \<Rightarrow> u32 \<Rightarrow> u32 \<Rightarrow> io list" where
  "cmd_args base i addr len ptr =
     [Wr (base + NAND_DEV) (of_nat i), Wr (base + NAND_ADDR_HIGH) (of_nat (addr div 2 ^ 32)),
      Wr (base + NAND_ADDR_LOW) (of_nat addr), Wr (base + NAND_TRANSFER_SIZE) len,
      Wr (base + NAND_DATA) ptr]"

text \<open>
  \<open>dev d\<close> is the environment in state \<open>d\<close>, \<open>next\<close> the state after a command with the memory at
  that time, \<open>cells d i a\<close> the byte at raw address \<open>a\<close> of device \<open>i\<close>, and \<open>cap i\<close> its raw size.
\<close>

definition goldfish_flash ::
  "u32 \<Rightarrow> ('d \<Rightarrow> env) \<Rightarrow> (memory \<Rightarrow> flash_cmd \<Rightarrow> 'd \<Rightarrow> 'd) \<Rightarrow> ('d \<Rightarrow> nat \<Rightarrow> nat \<Rightarrow> u8) \<Rightarrow> (nat \<Rightarrow> nat) \<Rightarrow> bool" where
  "goldfish_flash base dev next cells cap \<longleftrightarrow>
     (\<forall>d h a v m. a \<noteq> base + NAND_COMMAND \<longrightarrow> env_dma (dev d) (h @ [Wr a v]) m = m) \<and>
     (\<forall>d h i c addr len ptr m. i < 2 ^ 32 \<and> addr + unat len \<le> cap i \<and> addr + unat len < 2 ^ 64 \<longrightarrow>
        env_dma (dev d) (h @ cmd_args base i addr len ptr @ [Wr (base + NAND_COMMAND) (nand_cmd_code c)]) m =
          (if c = NAND_CMD_READ then store_bytes ptr (map (cells d i) [addr..<addr + unat len]) m else m)) \<and>
     (\<forall>d h i c addr len ptr. i < 2 ^ 32 \<and> addr + unat len \<le> cap i \<and> addr + unat len < 2 ^ 64 \<and>
        c \<in> {NAND_CMD_READ, NAND_CMD_WRITE, NAND_CMD_ERASE} \<longrightarrow>
        env_read (dev d) (h @ cmd_args base i addr len ptr @ [Wr (base + NAND_COMMAND) (nand_cmd_code c)])
          (base + NAND_RESULT) = len) \<and>
     (\<forall>d m i addr len ptr. addr + len \<le> cap i \<longrightarrow>
        cells (next m (i, nand_cmd_code NAND_CMD_READ, addr, len, ptr) d) = cells d \<and>
        cells (next m (i, nand_cmd_code NAND_CMD_WRITE, addr, len, ptr) d) =
          (cells d)(i := \<lambda>a. if addr \<le> a \<and> a < addr + len then m (ptr + of_nat (a - addr)) else cells d i a) \<and>
        cells (next m (i, nand_cmd_code NAND_CMD_ERASE, addr, len, ptr) d) =
          (cells d)(i := \<lambda>a. if addr \<le> a \<and> a < addr + len then 0xFF else cells d i a))"

text \<open>The state of the device after a call of the driver that took the machine from \<open>s\<close> to \<open>s'\<close>.
  The driver stores nothing to memory itself.\<close>

definition flash_after ::
  "u32 \<Rightarrow> (memory \<Rightarrow> flash_cmd \<Rightarrow> 'd \<Rightarrow> 'd) \<Rightarrow> 'a machine_scheme \<Rightarrow> 'a machine_scheme \<Rightarrow> 'd \<Rightarrow> 'd" where
  "flash_after base next s s' d =
     fold (next (mem s)) (flash_cmds base \<lparr>rg_dev = 0, rg_high = 0, rg_low = 0, rg_size = 0, rg_data = 0\<rparr>
       (drop (length (trace s)) (trace s'))) d"

section \<open>Pages\<close>

text \<open>The abstraction: page \<open>p\<close> of a device is the list of its data bytes.\<close>

definition page_pitch :: "mtd_info \<Rightarrow> nat" where
  "page_pitch m = unat (writesize m) + unat (oobsize m)"

definition pages :: "mtd_info \<Rightarrow> (nat \<Rightarrow> u8) \<Rightarrow> nat \<Rightarrow> u8 list" where
  "pages m c p = map c [p * page_pitch m ..< p * page_pitch m + unat (writesize m)]"

text \<open>What a client does: it transfers pages, erases ranges of pages and stores to memory.\<close>

datatype page_op =
    Write_page nat u32
  | Read_page nat u32
  | Erase_pages nat nat
  | Store_mem u32 "u8 list"

fun spec_op :: "mtd_info \<Rightarrow> page_op \<Rightarrow> (nat \<Rightarrow> u8 list) \<times> memory \<Rightarrow> (nat \<Rightarrow> u8 list) \<times> memory" where
  "spec_op m (Write_page p buf) (P, M) = (P(p := load_bytes M buf (unat (writesize m))), M)"
| "spec_op m (Read_page p buf) (P, M) = (P, store_bytes buf (P p) M)"
| "spec_op m (Erase_pages p n) (P, M) =
     ((\<lambda>q. if p \<le> q \<and> q < p + n then replicate (unat (writesize m)) 0xFF else P q), M)"
| "spec_op m (Store_mem a bs) (P, M) = (P, store_bytes a bs M)"

text \<open>The same through the driver: \<open>None\<close> if a call faults or returns an error.\<close>

definition flash_call ::
  "u32 \<Rightarrow> (memory \<Rightarrow> flash_cmd \<Rightarrow> 'd \<Rightarrow> 'd) \<Rightarrow> 'd \<Rightarrow> 'a machine_scheme \<Rightarrow> (int \<times> 'r \<times> 'a machine_scheme) result
   \<Rightarrow> ('d \<times> 'a machine_scheme) option" where
  "flash_call base next d s r = (case r of
      Inr (err, x, s') \<Rightarrow> if err = 0 then Some (flash_after base next s s' d, s') else None
    | Inl f \<Rightarrow> None)"

fun drive_op ::
  "u32 \<Rightarrow> ('d \<Rightarrow> env) \<Rightarrow> (memory \<Rightarrow> flash_cmd \<Rightarrow> 'd \<Rightarrow> 'd) \<Rightarrow> nat \<Rightarrow> mtd_info \<Rightarrow> page_op \<Rightarrow> 'd \<times> 'a nand_st_scheme
   \<Rightarrow> ('d \<times> 'a nand_st_scheme) option" where
  "drive_op base dev next i m (Write_page p buf) (d, s) =
     flash_call base next d s (goldfish_nand_write (dev d) i (of_nat (p * unat (writesize m))) (writesize m) 0 buf s)"
| "drive_op base dev next i m (Read_page p buf) (d, s) =
     flash_call base next d s (goldfish_nand_read (dev d) i (of_nat (p * unat (writesize m))) (writesize m) 0 buf s)"
| "drive_op base dev next i m (Erase_pages p n) (d, s) =
     flash_call base next d s (goldfish_nand_erase (dev d) None i
       \<lparr>ei_addr = of_nat (p * unat (writesize m)), ei_len = of_nat (n * unat (writesize m)), ei_state = 0\<rparr> s)"
| "drive_op base dev next i m (Store_mem a bs) (d, s) = Some (d, s\<lparr>mem := store_bytes a bs (mem s)\<rparr>)"

fun drive ::
  "u32 \<Rightarrow> ('d \<Rightarrow> env) \<Rightarrow> (memory \<Rightarrow> flash_cmd \<Rightarrow> 'd \<Rightarrow> 'd) \<Rightarrow> nat \<Rightarrow> mtd_info \<Rightarrow> page_op list \<Rightarrow> 'd \<times> 'a nand_st_scheme
   \<Rightarrow> ('d \<times> 'a nand_st_scheme) option" where
  "drive base dev next i m [] x = Some x"
| "drive base dev next i m (c # cs) x =
     (case drive_op base dev next i m c x of None \<Rightarrow> None | Some x \<Rightarrow> drive base dev next i m cs x)"

text \<open>The operations a client may ask for: pages inside the device, and ranges whose raw length fits in
  the 32-bit transfer size.\<close>

fun op_ok :: "mtd_info \<Rightarrow> page_op \<Rightarrow> bool" where
  "op_ok m (Write_page p buf) \<longleftrightarrow> (p + 1) * unat (writesize m) \<le> unat (mtd_size m)"
| "op_ok m (Read_page p buf) \<longleftrightarrow> (p + 1) * unat (writesize m) \<le> unat (mtd_size m)"
| "op_ok m (Erase_pages p n) \<longleftrightarrow> (p + n) * unat (writesize m) \<le> unat (mtd_size m) \<and> n * page_pitch m < 2 ^ 32"
| "op_ok m (Store_mem a bs) \<longleftrightarrow> True"

section \<open>The driver's calls on the bus\<close>

lemma bus_runs:
  "\<exists>t. bus_run env t s s"
  "\<exists>t. bus_run env t s s1 \<Longrightarrow> \<exists>t. bus_run env t s (writel env v a s1)"
  "\<exists>t. bus_run env t s s1 \<Longrightarrow> \<exists>t. bus_run env t s (snd (readl env a s1))"
  "\<exists>t. bus_run env t s s1 \<Longrightarrow> \<exists>t. bus_run env t s (printf f xs s1)"
  by (blast intro: bus_run_trans bus_run_writel bus_run_readl bus_run_printf)+

lemma nand_cmd_run:
  assumes "goldfish_nand_cmd env i cmd addr len ptr s = Inr (rv, s')"
  shows "\<exists>t. bus_run env t s s'"
proof -
  obtain b a1 a2 a3 a4 a5 a6 c1 c2 c3 c4 c5 c6 where "s' = snd (readl env b
     (writel env c6 a6 (writel env c5 a5 (writel env c4 a4 (writel env c3 a3 (writel env c2 a2 (writel env c1 a1 s)))))))"
    using assms by (auto simp: goldfish_nand_cmd_def rbind_eq_Inr Let_def prod_eq_iff split: if_splits option.splits)
  then show ?thesis by (simp only:) (intro bus_runs)
qed

lemma page_transfer_run:
  assumes "page_transfer cmd msg env i start len retlen buf s = Inr (err, rv, s')"
  shows "\<exists>t. bus_run env t s s'"
  using assms
  by (auto simp: page_transfer_def rbind_eq_Inr Let_def split: if_splits dest!: nand_cmd_run intro!: bus_runs(4))

lemma erase_run:
  assumes "goldfish_nand_erase env None i instr s = Inr (err, x, s')"
  shows "\<exists>t. bus_run env t s s'"
  using assms
  by (auto simp: goldfish_nand_erase_def mtd_erase_callback_def rbind_eq_Inr Let_def split: if_splits
      dest!: nand_cmd_run intro!: bus_runs(4))

lemma flash_cmds_access:
  assumes "i < 2 ^ 32" "addr < 2 ^ 64"
  shows "flash_cmds base r (nand_access base i c addr len ptr rv) = [(i, nand_cmd_code c, addr, unat len, ptr)]"
proof -
  have "addr div 4294967296 * 4294967296 + addr mod 4294967296 = addr" by simp
  then show ?thesis using assms
    by (simp add: nand_access_def reg_step_def reg_cmd_def unat_of_nat take_bit_eq_mod)
qed

lemma quiet_writes:
  assumes "goldfish_flash base dev next cells cap" "\<forall>e \<in> set t. \<forall>v. e \<noteq> Wr (base + NAND_COMMAND) v"
  shows "bus_mem (dev d) h t m = m"
  using assms(2)
proof (induction t arbitrary: h m)
  case (Cons e t)
  have "(case e of Wr a v \<Rightarrow> env_dma (dev d) (h @ [e]) m | _ \<Rightarrow> m) = m"
    using assms(1) Cons.prems by (auto simp: goldfish_flash_def split: io.split)
  then show ?case using Cons by simp
qed simp

lemma access_effect:
  assumes flash: "goldfish_flash base dev next cells cap"
    and run: "bus_run (dev d) (nand_access base i c addr len ptr rv) s s'"
    and arg: "i < 2 ^ 32" "addr + unat len \<le> cap i" "addr + unat len < 2 ^ 64"
  shows "mem s' = (if c = NAND_CMD_READ then store_bytes ptr (map (cells d i) [addr..<addr + unat len]) (mem s) else mem s)"
    and "c \<in> {NAND_CMD_READ, NAND_CMD_WRITE, NAND_CMD_ERASE} \<Longrightarrow> rv = len"
    and "flash_after base next s s' d = next (mem s) (i, nand_cmd_code c, addr, unat len, ptr) d"
proof -
  have acc: "nand_access base i c addr len ptr rv =
      cmd_args base i addr len ptr @ [Wr (base + NAND_COMMAND) (nand_cmd_code c), Rd (base + NAND_RESULT) rv]"
    by (simp add: nand_access_def cmd_args_def)
  have args: "bus_mem (dev d) h (cmd_args base i addr len ptr) m = m" for h m
    by (rule quiet_writes [OF flash]) (simp add: cmd_args_def)
  show "mem s' = (if c = NAND_CMD_READ then store_bytes ptr (map (cells d i) [addr..<addr + unat len]) (mem s) else mem s)"
    using run flash arg unfolding bus_run_def acc bus_mem_append args
    by (simp add: goldfish_flash_def)
  show "rv = len" if "c \<in> {NAND_CMD_READ, NAND_CMD_WRITE, NAND_CMD_ERASE}"
    using run flash arg that unfolding bus_run_def acc bus_reads_append
    by (simp add: goldfish_flash_def)
  show "flash_after base next s s' d = next (mem s) (i, nand_cmd_code c, addr, unat len, ptr) d"
    using run arg flash_cmds_access [of i addr base _ c len ptr rv] by (simp add: flash_after_def bus_run_def)
qed

lemma does_run:
  "nand_does t s s' \<Longrightarrow> \<exists>t. bus_run env t s s' \<Longrightarrow> bus_run env t s s'"
  by (auto simp: nand_does_def bus_run_def)

lemma read_run: "goldfish_nand_read env i start len retlen buf s = Inr (err, rv, s') \<Longrightarrow> \<exists>t. bus_run env t s s'"
  and write_run: "goldfish_nand_write env i start len retlen buf s = Inr (err, rv, s') \<Longrightarrow> \<exists>t. bus_run env t s s'"
  using read_is_transfer write_is_transfer page_transfer_run by metis+

section \<open>Pages and raw addresses\<close>

lemma raw_page: "0 < unat (writesize m) \<Longrightarrow> raw_addr m (p * unat (writesize m)) = p * page_pitch m"
  by (simp add: raw_addr_def page_pitch_def)

lemma page_ranges:
  assumes "a \<in> {p * page_pitch m ..< p * page_pitch m + unat (writesize m)}"
  shows "q * page_pitch m \<le> a \<longleftrightarrow> q \<le> p" and "a < q * page_pitch m + unat (writesize m) \<longleftrightarrow> p \<le> q"
    and "a < q * page_pitch m \<longleftrightarrow> p < q"
proof -
  have le: "x * page_pitch m + page_pitch m \<le> y * page_pitch m" if "x < y" for x y
    using mult_le_mono1 [of "Suc x" y "page_pitch m"] that by simp
  have ws: "unat (writesize m) \<le> page_pitch m" by (simp add: page_pitch_def)
  have mono: "x * page_pitch m \<le> y * page_pitch m" if "x \<le> y" for x y using that by simp
  have a: "p * page_pitch m \<le> a" "a < p * page_pitch m + unat (writesize m)" using assms by simp_all
  show lt: "a < q * page_pitch m \<longleftrightarrow> p < q"
    using le [of p q] mono [of q p] a ws by linarith
  then show "q * page_pitch m \<le> a \<longleftrightarrow> q \<le> p" by (metis not_less)
  show "a < q * page_pitch m + unat (writesize m) \<longleftrightarrow> p \<le> q"
    using le [of q p] mono [of p q] a ws by linarith
qed

lemma pages_cong:
  assumes "\<And>a. a \<in> {q * page_pitch m ..< q * page_pitch m + unat (writesize m)} \<Longrightarrow> c a = c' a"
  shows "pages m c q = pages m c' q"
  using assms by (simp add: pages_def)

lemma pages_write:
  "pages m (\<lambda>a. if p * page_pitch m \<le> a \<and> a < p * page_pitch m + unat (writesize m)
               then M (buf + of_nat (a - p * page_pitch m)) else c a) =
   (pages m c)(p := load_bytes M buf (unat (writesize m)))"
proof
  fix q
  show "pages m (\<lambda>a. if p * page_pitch m \<le> a \<and> a < p * page_pitch m + unat (writesize m)
               then M (buf + of_nat (a - p * page_pitch m)) else c a) q =
        ((pages m c)(p := load_bytes M buf (unat (writesize m)))) q"
  proof (cases "q = p")
    case True
    then show ?thesis by (auto simp: pages_def load_bytes_def intro: nth_equalityI)
  next
    case False
    then have "pages m (\<lambda>a. if p * page_pitch m \<le> a \<and> a < p * page_pitch m + unat (writesize m)
               then M (buf + of_nat (a - p * page_pitch m)) else c a) q = pages m c q"
      using page_ranges(1,2) [of _ q m p] by (intro pages_cong) force
    then show ?thesis using False by simp
  qed
qed

lemma pages_erase:
  "pages m (\<lambda>a. if p * page_pitch m \<le> a \<and> a < p * page_pitch m + n * page_pitch m then x else c a) =
   (\<lambda>q. if p \<le> q \<and> q < p + n then replicate (unat (writesize m)) x else pages m c q)"
proof
  fix q
  have eq: "p * page_pitch m + n * page_pitch m = (p + n) * page_pitch m" by (simp add: algebra_simps)
  show "pages m (\<lambda>a. if p * page_pitch m \<le> a \<and> a < p * page_pitch m + n * page_pitch m then x else c a) q =
    (if p \<le> q \<and> q < p + n then replicate (unat (writesize m)) x else pages m c q)"
  proof (cases "p \<le> q \<and> q < p + n")
    case True
    then have "pages m (\<lambda>a. if p * page_pitch m \<le> a \<and> a < (p + n) * page_pitch m then x else c a) q = pages m (\<lambda>a. x) q"
      using page_ranges(1) [of _ q m p] page_ranges(3) [of _ q m "p + n"] by (intro pages_cong) (auto simp del: atLeastLessThan_iff)
    then show ?thesis using True by (simp add: eq pages_def map_replicate_const)
  next
    case False
    then have "pages m (\<lambda>a. if p * page_pitch m \<le> a \<and> a < (p + n) * page_pitch m then x else c a) q = pages m c q"
      using page_ranges(1) [of _ q m p] page_ranges(3) [of _ q m "p + n"] by (intro pages_cong) (auto simp del: atLeastLessThan_iff)
    then show ?thesis using False by (auto simp: eq)
  qed
qed

section \<open>The simulation\<close>

lemma page_in_device:
  assumes wf: "mtd_wf m" and le: "q * unat (writesize m) \<le> unat (mtd_size m)"
  shows "q * page_pitch m \<le> raw_addr m (unat (mtd_size m))" "q * page_pitch m < 2 ^ 63"
    and "unat (of_nat (q * unat (writesize m)) :: u64) = q * unat (writesize m)"
proof -
  have ws: "0 < unat (writesize m)" using wf by (simp add: mtd_wf_def)
  show *: "q * page_pitch m \<le> raw_addr m (unat (mtd_size m))"
    using raw_addr_mono [OF le, of m] raw_page [OF ws] by simp
  then show "q * page_pitch m < 2 ^ 63" using wf by (simp add: mtd_wf_def)
  show "unat (of_nat (q * unat (writesize m)) :: u64) = q * unat (writesize m)"
    using le unat_lt_u64 [of "mtd_size m"] by (simp add: unat_of_nat take_bit_eq_mod del: of_nat_mult)
qed

lemma page_transfer_sim:
  assumes flash: "goldfish_flash base dev next cells cap" and ready: "nand_ready s i" and i: "i < 2 ^ 32"
    and m: "m = nand_info s ! i" and base: "base = nand_base (goldfish_nand_info s)"
    and cap: "raw_addr m (unat (mtd_size m)) \<le> cap i"
    and p: "(p + 1) * unat (writesize m) \<le> unat (mtd_size m)"
  shows "\<exists>rv s'. goldfish_nand_write (dev d) i (of_nat (p * unat (writesize m))) (writesize m) 0 buf s = Inr (0, rv, s') \<and>
      pages m (cells (flash_after base next s s' d) i) =
        (pages m (cells d i))(p := load_bytes (mem s) buf (unat (writesize m))) \<and> mem s' = mem s \<and> (\<exists>t. nand_does t s s')"
    (is ?W)
    and "\<exists>rv s'. goldfish_nand_read (dev d) i (of_nat (p * unat (writesize m))) (writesize m) 0 buf s = Inr (0, rv, s') \<and>
      cells (flash_after base next s s' d) = cells d \<and> mem s' = store_bytes buf (pages m (cells d i) p) (mem s) \<and>
      (\<exists>t. nand_does t s s')"
    (is ?R)
proof -
  have wf: "mtd_wf m" using ready by (simp add: nand_ready_def m)
  have ws: "0 < unat (writesize m)" using wf by (simp add: mtd_wf_def)
  have le: "p * unat (writesize m) \<le> unat (mtd_size m)" using p by simp
  note u = page_in_device(3) [OF wf le]
  have req: "page_request (nand_info s ! i) (unat (of_nat (p * unat (writesize m)) :: u64)) (unat (writesize m))"
    using p unfolding u page_request_def m [symmetric] by simp
  have raw: "raw_addr m (p * unat (writesize m)) = p * page_pitch m" by (rule raw_page [OF ws])
  have fits: "p * page_pitch m + unat (writesize m) \<le> cap i" "p * page_pitch m + unat (writesize m) < 2 ^ 64"
    using page_in_device(1,2) [OF wf p] cap by (simp_all add: page_pitch_def)
  show ?W
  proof -
    obtain rv s' where c: "goldfish_nand_write (dev d) i (of_nat (p * unat (writesize m))) (writesize m) 0 buf s = Inr (0, rv, s')"
      "nand_does (nand_access base i NAND_CMD_WRITE (p * page_pitch m) (writesize m) buf rv) s s'"
      using wr.accept [OF ready req, of "dev d" 0 buf] u raw by (auto simp: base m)
    note e = access_effect [OF flash does_run [OF c(2) write_run [OF c(1)]] i fits]
    have "cells (flash_after base next s s' d) i =
      (\<lambda>a. if p * page_pitch m \<le> a \<and> a < p * page_pitch m + unat (writesize m)
           then mem s (buf + of_nat (a - p * page_pitch m)) else cells d i a)"
      using flash fits(1) unfolding e(3) goldfish_flash_def by simp
    then show ?thesis using c e(1) by (intro exI [of _ rv] exI [of _ s']) (auto simp: pages_write)
  qed
  show ?R
  proof -
    obtain rv s' where c: "goldfish_nand_read (dev d) i (of_nat (p * unat (writesize m))) (writesize m) 0 buf s = Inr (0, rv, s')"
      "nand_does (nand_access base i NAND_CMD_READ (p * page_pitch m) (writesize m) buf rv) s s'"
      using rd.accept [OF ready req, of "dev d" 0 buf] u raw by (auto simp: base m)
    note e = access_effect [OF flash does_run [OF c(2) read_run [OF c(1)]] i fits]
    have "cells (flash_after base next s s' d) = cells d"
      using flash fits(1) unfolding e(3) goldfish_flash_def by simp
    then show ?thesis using c e(1) by (intro exI [of _ rv] exI [of _ s']) (auto simp: pages_def)
  qed
qed

lemma bus_run_printf_inv:
  assumes "bus_run env t s (printf f xs s')" "nand_does t' s s'"
  shows "bus_run env t' s s'"
proof -
  have "t = t' @ [Printf f xs]" using assms by (simp add: bus_run_def nand_does_def)
  then show ?thesis using assms by (simp add: bus_run_def nand_does_def bus_mem_append bus_reads_append)
qed

lemma erase_sim:
  assumes flash: "goldfish_flash base dev next cells cap" and ready: "nand_ready s i" and i: "i < 2 ^ 32"
    and m: "m = nand_info s ! i" and base: "base = nand_base (goldfish_nand_info s)"
    and cap: "raw_addr m (unat (mtd_size m)) \<le> cap i"
    and pn: "(p + n) * unat (writesize m) \<le> unat (mtd_size m)" "n * page_pitch m < 2 ^ 32"
    and instr: "instr = \<lparr>ei_addr = of_nat (p * unat (writesize m)), ei_len = of_nat (n * unat (writesize m)), ei_state = 0\<rparr>"
  shows "\<exists>x s'. goldfish_nand_erase (dev d) None i instr s = Inr (0, x, s') \<and>
      pages m (cells (flash_after base next s s' d) i) = (\<lambda>q. if p \<le> q \<and> q < p + n
        then replicate (unat (writesize m)) 0xFF else pages m (cells d i) q) \<and>
      mem s' = mem s \<and> (\<exists>t. nand_does t s s')"
proof -
  let ?ws = "unat (writesize m)"
  have wf: "mtd_wf m" using ready by (simp add: nand_ready_def m)
  have ws: "0 < ?ws" using wf by (simp add: mtd_wf_def)
  have le: "p * ?ws \<le> unat (mtd_size m)" "n * ?ws \<le> unat (mtd_size m)" using pn(1) by (simp_all add: algebra_simps)
  note u = page_in_device(3) [OF wf le(1)] page_in_device(3) [OF wf le(2)]
  have n: "n * ?ws < 2 ^ 32" using pn(2) by (simp add: page_pitch_def algebra_simps)
  then have l: "unat (ucast (ei_len instr) :: u32) = n * ?ws" using u(2) by (simp add: instr unat_ucast_down del: of_nat_mult)
  have raw: "raw_addr m (p * ?ws) = p * page_pitch m" "raw_addr m (n * ?ws) = n * page_pitch m"
    by (rule raw_page [OF ws])+
  have req: "erase_request (nand_info s ! i) (unat (ei_addr instr)) (unat (ucast (ei_len instr) :: u32))"
    using pn(1) u(1) unfolding erase_request_def m [symmetric] l by (simp add: instr algebra_simps del: of_nat_mult)
  obtain rv s' where c: "nand_does (nand_access base i NAND_CMD_ERASE (p * page_pitch m) (of_nat (n * page_pitch m)) 0 rv) s s'"
    "if unat rv = n * page_pitch m
     then goldfish_nand_erase (dev d) None i instr s = Inr (0, mtd_erase_callback None (instr\<lparr>ei_state := MTD_ERASE_DONE\<rparr>) s')
     else \<exists>f xs. goldfish_nand_erase (dev d) None i instr s = Inr (- EIO, instr, printf f xs s')"
    using erase_accept [OF ready refl req, of "dev d" None] pn(2) unfolding l m [symmetric] raw
    by (auto simp: base instr u raw simp del: of_nat_mult)
  have len: "unat (of_nat (n * page_pitch m) :: u32) = n * page_pitch m"
    using pn(2) by (simp add: unat_of_nat take_bit_eq_mod del: of_nat_mult)
  have fits: "p * page_pitch m + unat (of_nat (n * page_pitch m) :: u32) \<le> cap i"
    "p * page_pitch m + unat (of_nat (n * page_pitch m) :: u32) < 2 ^ 64"
    using page_in_device(1,2) [OF wf pn(1)] cap unfolding len by (simp_all add: algebra_simps)
  have run: "bus_run (dev d) (nand_access base i NAND_CMD_ERASE (p * page_pitch m) (of_nat (n * page_pitch m)) 0 rv) s s'"
  proof (cases "unat rv = n * page_pitch m")
    case True
    then have "goldfish_nand_erase (dev d) None i instr s = Inr (0, instr\<lparr>ei_state := MTD_ERASE_DONE\<rparr>, s')"
      using c(2) by (simp add: mtd_erase_callback_def)
    from does_run [OF c(1) erase_run [OF this]] show ?thesis .
  next
    case False
    then obtain f xs where "goldfish_nand_erase (dev d) None i instr s = Inr (- EIO, instr, printf f xs s')"
      using c(2) by auto
    from erase_run [OF this] obtain t where "bus_run (dev d) t s (printf f xs s')" ..
    from bus_run_printf_inv [OF this c(1)] show ?thesis .
  qed
  note e = access_effect [OF flash run i fits]
  have "unat rv = n * page_pitch m" using e(2) len by simp
  then have "goldfish_nand_erase (dev d) None i instr s = Inr (0, instr\<lparr>ei_state := MTD_ERASE_DONE\<rparr>, s')"
    using c(2) by (simp add: mtd_erase_callback_def)
  moreover have "cells (flash_after base next s s' d) i = (\<lambda>a. if p * page_pitch m \<le> a \<and>
      a < p * page_pitch m + n * page_pitch m then 0xFF else cells d i a)"
    using flash fits(1) unfolding e(3) len goldfish_flash_def by simp
  ultimately show ?thesis using c(1) e(1) by (auto simp: pages_erase)
qed

lemma nand_does_vars: "nand_does t s s' \<Longrightarrow> nand_info s' = nand_info s \<and> goldfish_nand_info s' = goldfish_nand_info s"
  by (simp add: nand_does_def)

lemma drive_op_sim:
  assumes "goldfish_flash base dev next cells cap" "nand_ready s i" "i < 2 ^ 32"
    and m: "m = nand_info s ! i" and "base = nand_base (goldfish_nand_info s)"
    and "raw_addr m (unat (mtd_size m)) \<le> cap i" and "op_ok m c"
  shows "\<exists>d' s'. drive_op base dev next i m c (d, s) = Some (d', s') \<and>
     (pages m (cells d' i), mem s') = spec_op m c (pages m (cells d i), mem s) \<and>
     nand_info s' = nand_info s \<and> goldfish_nand_info s' = goldfish_nand_info s"
proof (cases c)
  case (Write_page p buf)
  with page_transfer_sim(1) [OF assms(1-6), of p d buf] assms(7) nand_does_vars show ?thesis
    by (fastforce simp: flash_call_def)
next
  case (Read_page p buf)
  with page_transfer_sim(2) [OF assms(1-6), of p d buf] assms(7) nand_does_vars show ?thesis
    by (fastforce simp: flash_call_def)
next
  case (Erase_pages p n)
  with erase_sim [OF assms(1-6), of p n _ d] assms(7) nand_does_vars show ?thesis
    by (fastforce simp: flash_call_def)
next
  case (Store_mem a bs)
  then show ?thesis by simp
qed

lemma drive_sim:
  assumes "goldfish_flash base dev next cells cap" "nand_ready s i" "i < 2 ^ 32"
    and "m = nand_info s ! i" and "base = nand_base (goldfish_nand_info s)"
    and "raw_addr m (unat (mtd_size m)) \<le> cap i" and "list_all (op_ok m) cs"
  shows "\<exists>d' s'. drive base dev next i m cs (d, s) = Some (d', s') \<and>
     (pages m (cells d' i), mem s') = fold (spec_op m) cs (pages m (cells d i), mem s)"
  using assms
proof (induction cs arbitrary: d s)
  case (Cons c cs)
  obtain d1 s1 where 1: "drive_op base dev next i m c (d, s) = Some (d1, s1)"
    "(pages m (cells d1 i), mem s1) = spec_op m c (pages m (cells d i), mem s)"
    "nand_info s1 = nand_info s" "goldfish_nand_info s1 = goldfish_nand_info s"
    using drive_op_sim [OF Cons.prems(1-6), of c d] Cons.prems(7) by auto
  have "nand_ready s1 i" using Cons.prems(2) 1(3,4) by (simp add: nand_ready_def)
  from Cons.IH [OF Cons.prems(1) this Cons.prems(3), of d1] 1 Cons.prems show ?case by simp
qed simp

section \<open>A concrete device\<close>

text \<open>A device whose state is its cells: it reads its argument registers off the history.\<close>

definition regs_of :: "u32 \<Rightarrow> io list \<Rightarrow> nand_regs" where
  "regs_of base h = fold (reg_step base) h \<lparr>rg_dev = 0, rg_high = 0, rg_low = 0, rg_size = 0, rg_data = 0\<rparr>"

definition ram_env :: "u32 \<Rightarrow> (nat \<Rightarrow> nat \<Rightarrow> u8) \<Rightarrow> env" where
  "ram_env base d = \<lparr>env_read = (\<lambda>h a. rg_size (regs_of base h)),
     env_dma = (\<lambda>h m. if last h = Wr (base + NAND_COMMAND) (nand_cmd_code NAND_CMD_READ)
       then (case reg_cmd (regs_of base h) 1 of (i, c, addr, len, ptr) \<Rightarrow>
          store_bytes ptr (map (d i) [addr..<addr + len]) m) else m),
     env_getchar = (\<lambda>h. - 1)\<rparr>"

fun ram_next :: "memory \<Rightarrow> flash_cmd \<Rightarrow> (nat \<Rightarrow> nat \<Rightarrow> u8) \<Rightarrow> nat \<Rightarrow> nat \<Rightarrow> u8" where
  "ram_next m (i, c, addr, len, ptr) d =
     (if c = nand_cmd_code NAND_CMD_WRITE
      then d(i := \<lambda>a. if addr \<le> a \<and> a < addr + len then m (ptr + of_nat (a - addr)) else d i a)
      else if c = nand_cmd_code NAND_CMD_ERASE
      then d(i := \<lambda>a. if addr \<le> a \<and> a < addr + len then 0xFF else d i a)
      else d)"

lemma regs_of_args:
  assumes "i < 2 ^ 32" "addr < 2 ^ 64"
  shows "reg_cmd (regs_of base (h @ cmd_args base i addr len ptr @ [Wr (base + NAND_COMMAND) v])) c =
      (i, c, addr, unat len, ptr)"
    and "rg_size (regs_of base (h @ cmd_args base i addr len ptr @ [Wr (base + NAND_COMMAND) v])) = len"
  using assms div_mult_mod_eq [of addr 4294967296]
  by (simp_all add: regs_of_def cmd_args_def reg_step_def reg_cmd_def unat_of_nat take_bit_eq_mod)

lemma ram_flash: "goldfish_flash base (ram_env base) ram_next (\<lambda>d. d) cap"
  unfolding goldfish_flash_def
proof (intro conjI allI impI)
  fix d h i c addr ptr m and len :: u32
  assume a: "i < 2 ^ 32 \<and> addr + unat len \<le> cap i \<and> addr + unat len < 2 ^ 64"
  have code: "nand_cmd_code c = nand_cmd_code NAND_CMD_READ \<longleftrightarrow> c = NAND_CMD_READ" by (cases c) simp_all
  show "env_dma (ram_env base d) (h @ cmd_args base i addr len ptr @ [Wr (base + NAND_COMMAND) (nand_cmd_code c)]) m =
          (if c = NAND_CMD_READ then store_bytes ptr (map (d i) [addr..<addr + unat len]) m else m)"
    using a code by (simp add: ram_env_def regs_of_args del: NAND_COMMAND_def nand_cmd_code.simps)
qed (auto simp: ram_env_def regs_of_args simp del: NAND_COMMAND_def)

section \<open>Property\<close>

text \<open>C4: the driver makes a page store of the flash. On an initialised device behind which the
  commands act on a flash memory, any sequence of page writes, page reads, erasures of ranges of pages
  and stores to memory in between runs without a fault and without an error, and its effect on the
  pages of the flash and on memory is that of the same sequence on an array of pages: what is
  written is read back, pages not addressed keep their contents, and erased pages hold \<open>0xFF\<close>.\<close>

theorem flash_simulation:
  assumes flash: "goldfish_flash base dev next cells cap" and ready: "nand_ready s i" "i < 2 ^ 32"
    and m: "m = nand_info s ! i" and base: "base = nand_base (goldfish_nand_info s)"
    and cap: "raw_addr m (unat (mtd_size m)) \<le> cap i" and ok: "list_all (op_ok m) cs"
  shows "\<exists>d' s'. drive base dev next i m cs (d, s) = Some (d', s') \<and>
     (pages m (cells d' i), mem s') = fold (spec_op m) cs (pages m (cells d i), mem s)"
  by (rule drive_sim) (fact assms)+

theorem flash_simulation_witness:
  "\<exists>d' s'. drive 0xff017000 (ram_env 0xff017000) ram_next 1 demo_mtd
       [Write_page 3 0x10000, Erase_pages 4 2, Read_page 3 0x20000] (\<lambda>i a. 0, demo_nand) = Some (d', s') \<and>
     pages demo_mtd (d' 1) 3 = load_bytes (mem demo_nand) 0x10000 512 \<and>
     pages demo_mtd (d' 1) 5 = replicate 512 0xFF \<and>
     mem s' = store_bytes 0x20000 (load_bytes (mem demo_nand) 0x10000 512) (mem demo_nand)"
proof -
  have "nand_ready demo_nand 1" by (simp add: demo_ready)
  from flash_simulation [OF ram_flash this, where m = demo_mtd and cap = "\<lambda>_. 2 ^ 21" and d = "\<lambda>i a. 0"
      and cs = "[Write_page 3 0x10000, Erase_pages 4 2, Read_page 3 0x20000]"]
  show ?thesis
    by (auto simp: demo_mtd_def raw_addr_def page_pitch_def)
qed

end
