(* ===== verification/Arm.thy ===== *)
theory Arm
  imports Bus
begin

text \<open>
  The part of the ARM processor that the assembly files of the repository use: the registers with
  their banks, the program status registers, and the instructions of \<^verbatim>\<open>drivers/arm_exc.S\<close> and of the
  start-up files, in ARM state. A straight-line piece of assembly is a list of instructions; a call
  of a C function is a function on the state; a loop is a recursive function. Register 13 is \<open>sp\<close>,
  register 14 is \<open>lr\<close>. The program counter appears only where an exception returns to the
  interrupted code.
\<close>

section \<open>Registers\<close>

definition NO_IRQ :: u32 where [simp]: "NO_IRQ = 0x80"
definition NO_FIQ :: u32 where [simp]: "NO_FIQ = 0x40"
definition NO_INT :: u32 where [simp]: "NO_INT = NO_IRQ OR NO_FIQ"
definition USR_MODE :: u32 where [simp]: "USR_MODE = 0x10"
definition FIQ_MODE :: u32 where [simp]: "FIQ_MODE = 0x11"
definition IRQ_MODE :: u32 where [simp]: "IRQ_MODE = 0x12"
definition SVC_MODE :: u32 where [simp]: "SVC_MODE = 0x13"
definition ABT_MODE :: u32 where [simp]: "ABT_MODE = 0x17"
definition UND_MODE :: u32 where [simp]: "UND_MODE = 0x1B"
definition SYS_MODE :: u32 where [simp]: "SYS_MODE = 0x1F"

text \<open>The registers are addressed by bank and number; \<open>arm_spsr\<close> is addressed by mode.\<close>

record arm = machine +
  arm_regs :: "u32 \<Rightarrow> nat \<Rightarrow> u32"
  arm_cpsr :: u32
  arm_spsr :: "u32 \<Rightarrow> u32"
  arm_pc :: u32

definition mode_of :: "u32 \<Rightarrow> u32" where
  "mode_of c = c AND 0x1F"

definition bank :: "u32 \<Rightarrow> nat \<Rightarrow> u32" where
  "bank md n =
     (if md = USR_MODE \<or> md = SYS_MODE then USR_MODE
      else if n = 13 \<or> n = 14 then md
      else if md = FIQ_MODE \<and> 8 \<le> n then FIQ_MODE else USR_MODE)"

definition reg :: "nat \<Rightarrow> 'a arm_scheme \<Rightarrow> u32" where
  "reg n s = arm_regs s (bank (mode_of (arm_cpsr s)) n) n"

definition bank_upd :: "u32 \<Rightarrow> nat \<Rightarrow> u32 \<Rightarrow> 'a arm_scheme \<Rightarrow> 'a arm_scheme" where
  "bank_upd b n v s = s\<lparr>arm_regs := (arm_regs s)(b := (arm_regs s b)(n := v))\<rparr>"

definition set_reg :: "nat \<Rightarrow> u32 \<Rightarrow> 'a arm_scheme \<Rightarrow> 'a arm_scheme" where
  "set_reg n v s = bank_upd (bank (mode_of (arm_cpsr s)) n) n v s"

section \<open>Memory words\<close>

primrec store_words :: "u32 \<Rightarrow> u32 list \<Rightarrow> memory \<Rightarrow> memory" where
  "store_words a [] m = m"
| "store_words a (w # ws) m = store_words (a + 4) ws (store32 a w m)"

section \<open>Instructions\<close>

text \<open>\<open>LDR rd,=const\<close> is \<open>LDR_const\<close>; the forms with \<open>^\<close> are \<open>LDM_user\<close>, which loads the user registers, and
  \<open>LDMFD_ret\<close>, which also restores the status register; \<open>MOVS_pc_lr\<close> returns from an exception; \<open>LDMIA\<close> and \<open>STMIA\<close>
  transfer one register and \<open>LDRB_post\<close> and \<open>STRB_post\<close> one byte, all four with the base register moved on;
  \<open>STRB_pre\<close> stores a byte after moving the base register back by one; \<open>MOV_lsr\<close> shifts right.\<close>

datatype instr =
    MOV nat nat
  | MOV_imm nat u32
  | ADD_imm nat nat u32
  | SUB_imm nat nat u32
  | SUB nat nat nat
  | BIC_imm nat nat u32
  | ORR_imm nat nat u32
  | LDR_const nat u32
  | LDR nat nat u32
  | MRS_cpsr nat
  | MRS_spsr nat
  | MSR_cpsr_c u32
  | MSR_cpsr nat
  | MSR_spsr nat
  | STMFD nat "nat list"
  | LDM_user nat "nat list"
  | LDMFD_ret nat "nat list"
  | MOVS_pc_lr
  | LDMIA nat nat
  | STMIA nat nat
  | LDRB_post nat nat
  | STRB_post nat nat
  | NOP
  | ADD nat nat nat
  | AND_imm nat nat u32
  | MOV_lsr nat nat nat
  | STR_imm nat nat u32
  | STRB nat nat
  | STRB_pre nat nat

text \<open>The registers of a list are stored in ascending order below the address in the base register, and
  loaded from it upwards.\<close>

fun load_regs :: "(nat \<Rightarrow> u32 \<Rightarrow> 'a arm_scheme \<Rightarrow> 'a arm_scheme) \<Rightarrow> u32 \<Rightarrow> nat list \<Rightarrow> 'a arm_scheme \<Rightarrow> 'a arm_scheme" where
  "load_regs put a [] s = s"
| "load_regs put a (n # ns) s = load_regs put (a + 4) ns (put n (load32 (mem s) a) s)"

text \<open>In user mode a write to the status register changes none of the control bits.\<close>

definition set_cpsr :: "u32 \<Rightarrow> u32 \<Rightarrow> 'a arm_scheme \<Rightarrow> 'a arm_scheme" where
  "set_cpsr fld v s =
     (let mask = (if mode_of (arm_cpsr s) = USR_MODE then fld AND 0xF0000000 else fld)
      in s\<lparr>arm_cpsr := (arm_cpsr s AND NOT mask) OR (v AND mask)\<rparr>)"

definition restore_cpsr :: "'a arm_scheme \<Rightarrow> 'a arm_scheme" where
  "restore_cpsr s = s\<lparr>arm_cpsr := arm_spsr s (mode_of (arm_cpsr s))\<rparr>"

fun exec :: "instr \<Rightarrow> 'a arm_scheme \<Rightarrow> 'a arm_scheme" where
  "exec (MOV d n) s = set_reg d (reg n s) s"
| "exec (MOV_imm d v) s = set_reg d v s"
| "exec (ADD_imm d n v) s = set_reg d (reg n s + v) s"
| "exec (SUB_imm d n v) s = set_reg d (reg n s - v) s"
| "exec (SUB d n m) s = set_reg d (reg n s - reg m s) s"
| "exec (BIC_imm d n v) s = set_reg d (reg n s AND NOT v) s"
| "exec (ORR_imm d n v) s = set_reg d (reg n s OR v) s"
| "exec (LDR_const d v) s = set_reg d v s"
| "exec (LDR d n ofs) s = set_reg d (load32 (mem s) (reg n s + ofs)) s"
| "exec (MRS_cpsr d) s = set_reg d (arm_cpsr s) s"
| "exec (MRS_spsr d) s = set_reg d (arm_spsr s (mode_of (arm_cpsr s))) s"
| "exec (MSR_cpsr_c v) s = set_cpsr 0xFF v s"
| "exec (MSR_cpsr n) s = set_cpsr 0xFFFFFFFF (reg n s) s"
| "exec (MSR_spsr n) s = s\<lparr>arm_spsr := (arm_spsr s)(mode_of (arm_cpsr s) := reg n s)\<rparr>"
| "exec (STMFD n ns) s =
     (let a = reg n s - 4 * of_nat (length ns)
      in set_reg n a (s\<lparr>mem := store_words a (map (\<lambda>k. reg k s) ns) (mem s)\<rparr>))"
| "exec (LDM_user n ns) s = load_regs (bank_upd USR_MODE) (reg n s) ns s"
| "exec (LDMFD_ret n ns) s =
     (let a = reg n s;
          s = load_regs set_reg a ns s;
          s = set_reg n (a + 4 * of_nat (length ns) + 4) s
      in restore_cpsr (s\<lparr>arm_pc := load32 (mem s) (a + 4 * of_nat (length ns))\<rparr>))"
| "exec MOVS_pc_lr s = restore_cpsr (s\<lparr>arm_pc := reg 14 s\<rparr>)"
| "exec (LDMIA n d) s = (let a = reg n s in set_reg d (load32 (mem s) a) (set_reg n (a + 4) s))"
| "exec (STMIA n d) s = (let a = reg n s in set_reg n (a + 4) (s\<lparr>mem := store32 a (reg d s) (mem s)\<rparr>))"
| "exec (LDRB_post d n) s = (let a = reg n s in set_reg d (ucast (mem s a)) (set_reg n (a + 1) s))"
| "exec (STRB_post d n) s = (let a = reg n s in set_reg n (a + 1) (s\<lparr>mem := (mem s)(a := ucast (reg d s))\<rparr>))"
| "exec NOP s = s"
| "exec (ADD d n m) s = set_reg d (reg n s + reg m s) s"
| "exec (AND_imm d n v) s = set_reg d (reg n s AND v) s"
| "exec (MOV_lsr d n k) s = set_reg d (drop_bit k (reg n s)) s"
| "exec (STR_imm d n ofs) s = s\<lparr>mem := store32 (reg n s + ofs) (reg d s) (mem s)\<rparr>"
| "exec (STRB d n) s = s\<lparr>mem := (mem s)(reg n s := ucast (reg d s))\<rparr>"
| "exec (STRB_pre d n) s = (let a = reg n s - 1 in set_reg n a (s\<lparr>mem := (mem s)(a := ucast (reg d s))\<rparr>))"

definition run :: "instr list \<Rightarrow> 'a arm_scheme \<Rightarrow> 'a arm_scheme" where
  "run is s = fold exec is s"

section \<open>Exceptions\<close>

text \<open>What the processor does when it takes an exception in front of the instruction at \<open>p\<close> (for the
  software interrupt: at the instruction at \<open>p\<close>): it saves the status register, changes to the mode of
  the exception with IRQs disabled, for an FIQ also FIQs, and puts \<open>p + 4\<close> into \<open>lr\<close>.\<close>

definition take_exception :: "u32 \<Rightarrow> u32 \<Rightarrow> u32 \<Rightarrow> 'a arm_scheme \<Rightarrow> 'a arm_scheme" where
  "take_exception md disable p s =
     (bank_upd md 14 (p + 4) s)\<lparr>arm_spsr := (arm_spsr s)(md := arm_cpsr s),
        arm_cpsr := (arm_cpsr s AND NOT 0x3F) OR disable OR md\<rparr>"

section \<open>Lemmas\<close>

lemma run_simps [simp]: "run [] s = s" "run (i # is) s = run is (exec i s)"
  by (simp_all add: run_def)

lemma run_append: "run (is @ js) s = run js (run is s)"
  by (simp add: run_def)

lemma bank_upd_simps [simp]:
  "mem (bank_upd b n v s) = mem s" "trace (bank_upd b n v s) = trace s"
  "arm_cpsr (bank_upd b n v s) = arm_cpsr s" "arm_spsr (bank_upd b n v s) = arm_spsr s"
  "arm_pc (bank_upd b n v s) = arm_pc s"
  "arm_regs (bank_upd b n v s) = (arm_regs s)(b := (arm_regs s b)(n := v))"
  by (simp_all add: bank_upd_def)

lemma load32_bytes:
  "(\<And>k. k < 4 \<Longrightarrow> m' (b + of_nat k) = m (a + of_nat k)) \<Longrightarrow> load32 m' b = load32 m a"
proof -
  assume "\<And>k. k < 4 \<Longrightarrow> m' (b + of_nat k) = m (a + of_nat k)"
  from this [of 0] this [of 1] this [of 2] this [of 3] show ?thesis by (simp add: load32_def)
qed

lemma load32_cong:
  assumes "\<And>k. k < 4 \<Longrightarrow> m' (a + of_nat k) = m (a + of_nat k)"
  shows "load32 m' a = load32 m a"
  by (rule load32_bytes) (rule assms)

lemma store32_outside: "4 \<le> a - b \<Longrightarrow> store32 b v m a = m a"
proof -
  assume le: "4 \<le> a - b"
  have "a \<noteq> b + j" if "j < 4" for j using le that by auto
  from this [of 0] this [of 1] this [of 2] this [of 3] show ?thesis by (simp add: store32_def)
qed

lemma store_words_outside:
  "4 * length ws \<le> unat (b - a) \<Longrightarrow> store_words a ws m b = m b"
proof (induction ws arbitrary: a m)
  case (Cons w ws)
  have le: "4 \<le> b - a" using Cons.prems by (simp add: word_le_nat_alt)
  have "unat (b - (a + 4)) = unat (b - a) - 4"
    using unat_sub [OF le] by (simp add: diff_diff_eq)
  then show ?case using Cons le by (simp add: store32_outside)
qed simp

lemma unat_m1: "unat (- 1 :: u32) = 4294967295"
proof -
  have "(- 1 :: u32) = 4294967295" by simp
  then show ?thesis by (simp only:) simp
qed

lemma load_store_words:
  assumes "k < length ws" "4 * length ws \<le> 2 ^ 32"
  shows "load32 (store_words a ws m) (a + 4 * of_nat k) = ws ! k"
  using assms
proof (induction ws arbitrary: a m k)
  case (Cons w ws)
  show ?case
  proof (cases k)
    case 0
    have "load32 (store_words (a + 4) ws (store32 a w m)) a = load32 (store32 a w m) a"
    proof (rule load32_cong)
      fix j :: nat assume j: "j < 4"
      have "unat (of_nat j - 4 :: u32) = 2 ^ 32 - 4 + j"
      proof -
        consider "j = 0" | "j = 1" | "j = 2" | "j = 3" using j by linarith
        then show ?thesis by cases (simp_all add: unat_m1)
      qed
      then have "4 * length ws \<le> unat (a + of_nat j - (a + 4))" using Cons.prems(2) by simp
      then show "store_words (a + 4) ws (store32 a w m) (a + of_nat j) = store32 a w m (a + of_nat j)"
        by (rule store_words_outside)
    qed
    then show ?thesis using 0 by simp
  next
    case (Suc k')
    then show ?thesis using Cons.IH [of k' "a + 4" "store32 a w m"] Cons.prems by (simp add: algebra_simps)
  qed
qed simp

end
