(* ===== verification/Exc.thy ===== *)
theory Exc
  imports Arm
begin

text \<open>
  The exception handlers of \<^verbatim>\<open>drivers/arm_exc.S\<close>. \<open>ARM_irq\<close> and \<open>ARM_fiq\<close> save the registers that a C function may
  change, with the return address and the status register, on the stack of system mode, call the C
  handler in system mode, and restore everything. \<open>ARM_swi\<close> saves the registers on the supervisor stack
  and passes the number of the software interrupt to \<open>sw_handler\<close>. The C functions are arguments; what
  the assembly relies on is that they keep the registers the procedure call standard protects and
  the frame on the stack (\<open>aapcs\<close>). The addresses of the C functions and the return addresses
  of the calls are arguments as well.
\<close>

section \<open>The code\<close>

definition ARM_int_lock_SYS :: "instr list" where
  "ARM_int_lock_SYS = [MRS_cpsr 0, MSR_cpsr_c (SYS_MODE OR NO_INT)]"

definition ARM_int_unlock_SYS :: "u32 \<Rightarrow> 'a arm_scheme \<Rightarrow> 'a arm_scheme" where
  "ARM_int_unlock_SYS key s = set_cpsr 0xFF key s"

text \<open>The macro \<open>ARM_INT_LOCK\<close> of \<^verbatim>\<open>include/arm_exc.h\<close> does the same with a register of the compiler's choice; \<open>ARM_INT_UNLOCK\<close> is
  \<open>ARM_int_unlock_SYS\<close>.\<close>

definition ARM_INT_LOCK :: "nat \<Rightarrow> instr list" where
  "ARM_INT_LOCK key = [MRS_cpsr key, MSR_cpsr_c (0x1F OR 0x80 OR 0x40)]"

lemma ARM_INT_LOCK_code: "ARM_INT_LOCK 0 = ARM_int_lock_SYS"
  by (simp add: ARM_INT_LOCK_def ARM_int_lock_SYS_def)

definition ARM_irq_entry :: "instr list" where
  "ARM_irq_entry =
     [MOV 13 0, SUB_imm 0 14 4, MOV 14 1, MRS_spsr 1,
      MSR_cpsr_c (SYS_MODE OR NO_IRQ), STMFD 13 [0, 1], STMFD 13 [2, 3, 12, 14], MOV 0 13, SUB_imm 13 13 8,
      MSR_cpsr_c (IRQ_MODE OR NO_IRQ), STMFD 0 [13, 14],
      MSR_cpsr_c (SYS_MODE OR NO_IRQ)]"

definition ARM_irq_exit :: "instr list" where
  "ARM_irq_exit =
     [MSR_cpsr_c (SYS_MODE OR NO_INT), MOV 0 13, ADD_imm 13 13 32,
      MSR_cpsr_c (IRQ_MODE OR NO_INT), MOV 13 0, LDR 0 13 28, MSR_spsr 0,
      LDM_user 13 [0, 1, 2, 3, 12, 14], NOP, LDR 14 13 24, MOVS_pc_lr]"

text \<open>The call: \<open>LDR r12,=f\<close>, \<open>MOV lr,pc\<close>, \<open>BX r12\<close>.\<close>

definition call_C :: "u32 \<Rightarrow> u32 \<Rightarrow> ('a arm_scheme \<Rightarrow> 'a arm_scheme) \<Rightarrow> 'a arm_scheme \<Rightarrow> 'a arm_scheme" where
  "call_C addr ret f s = f (run [LDR_const 12 addr, LDR_const 14 ret] s)"

definition asm_ARM_irq :: "u32 \<Rightarrow> u32 \<Rightarrow> ('a arm_scheme \<Rightarrow> 'a arm_scheme) \<Rightarrow> 'a arm_scheme \<Rightarrow> 'a arm_scheme" where
  "asm_ARM_irq addr ret bsp_irq s = run ARM_irq_exit (call_C addr ret bsp_irq (run ARM_irq_entry s))"

definition ARM_fiq_entry :: "instr list" where
  "ARM_fiq_entry =
     [MOV 13 0, SUB_imm 0 14 4, MOV 14 1, MRS_spsr 1,
      MSR_cpsr_c (SYS_MODE OR NO_INT), STMFD 13 [0, 1], STMFD 13 [2, 3, 12, 14], MOV 0 13, SUB_imm 13 13 8,
      MSR_cpsr_c (FIQ_MODE OR NO_INT), STMFD 0 [13, 14],
      MSR_cpsr_c (SYS_MODE OR NO_INT)]"

definition ARM_fiq_exit :: "instr list" where
  "ARM_fiq_exit =
     [MOV 0 13, ADD_imm 13 13 32,
      MSR_cpsr_c (FIQ_MODE OR NO_INT), MOV 13 0, LDR 0 13 28, MSR_spsr 0,
      LDM_user 13 [0, 1, 2, 3, 12, 14], NOP, LDR 14 13 24, MOVS_pc_lr]"

definition asm_ARM_fiq :: "u32 \<Rightarrow> u32 \<Rightarrow> ('a arm_scheme \<Rightarrow> 'a arm_scheme) \<Rightarrow> 'a arm_scheme \<Rightarrow> 'a arm_scheme" where
  "asm_ARM_fiq addr ret bsp_fiq s = run ARM_fiq_exit (call_C addr ret bsp_fiq (run ARM_fiq_entry s))"

definition ARM_swi_entry :: "instr list" where
  "ARM_swi_entry = [STMFD 13 [0, 1, 2, 3, 4, 5, 6, 7, 8, 9, 10, 11, 12, 14], LDR 0 14 (- 4), BIC_imm 0 0 0xff000000]"

definition asm_ARM_swi :: "u32 \<Rightarrow> ('a arm_scheme \<Rightarrow> 'a arm_scheme) \<Rightarrow> 'a arm_scheme \<Rightarrow> 'a arm_scheme" where
  "asm_ARM_swi ret sw_handler s =
     run [LDMFD_ret 13 [0, 1, 2, 3, 4, 5, 6, 7, 8, 9, 10, 11, 12]]
       (sw_handler (run [LDR_const 14 ret] (run ARM_swi_entry s)))"

text \<open>\<open>ARM_except\<close>, to which the other exceptions branch with the word at the label of their message in
  \<open>r0\<close>; \<open>BSP_abort\<close> does not return.\<close>

definition asm_ARM_except :: "u32 \<Rightarrow> u32 \<Rightarrow> u32 \<Rightarrow> ('a arm_scheme \<Rightarrow> 'a arm_scheme) \<Rightarrow> 'a arm_scheme \<Rightarrow> 'a arm_scheme" where
  "asm_ARM_except label addr ret bsp_abort s =
     (let s = set_reg 0 (load32 (mem s) label) s
      in call_C addr ret bsp_abort (run [SUB_imm 1 14 4, MSR_cpsr_c (SYS_MODE OR NO_INT)] s))"

section \<open>What the C functions keep\<close>

text \<open>A C function called in the mode of \<open>s\<close>, with a frame of \<open>n\<close> bytes above the stack pointer: it
  returns in the same mode and keeps registers 4 to 11, the stack pointer and the frame, and the banks
  and saved status registers in \<open>keep\<close>.\<close>

definition aapcs :: "nat \<Rightarrow> u32 set \<Rightarrow> 'a arm_scheme \<Rightarrow> 'a arm_scheme \<Rightarrow> bool" where
  "aapcs n keep s s' \<longleftrightarrow>
     mode_of (arm_cpsr s') = mode_of (arm_cpsr s) \<and>
     (\<forall>k \<in> {4..11} \<union> {13}. reg k s' = reg k s) \<and>
     (\<forall>b \<in> keep. arm_regs s' b = arm_regs s b \<and> arm_spsr s' b = arm_spsr s b) \<and>
     (\<forall>k < n. mem s' (reg 13 s + of_nat k) = mem s (reg 13 s + of_nat k))"

lemma mode_of_simps [simp]:
  "mode_of ((c AND - 256) OR (v AND 0xFF)) = v AND 0x1F"
  "mode_of ((c AND - 64) OR v) = (c AND - 64 AND 0x1F) OR (v AND 0x1F)"
  unfolding mode_of_def bit.conj_disj_distrib2 and.assoc by simp_all

lemma set_cpsr_c [simp]:
  "mode_of (arm_cpsr s) \<noteq> 0x10 \<Longrightarrow> set_cpsr 0xFF v s = s\<lparr>arm_cpsr := (arm_cpsr s AND - 256) OR (v AND 0xFF)\<rparr>"
  by (simp add: set_cpsr_def)

text \<open>The pieces that \<open>ARM_irq\<close> and \<open>ARM_fiq\<close> share.\<close>

definition save_context :: "u32 \<Rightarrow> u32 \<Rightarrow> instr list" where
  "save_context md dis =
     [MOV 13 0, SUB_imm 0 14 4, MOV 14 1, MRS_spsr 1,
      MSR_cpsr_c (SYS_MODE OR dis), STMFD 13 [0, 1], STMFD 13 [2, 3, 12, 14], MOV 0 13, SUB_imm 13 13 8,
      MSR_cpsr_c (md OR dis), STMFD 0 [13, 14],
      MSR_cpsr_c (SYS_MODE OR dis)]"

definition restore_context :: "u32 \<Rightarrow> instr list" where
  "restore_context md =
     [MOV 0 13, ADD_imm 13 13 32,
      MSR_cpsr_c (md OR NO_INT), MOV 13 0, LDR 0 13 28, MSR_spsr 0,
      LDM_user 13 [0, 1, 2, 3, 12, 14], NOP, LDR 14 13 24, MOVS_pc_lr]"

lemma save_A:
  assumes "mode_of (arm_cpsr s) = md" "md = 0x12 \<or> md = 0x11"
  shows "run [MOV 13 0, SUB_imm 0 14 4, MOV 14 1, MRS_spsr 1] s =
    s\<lparr>arm_regs := (arm_regs s)(md := (arm_regs s md)(13 := arm_regs s 0x10 0, 14 := arm_regs s 0x10 1),
        0x10 := (arm_regs s 0x10)(0 := arm_regs s md 14 - 4, 1 := arm_spsr s md))\<rparr>"
  using assms by (auto simp: reg_def set_reg_def bank_def bank_upd_def fun_eq_iff)

lemma save_B:
  assumes "mode_of (arm_cpsr s) = 0x1F" "u = arm_regs s 0x10" "sp = u 13 - 24"
  shows "run [STMFD 13 [0, 1], STMFD 13 [2, 3, 12, 14], MOV 0 13, SUB_imm 13 13 8] s =
    s\<lparr>arm_regs := (arm_regs s)(0x10 := u(0 := sp, 13 := sp - 8)),
      mem := store_words sp [u 2, u 3, u 12, u 14] (store_words (sp + 16) [u 0, u 1] (mem s))\<rparr>"
  using assms by (simp add: reg_def set_reg_def bank_def bank_upd_def fun_eq_iff Let_def)

lemma save_C:
  assumes "mode_of (arm_cpsr s) = md" "md = 0x12 \<or> md = 0x11" "a = arm_regs s 0x10 0"
  shows "run [STMFD 0 [13, 14]] s =
    s\<lparr>arm_regs := (arm_regs s)(0x10 := (arm_regs s 0x10)(0 := a - 8)),
      mem := store_words (a - 8) [arm_regs s md 13, arm_regs s md 14] (mem s)\<rparr>"
  using assms by (auto simp: reg_def set_reg_def bank_def bank_upd_def fun_eq_iff Let_def)

lemma msr_twice: "((c AND - 256) OR (v AND 0xFF)) AND - 256 = c AND (- 256 :: u32)"
  unfolding bit.conj_disj_distrib2 and.assoc by simp

lemma save_context_run:
  assumes md: "mode_of (arm_cpsr s) = md" "md = 0x12 \<or> md = 0x11" and dis: "dis = 0x80 \<or> dis = 0xC0"
    and u: "u = arm_regs s 0x10" and sp: "sp = u 13 - 32"
  shows "run (save_context md dis) s =
    s\<lparr>arm_regs := (arm_regs s)(md := (arm_regs s md)(13 := u 0, 14 := u 1), 0x10 := u(1 := arm_spsr s md, 13 := sp, 0 := sp)),
      mem := store_words sp [u 0, u 1] (store_words (sp + 8) [u 2, u 3, u 12, u 14]
        (store_words (sp + 24) [arm_regs s md 14 - 4, arm_spsr s md] (mem s))),
      arm_cpsr := (arm_cpsr s AND - 256) OR ((0x1F OR dis) AND 0xFF)\<rparr>" (is "_ = ?r")
proof -
  define s1 where "s1 = exec (MSR_cpsr_c (0x1F OR dis)) (run [MOV 13 0, SUB_imm 0 14 4, MOV 14 1, MRS_spsr 1] s)"
  define s2 where "s2 = exec (MSR_cpsr_c (md OR dis)) (run [STMFD 13 [0, 1], STMFD 13 [2, 3, 12, 14], MOV 0 13, SUB_imm 13 13 8] s1)"
  have priv: "mode_of (arm_cpsr s) \<noteq> 0x10" using md by auto
  have modes: "(0x1F OR dis) AND 0x1F = (0x1F :: u32)" "(md OR dis) AND 0x1F = md" using md(2) dis by auto
  have 1: "s1 = s\<lparr>arm_regs := (arm_regs s)(md := (arm_regs s md)(13 := u 0, 14 := u 1),
        0x10 := u(0 := arm_regs s md 14 - 4, 1 := arm_spsr s md)),
      arm_cpsr := (arm_cpsr s AND - 256) OR ((0x1F OR dis) AND 0xFF)\<rparr>"
    unfolding s1_def save_A [OF md] using priv by (simp add: u)
  have m1: "mode_of (arm_cpsr s1) = 0x1F" by (simp add: 1 modes)
  have 2: "s2 = s\<lparr>arm_regs := (arm_regs s)(md := (arm_regs s md)(13 := u 0, 14 := u 1),
        0x10 := u(1 := arm_spsr s md, 0 := sp + 8, 13 := sp)),
      mem := store_words (sp + 8) [u 2, u 3, u 12, u 14]
        (store_words (sp + 24) [arm_regs s md 14 - 4, arm_spsr s md] (mem s)),
      arm_cpsr := (arm_cpsr s AND - 256) OR ((md OR dis) AND 0xFF)\<rparr>"
    unfolding s2_def save_B [OF m1 refl refl] using m1 by (simp add: 1 sp msr_twice)
  have m2: "mode_of (arm_cpsr s2) = md" by (simp add: 2 modes)
  have "run (save_context md dis) s = exec (MSR_cpsr_c (0x1F OR dis)) (run [STMFD 0 [13, 14]] s2)"
    by (simp only: save_context_def s1_def s2_def run_simps SYS_MODE_def)
  also have "\<dots> = ?r"
    unfolding save_C [OF m2 md(2) refl] using m2 md(2) by (auto simp: 2 msr_twice)
  finally show ?thesis .
qed

lemma restore_A:
  assumes "mode_of (arm_cpsr s) = md" "md = 0x12 \<or> md = 0x11" "a = arm_regs s 0x10 0"
  shows "run [MOV 13 0, LDR 0 13 28, MSR_spsr 0] s =
    s\<lparr>arm_regs := (arm_regs s)(md := (arm_regs s md)(13 := a), 0x10 := (arm_regs s 0x10)(0 := load32 (mem s) (a + 28))),
      arm_spsr := (arm_spsr s)(md := load32 (mem s) (a + 28))\<rparr>"
  using assms by (elim disjE) (simp_all add: reg_def set_reg_def bank_def bank_upd_def)

lemma restore_B:
  assumes "mode_of (arm_cpsr s) = md" "md = 0x12 \<or> md = 0x11" "a = arm_regs s md 13"
  shows "run [LDM_user 13 [0, 1, 2, 3, 12, 14], NOP] s =
    s\<lparr>arm_regs := (arm_regs s)(0x10 := (arm_regs s 0x10)(0 := load32 (mem s) a, 1 := load32 (mem s) (a + 4),
        2 := load32 (mem s) (a + 8), 3 := load32 (mem s) (a + 12), 12 := load32 (mem s) (a + 16), 14 := load32 (mem s) (a + 20)))\<rparr>"
  using assms by (elim disjE) (simp_all add: reg_def bank_def bank_upd_def add.assoc)

lemma restore_C:
  assumes "mode_of (arm_cpsr s) = md" "md = 0x12 \<or> md = 0x11" "a = arm_regs s md 13"
  shows "run [LDR 14 13 24, MOVS_pc_lr] s =
    s\<lparr>arm_regs := (arm_regs s)(md := (arm_regs s md)(14 := load32 (mem s) (a + 24))),
      arm_cpsr := arm_spsr s md, arm_pc := load32 (mem s) (a + 24)\<rparr>"
  using assms by (elim disjE) (simp_all add: reg_def set_reg_def bank_def bank_upd_def restore_cpsr_def)

lemma restore_context_run:
  assumes sys: "mode_of (arm_cpsr t) = 0x1F" and md: "md = 0x12 \<or> md = 0x11"
    and u: "u = arm_regs t 0x10" and sp: "sp = u 13" and w: "w = (\<lambda>k. load32 (mem t) (sp + k))"
  shows "run (restore_context md) t =
    t\<lparr>arm_regs := (arm_regs t)(
        0x10 := u(13 := sp + 32, 0 := w 0, 1 := w 4, 2 := w 8, 3 := w 12, 12 := w 16, 14 := w 20),
        md := (arm_regs t md)(13 := sp, 14 := w 24)),
      arm_spsr := (arm_spsr t)(md := w 28), arm_cpsr := w 28, arm_pc := w 24\<rparr>"
proof -
  define t1 where "t1 = exec (MSR_cpsr_c (md OR NO_INT)) (run [MOV 0 13, ADD_imm 13 13 32] t)"
  have modes: "(md OR 0xC0) AND 0x1F = md" using md by auto
  have 1: "t1 = t\<lparr>arm_regs := (arm_regs t)(0x10 := u(0 := sp, 13 := sp + 32)),
      arm_cpsr := (arm_cpsr t AND - 256) OR ((md OR 0xC0) AND 0xFF)\<rparr>"
    using sys by (simp add: t1_def reg_def set_reg_def bank_def bank_upd_def u sp fun_upd_twist)
  have m1: "mode_of (arm_cpsr t1) = md" by (simp add: 1 modes)
  have f: "arm_regs t1 md = arm_regs t md" "arm_regs t1 0x10 = u(0 := sp, 13 := sp + 32)"
    "mem t1 = mem t" "arm_spsr t1 = arm_spsr t" using md by (auto simp: 1)
  define t2 where "t2 = run [MOV 13 0, LDR 0 13 28, MSR_spsr 0] t1"
  have 2: "t2 = t1\<lparr>arm_regs := (arm_regs t1)(md := (arm_regs t md)(13 := sp), 0x10 := u(13 := sp + 32, 0 := w 28)),
      arm_spsr := (arm_spsr t)(md := w 28)\<rparr>"
    unfolding t2_def restore_A [OF m1 md refl] f by (simp add: w fun_upd_twist)
  have g: "mode_of (arm_cpsr t2) = md" "arm_regs t2 md 13 = sp" "mem t2 = mem t"
    "arm_regs t2 0x10 = u(13 := sp + 32, 0 := w 28)" "arm_regs t2 md = (arm_regs t md)(13 := sp)" "arm_spsr t2 md = w 28"
    using m1 md f by (auto simp: 2)
  define t3 where "t3 = run [LDM_user 13 [0, 1, 2, 3, 12, 14], NOP] t2"
  have 3: "t3 = t2\<lparr>arm_regs := (arm_regs t2)(
      0x10 := u(13 := sp + 32, 0 := w 0, 1 := w 4, 2 := w 8, 3 := w 12, 12 := w 16, 14 := w 20))\<rparr>"
    unfolding t3_def restore_B [OF g(1) md refl] g by (simp add: w)
  have h: "mode_of (arm_cpsr t3) = md" "arm_regs t3 md 13 = sp" "mem t3 = mem t"
    "arm_regs t3 md = (arm_regs t md)(13 := sp)" "arm_spsr t3 md = w 28"
    using g md by (auto simp: 3)
  have "run (restore_context md) t = run [LDR 14 13 24, MOVS_pc_lr] t3"
    by (simp only: restore_context_def t1_def t2_def t3_def run_simps)
  also have "\<dots> = t3\<lparr>arm_regs := (arm_regs t3)(md := (arm_regs t md)(13 := sp, 14 := w 24)),
      arm_cpsr := w 28, arm_pc := w 24\<rparr>"
    unfolding restore_C [OF h(1) md refl] h by (simp add: w)
  finally show ?thesis using md by (elim disjE) (simp_all add: 1 2 3 fun_upd_twist)
qed

lemma frame_words:
  assumes "m = store_words sp [w0, w1] (store_words (sp + 8) [w2, w3, w4, w5] (store_words (sp + 24) [w6, w7] m0))"
  shows "load32 m sp = w0" "load32 m (sp + 4) = w1" "load32 m (sp + 8) = w2" "load32 m (sp + 12) = w3"
    "load32 m (sp + 16) = w4" "load32 m (sp + 20) = w5" "load32 m (sp + 24) = w6" "load32 m (sp + 28) = w7"
  by (simp_all add: assms load32_store32_other add.assoc)

lemma frame_kept:
  assumes "\<forall>k < 32. m' (sp + of_nat k) = m (sp + of_nat k)" and "n \<le> 28"
  shows "load32 m' (sp + of_nat n) = load32 m (sp + of_nat n)"
proof (rule load32_cong)
  fix k :: nat assume "k < 4"
  then show "m' (sp + of_nat n + of_nat k) = m (sp + of_nat n + of_nat k)"
    using assms(1) [rule_format, of "n + k"] assms(2) by (simp add: add.assoc)
qed

lemma aapcs_cpsr:
  assumes "aapcs n keep c t" "mode_of v = mode_of (arm_cpsr c)"
  shows "aapcs n keep c (t\<lparr>arm_cpsr := v\<rparr>)"
  using assms unfolding aapcs_def reg_def by auto

text \<open>The state in which \<open>ARM_irq\<close> and \<open>ARM_fiq\<close> call the C handler.\<close>

definition handler_entry :: "u32 \<Rightarrow> u32 \<Rightarrow> u32 \<Rightarrow> u32 \<Rightarrow> u32 \<Rightarrow> 'a arm_scheme \<Rightarrow> 'a arm_scheme" where
  "handler_entry md dis addr ret p s =
     run [LDR_const 12 addr, LDR_const 14 ret] (run (save_context md dis) (take_exception md dis p s))"

lemma handler_entry_state:
  assumes md: "md = 0x12 \<or> md = 0x11" and dis: "dis = 0x80 \<or> dis = 0xC0"
    and u: "u = arm_regs s 0x10" and sp: "sp = u 13 - 32" and c: "c = handler_entry md dis addr ret p s"
  shows "mode_of (arm_cpsr c) = 0x1F" and "arm_cpsr c AND 0x80 = 0x80"
    and "arm_regs c 0x10 = u(1 := arm_cpsr s, 13 := sp, 0 := sp, 12 := addr, 14 := ret)"
    and "b \<noteq> 0x10 \<Longrightarrow> b \<noteq> md \<Longrightarrow> arm_regs c b = arm_regs s b"
    and "b \<noteq> md \<Longrightarrow> arm_spsr c b = arm_spsr s b"
    and "trace c = trace s"
    and "mem c = store_words sp [u 0, u 1] (store_words (sp + 8) [u 2, u 3, u 12, u 14]
        (store_words (sp + 24) [p, arm_cpsr s] (mem s)))"
proof -
  let ?e = "take_exception md dis p s"
  have m: "mode_of (arm_cpsr ?e) = md" using md dis by (auto simp: take_exception_def)
  have e: "arm_regs ?e 0x10 = u" "arm_regs ?e md 14 = p + 4" "arm_spsr ?e md = arm_cpsr s" "mem ?e = mem s" "trace ?e = trace s"
    using md by (auto simp: take_exception_def u)
  have e': "arm_regs ?e b = arm_regs s b" "arm_spsr ?e b = arm_spsr s b" if "b \<noteq> md" for b
    using that by (simp_all add: take_exception_def)
  note r = save_context_run [OF m md dis e(1) [symmetric] sp, unfolded e]
  have sys: "(0x1F OR dis) AND 0x1F = (0x1F :: u32)" "(0x1F OR dis) AND 0xFF AND 0x80 = (0x80 :: u32)" using dis by auto
  have ms: "mode_of (arm_cpsr (run (save_context md dis) ?e)) = 0x1F" by (simp add: r sys)
  have c': "c = (run (save_context md dis) ?e)\<lparr>arm_regs := (arm_regs (run (save_context md dis) ?e))
      (0x10 := (arm_regs (run (save_context md dis) ?e) 0x10)(12 := addr, 14 := ret))\<rparr>"
    using ms by (simp add: c handler_entry_def reg_def set_reg_def bank_def bank_upd_def)
  show "mode_of (arm_cpsr c) = 0x1F" using ms by (simp add: c')
  show "arm_cpsr c AND 0x80 = 0x80" using sys(2) by (simp add: c' r bit.conj_disj_distrib2 and.assoc)
  show "arm_regs c 0x10 = u(1 := arm_cpsr s, 13 := sp, 0 := sp, 12 := addr, 14 := ret)" by (simp add: c' r)
  show "b \<noteq> 0x10 \<Longrightarrow> b \<noteq> md \<Longrightarrow> arm_regs c b = arm_regs s b" by (simp add: c' r e')
  show "b \<noteq> md \<Longrightarrow> arm_spsr c b = arm_spsr s b" by (simp add: c' r e')
  show "trace c = trace s" by (simp add: c' r e)
  show "mem c = store_words sp [u 0, u 1] (store_words (sp + 8) [u 2, u 3, u 12, u 14]
        (store_words (sp + 24) [p, arm_cpsr s] (mem s)))" by (simp add: c' r)
qed

lemma bank_thread:
  "md \<in> {USR_MODE, SYS_MODE} \<union> keep \<Longrightarrow> FIQ_MODE \<notin> keep \<Longrightarrow> bank md n = USR_MODE \<or> bank md n \<in> keep"
  by (auto simp: bank_def)

lemma context_restored:
  assumes md: "md = 0x12 \<or> md = 0x11" and dis: "dis = 0x80 \<or> dis = 0xC0" and th: "mode_of (arm_cpsr s) \<in> {USR_MODE, SYS_MODE} \<union> keep" "md \<notin> keep" "0x10 \<notin> keep" "FIQ_MODE \<notin> keep"
    and c: "c = handler_entry md dis addr ret p s" and C: "aapcs 32 keep c t"
    and s': "s' = run (restore_context md) t"
  shows "arm_pc s' = p" "arm_cpsr s' = arm_cpsr s" "mem s' = mem t" "trace s' = trace t"
    and "n < 15 \<Longrightarrow> reg n s' = reg n s"
    and "n < 15 \<Longrightarrow> arm_regs s' USR_MODE n = arm_regs s USR_MODE n"
    and "b \<in> keep \<Longrightarrow> arm_regs s' b = arm_regs s b \<and> arm_spsr s' b = arm_spsr s b"
proof -
  define u where "u = arm_regs s 0x10"
  define sp where "sp = u 13 - 32"
  have sp32: "sp + 32 = u 13" by (simp add: sp_def)
  note en = handler_entry_state [OF md dis u_def sp_def c]
  have sys: "mode_of (arm_cpsr t) = 0x1F" using C en(1) by (simp add: aapcs_def)
  have regt: "arm_regs t 0x10 k = u k" if "k \<in> {4..11}" for k
    using C that en(1,3) sys by (auto simp: aapcs_def reg_def bank_def)
  have spt: "arm_regs t 0x10 13 = sp" using C en(1,3) sys by (simp add: aapcs_def reg_def bank_def)
  have fr: "\<forall>k < 32. mem t (sp + of_nat k) = mem c (sp + of_nat k)"
    using C en(1,3) by (simp add: aapcs_def reg_def bank_def)
  note w = frame_words [OF en(7)]
  have l: "load32 (mem t) sp = u 0" "load32 (mem t) (sp + 4) = u 1" "load32 (mem t) (sp + 8) = u 2"
    "load32 (mem t) (sp + 12) = u 3" "load32 (mem t) (sp + 16) = u 12" "load32 (mem t) (sp + 20) = u 14"
    "load32 (mem t) (sp + 24) = p" "load32 (mem t) (sp + 28) = arm_cpsr s"
    using w frame_kept [OF fr, of 0] frame_kept [OF fr, of 4] frame_kept [OF fr, of 8] frame_kept [OF fr, of 12]
      frame_kept [OF fr, of 16] frame_kept [OF fr, of 20] frame_kept [OF fr, of 24] frame_kept [OF fr, of 28] by simp_all
  note r = restore_context_run [OF sys md refl refl refl, unfolded spt, folded s']
  show "arm_pc s' = p" "arm_cpsr s' = arm_cpsr s" "mem s' = mem t" "trace s' = trace t"
    by (simp_all add: r l)
  show usr: "n < 15 \<Longrightarrow> arm_regs s' USR_MODE n = arm_regs s USR_MODE n" for n
    using md regt [of n] l sp32 by (auto simp: r u_def)
  show bk: "b \<in> keep \<Longrightarrow> arm_regs s' b = arm_regs s b \<and> arm_spsr s' b = arm_spsr s b" for b
    using th C en(4,5) [of b] by (auto simp: r aapcs_def)
  show "n < 15 \<Longrightarrow> reg n s' = reg n s"
    using bank_thread [OF th(1), of n] th(4) usr [of n] bk [of "bank (mode_of (arm_cpsr s)) n"]
    unfolding reg_def \<open>arm_cpsr s' = arm_cpsr s\<close> by metis
qed

section \<open>The software interrupt\<close>

lemma swi_store:
  assumes "mode_of (arm_cpsr s) = 0x13" "sp = arm_regs s 0x13 13 - 56" "u = arm_regs s 0x10"
    and "ws = [u 0, u 1, u 2, u 3, u 4, u 5, u 6, u 7, u 8, u 9, u 10, u 11, u 12, arm_regs s 0x13 14]"
  shows "run [STMFD 13 [0, 1, 2, 3, 4, 5, 6, 7, 8, 9, 10, 11, 12, 14]] s =
    s\<lparr>mem := store_words sp ws (mem s), arm_regs := (arm_regs s)(0x13 := (arm_regs s 0x13)(13 := sp))\<rparr>"
  using assms by (simp add: reg_def set_reg_def bank_def bank_upd_def Let_def)

lemma swi_load:
  assumes "mode_of (arm_cpsr t) = 0x13" "sp = arm_regs t 0x13 13" "w = (\<lambda>k. load32 (mem t) (sp + 4 * of_nat k))"
  shows "run [LDMFD_ret 13 [0, 1, 2, 3, 4, 5, 6, 7, 8, 9, 10, 11, 12]] t =
    t\<lparr>arm_regs := (arm_regs t)(0x10 := (arm_regs t 0x10)(0 := w 0, 1 := w 1, 2 := w 2, 3 := w 3, 4 := w 4, 5 := w 5,
        6 := w 6, 7 := w 7, 8 := w 8, 9 := w 9, 10 := w 10, 11 := w 11, 12 := w 12),
        0x13 := (arm_regs t 0x13)(13 := sp + 56)),
      arm_pc := w 13, arm_cpsr := arm_spsr t 0x13\<rparr>"
  using assms by (simp add: reg_def set_reg_def bank_def bank_upd_def Let_def restore_cpsr_def add.assoc)

text \<open>The state in which \<open>ARM_swi\<close> calls \<open>sw_handler\<close>.\<close>

definition swi_entry :: "u32 \<Rightarrow> u32 \<Rightarrow> 'a arm_scheme \<Rightarrow> 'a arm_scheme" where
  "swi_entry ret p s = run [LDR_const 14 ret] (run ARM_swi_entry (take_exception SVC_MODE NO_IRQ p s))"

lemma swi_entry_state:
  assumes u: "u = arm_regs s 0x10" and sp: "sp = arm_regs s 0x13 13 - 56" and c: "c = swi_entry ret p s"
    and ws: "ws = [u 0, u 1, u 2, u 3, u 4, u 5, u 6, u 7, u 8, u 9, u 10, u 11, u 12, p + 4]"
  shows "mode_of (arm_cpsr c) = 0x13" "arm_cpsr c AND 0x80 = 0x80" "mem c = store_words sp ws (mem s)" "trace c = trace s"
    and "arm_regs c 0x10 = u(0 := load32 (store_words sp ws (mem s)) p AND NOT 0xff000000)"
    and "arm_regs c 0x13 13 = sp" "b \<notin> {0x10, 0x13} \<Longrightarrow> arm_regs c b = arm_regs s b"
    and "arm_spsr c = (arm_spsr s)(0x13 := arm_cpsr s)"
proof -
  let ?e = "take_exception 0x13 0x80 p s"
  have m: "mode_of (arm_cpsr ?e) = 0x13" by (simp add: take_exception_def)
  have e: "arm_regs ?e 0x10 = u" "arm_regs ?e 0x13 = (arm_regs s 0x13)(14 := p + 4)" "mem ?e = mem s" "trace ?e = trace s"
    "arm_spsr ?e = (arm_spsr s)(0x13 := arm_cpsr s)" "arm_cpsr ?e AND 0x80 = 0x80"
    by (simp_all add: take_exception_def u bit.conj_disj_distrib2 and.assoc)
  have e': "arm_regs ?e b = arm_regs s b" if "b \<noteq> 0x13" for b using that by (simp add: take_exception_def)
  define s1 where "s1 = run [STMFD 13 [0, 1, 2, 3, 4, 5, 6, 7, 8, 9, 10, 11, 12, 14]] ?e"
  have s1: "s1 = ?e\<lparr>mem := store_words sp ws (mem s), arm_regs := (arm_regs ?e)(0x13 := (arm_regs s 0x13)(13 := sp, 14 := p + 4))\<rparr>"
    unfolding s1_def swi_store [OF m refl refl refl] e by (simp add: sp ws fun_upd_twist)
  have "mode_of (arm_cpsr s1) = 0x13" by (simp add: s1 m)
  then have c': "c = s1\<lparr>arm_regs := (arm_regs s1)(0x10 := u(0 := load32 (store_words sp ws (mem s)) p AND NOT 0xff000000),
      0x13 := (arm_regs s1 0x13)(14 := ret))\<rparr>"
    unfolding c swi_entry_def ARM_swi_entry_def SVC_MODE_def NO_IRQ_def run_simps s1_def [unfolded run_simps, symmetric]
    by (simp add: reg_def set_reg_def bank_def bank_upd_def s1 e)
  show "mode_of (arm_cpsr c) = 0x13" "arm_cpsr c AND 0x80 = 0x80" "mem c = store_words sp ws (mem s)" "trace c = trace s"
    "arm_regs c 0x13 13 = sp" "arm_spsr c = (arm_spsr s)(0x13 := arm_cpsr s)"
    by (simp_all add: c' s1 m e)
  show "b \<notin> {0x10, 0x13} \<Longrightarrow> arm_regs c b = arm_regs s b" by (simp add: c' s1 e')
  show "arm_regs c 0x10 = u(0 := load32 (store_words sp ws (mem s)) p AND NOT 0xff000000)" by (simp add: c')
qed

lemma swi_restored:
  assumes th: "mode_of (arm_cpsr s) = 0x10 \<or> mode_of (arm_cpsr s) = 0x1F" and c: "c = swi_entry ret p s"
    and C: "aapcs 56 {} c t" "arm_spsr t SVC_MODE = arm_spsr c SVC_MODE"
      "\<forall>k \<in> {13, 14}. arm_regs t USR_MODE k = arm_regs c USR_MODE k"
    and s': "s' = asm_ARM_swi ret f (take_exception SVC_MODE NO_IRQ p s)" and t: "t = f c"
  shows "arm_pc s' = p + 4" "arm_cpsr s' = arm_cpsr s" "mem s' = mem t" "trace s' = trace t"
    and "n < 15 \<Longrightarrow> reg n s' = reg n s" and "arm_regs s' SVC_MODE 13 = arm_regs s SVC_MODE 13"
proof -
  define u where "u = arm_regs s 0x10"
  define sp where "sp = arm_regs s 0x13 13 - 56"
  define ws where "ws = [u 0, u 1, u 2, u 3, u 4, u 5, u 6, u 7, u 8, u 9, u 10, u 11, u 12, p + 4]"
  have sp56: "sp + 56 = arm_regs s 0x13 13" by (simp add: sp_def)
  note en = swi_entry_state [OF u_def sp_def c ws_def]
  have svc: "mode_of (arm_cpsr t) = 0x13" using C(1) en(1) by (simp add: aapcs_def)
  have spt: "arm_regs t 0x13 13 = sp" using C(1) en(1,6) svc by (simp add: aapcs_def reg_def bank_def)
  have fr: "\<forall>k < 56. mem t (sp + of_nat k) = mem c (sp + of_nat k)"
    using C(1) en(1,6) by (simp add: aapcs_def reg_def bank_def)
  have len: "length ws = 14" by (simp add: ws_def)
  have w: "load32 (mem t) (sp + 4 * of_nat k) = ws ! k" if k: "k < 14" for k
  proof -
    have "load32 (mem t) (sp + 4 * of_nat k) = load32 (mem c) (sp + 4 * of_nat k)"
    proof (rule load32_cong)
      fix j :: nat assume "j < 4"
      then show "mem t (sp + 4 * of_nat k + of_nat j) = mem c (sp + 4 * of_nat k + of_nat j)"
        using fr [rule_format, of "4 * k + j"] k by (simp add: add.assoc)
    qed
    also have "\<dots> = ws ! k" using load_store_words [of k ws sp "mem s"] k len by (simp add: en(3))
    finally show ?thesis .
  qed
  note r = swi_load [OF svc refl refl, unfolded spt]
  have s'': "s' = run [LDMFD_ret 13 [0, 1, 2, 3, 4, 5, 6, 7, 8, 9, 10, 11, 12]] t"
    by (simp only: s' asm_ARM_swi_def t c swi_entry_def)
  note s'eq = s'' [unfolded r]
  show cp: "arm_cpsr s' = arm_cpsr s" using C(2) en(8) by (simp add: s'eq)
  show "arm_pc s' = p + 4" using w [of 13] by (simp add: s'eq ws_def)
  show "mem s' = mem t" "trace s' = trace t" "arm_regs s' SVC_MODE 13 = arm_regs s SVC_MODE 13"
    using sp56 by (simp_all add: s'eq)
  have "arm_regs s' 0x10 n = u n" if n: "n < 15" for n
  proof (cases "n < 13")
    case True
    then have "n \<in> {0, 1, 2, 3, 4, 5, 6, 7, 8, 9, 10, 11, 12}" unfolding insert_iff empty_iff by presburger
    then show ?thesis using w [of 0] w [of 1] w [of 2] w [of 3] w [of 4] w [of 5] w [of 6] w [of 7] w [of 8] w [of 9]
        w [of 10] w [of 11] w [of 12] by (auto simp: s'eq ws_def)
  next
    case False
    then have "n = 13 \<or> n = 14" using n by auto
    then show ?thesis using C(3) en(5) by (auto simp: s'eq)
  qed
  then show "n < 15 \<Longrightarrow> reg n s' = reg n s" using th by (auto simp: reg_def bank_def cp u_def)
qed

section \<open>The handlers\<close>

lemma irq_code: "ARM_irq_entry = save_context IRQ_MODE NO_IRQ"
  "ARM_irq_exit = MSR_cpsr_c (SYS_MODE OR NO_INT) # restore_context IRQ_MODE"
  by (simp_all add: ARM_irq_entry_def save_context_def ARM_irq_exit_def restore_context_def)

lemma fiq_code: "ARM_fiq_entry = save_context FIQ_MODE NO_INT" "ARM_fiq_exit = restore_context FIQ_MODE"
  by (simp_all add: ARM_fiq_entry_def save_context_def ARM_fiq_exit_def restore_context_def)

lemma aapcs_disable:
  assumes "aapcs n keep c t" "mode_of (arm_cpsr c) = SYS_MODE"
  shows "aapcs n keep c (exec (MSR_cpsr_c (SYS_MODE OR NO_INT)) t)"
proof -
  have "mode_of (arm_cpsr t) = 0x1F" using assms by (simp add: aapcs_def)
  then have "exec (MSR_cpsr_c (SYS_MODE OR NO_INT)) t = t\<lparr>arm_cpsr := (arm_cpsr t AND - 256) OR (0xDF AND 0xFF)\<rparr>" by simp
  moreover have "mode_of ((arm_cpsr t AND - 256) OR (0xDF AND 0xFF)) = mode_of (arm_cpsr c)"
    using assms(2) by (simp only: mode_of_simps) simp
  ultimately show ?thesis using aapcs_cpsr [OF assms(1)] by (simp only:)
qed

text \<open>The interrupted code goes on at \<open>p\<close> with its status register, all its registers, and the user bank and
  the banks in \<open>keep\<close>, as they were in \<open>s\<close>; memory and bus are as the handler left them, in \<open>t\<close>.\<close>

definition resumed :: "u32 \<Rightarrow> u32 set \<Rightarrow> 'a arm_scheme \<Rightarrow> 'a arm_scheme \<Rightarrow> 'a arm_scheme \<Rightarrow> bool" where
  "resumed p keep s t s' \<longleftrightarrow>
     arm_pc s' = p \<and> arm_cpsr s' = arm_cpsr s \<and>
     (\<forall>n < 15. reg n s' = reg n s \<and> arm_regs s' USR_MODE n = arm_regs s USR_MODE n) \<and>
     (\<forall>b \<in> keep. arm_regs s' b = arm_regs s b \<and> arm_spsr s' b = arm_spsr s b) \<and>
     mem s' = mem t \<and> trace s' = trace t"

lemma handler_resumed:
  assumes md: "md = 0x12 \<or> md = 0x11" and dis: "dis = 0x80 \<or> dis = 0xC0"
    and th: "mode_of (arm_cpsr s) \<in> {USR_MODE, SYS_MODE} \<union> keep" "md \<notin> keep" "0x10 \<notin> keep" "FIQ_MODE \<notin> keep"
    and c: "c = handler_entry md dis addr ret p s" and C: "aapcs 32 keep c t"
    and s': "s' = run (restore_context md) t"
  shows "mode_of (arm_cpsr c) = SYS_MODE \<and> arm_cpsr c AND NO_IRQ = NO_IRQ \<and> reg 13 c = arm_regs s USR_MODE 13 - 32 \<and>
    resumed p keep s t s'"
  using handler_entry_state(1-3) [OF md dis refl refl c] context_restored [OF assms]
  by (simp add: resumed_def reg_def bank_def)

text \<open>A thread and a handler for the examples: the thread is about to execute \<open>SWI 0x42\<close> at \<open>0x8000\<close>; the handler
  changes a scratch register and the bus.\<close>

definition demo_thread :: arm where
  "demo_thread = \<lparr>trace = [], mem = store32 0x8000 0xEF000042 (\<lambda>_. 0), arm_regs = (\<lambda>b n. if n = 13 then 0x7000 else b + of_nat n),
     arm_cpsr = 0x6000001F, arm_spsr = (\<lambda>_. 0), arm_pc = 0x8000\<rparr>"

definition demo_handler :: "arm \<Rightarrow> arm" where
  "demo_handler s = (set_reg 1 0xFFFF s)\<lparr>trace := trace s @ [Wr 0xff002000 65]\<rparr>"

lemma demo_thread_mode:
  "mode_of (arm_cpsr demo_thread) \<in> {USR_MODE, SYS_MODE, SVC_MODE, ABT_MODE, UND_MODE}"
  "mode_of (arm_cpsr demo_thread) \<in> {USR_MODE, SYS_MODE, SVC_MODE, ABT_MODE, UND_MODE, IRQ_MODE}"
  "mode_of (arm_cpsr demo_thread) \<in> {USR_MODE, SYS_MODE}"
  by (simp_all add: demo_thread_def mode_of_def)

lemma demo_outside:
  "arm_regs s SVC_MODE 13 = 0x7000 \<Longrightarrow> \<forall>k < 4. 56 \<le> unat (0x8000 + of_nat k - (arm_regs s SVC_MODE 13 - 56))"
proof (intro allI impI)
  fix k :: nat assume m: "arm_regs s SVC_MODE 13 = 0x7000" and "k < 4"
  then consider "k = 0" | "k = 1" | "k = 2" | "k = 3" by linarith
  then show "56 \<le> unat (0x8000 + of_nat k - (arm_regs s SVC_MODE 13 - 56))" by cases (simp_all only: m, simp_all)
qed

lemma demo_handler_keeps:
  "mode_of (arm_cpsr (demo_handler c)) = mode_of (arm_cpsr c)" "n \<noteq> 1 \<Longrightarrow> reg n (demo_handler c) = reg n c"
  "mem (demo_handler c) = mem c" "arm_spsr (demo_handler c) = arm_spsr c"
  "b \<noteq> 0x10 \<or> n \<noteq> 1 \<Longrightarrow> arm_regs (demo_handler c) b n = arm_regs c b n"
  by (auto simp: demo_handler_def set_reg_def reg_def bank_def)

lemma demo_handler_aapcs:
  "aapcs 32 {SVC_MODE, ABT_MODE, UND_MODE} c (demo_handler c)"
  "aapcs 32 {SVC_MODE, ABT_MODE, UND_MODE, IRQ_MODE} c (demo_handler c)"
  "aapcs 56 {} c (demo_handler c)"
  by (auto simp: aapcs_def demo_handler_keeps fun_eq_iff)

lemma irq_resumed:
  assumes th: "mode_of (arm_cpsr s) \<in> {USR_MODE, SYS_MODE} \<union> keep"
    and keep: "keep \<subseteq> {SVC_MODE, ABT_MODE, UND_MODE}"
    and c: "c = run [LDR_const 12 addr, LDR_const 14 ret] (run ARM_irq_entry (take_exception IRQ_MODE NO_IRQ p s))"
    and C: "aapcs 32 keep c (bsp_irq c)"
    and s': "s' = asm_ARM_irq addr ret bsp_irq (take_exception IRQ_MODE NO_IRQ p s)"
  shows "mode_of (arm_cpsr c) = SYS_MODE \<and> arm_cpsr c AND NO_IRQ = NO_IRQ \<and> reg 13 c = arm_regs s USR_MODE 13 - 32 \<and>
    resumed p keep s (bsp_irq c) s'"
proof -
  let ?t = "exec (MSR_cpsr_c (SYS_MODE OR NO_INT)) (bsp_irq c)"
  have c': "c = handler_entry 0x12 0x80 addr ret p s" using c unfolding handler_entry_def irq_code by simp
  have sys: "mode_of (arm_cpsr c) = SYS_MODE" using handler_entry_state(1) [OF _ _ refl refl c'] by simp
  have s'': "s' = run (restore_context 0x12) ?t"
    using s' c by (simp only: asm_ARM_irq_def call_C_def irq_code run_simps IRQ_MODE_def)
  have mt: "mem ?t = mem (bsp_irq c)" "trace ?t = trace (bsp_irq c)" by (simp_all add: set_cpsr_def Let_def)
  have k: "0x12 \<notin> keep" "0x10 \<notin> keep" "FIQ_MODE \<notin> keep" using keep by auto
  show ?thesis using handler_resumed [OF _ _ th k c' aapcs_disable [OF C sys] s''] unfolding resumed_def mt by simp
qed

text \<open>\<open>ARM_irq\<close> is transparent. Whatever mode the interrupted code runs in (user, system, supervisor, abort or
  undefined), \<open>BSP_irq\<close> is called in system mode with IRQs disabled on the interrupted stack, 32 bytes down; when it
  returns as the procedure call standard says, the interrupted code continues at the instruction it had
  reached, with its status register and all its registers, and the user and exception banks, as they were,
  and memory as \<open>BSP_irq\<close> left it.\<close>

lemma ARM_irq_transparent:
  assumes th: "mode_of (arm_cpsr s) \<in> {USR_MODE, SYS_MODE, SVC_MODE, ABT_MODE, UND_MODE}"
    and c: "c = run [LDR_const 12 addr, LDR_const 14 ret] (run ARM_irq_entry (take_exception IRQ_MODE NO_IRQ p s))"
    and C: "aapcs 32 {SVC_MODE, ABT_MODE, UND_MODE} c (bsp_irq c)"
    and s': "s' = asm_ARM_irq addr ret bsp_irq (take_exception IRQ_MODE NO_IRQ p s)"
  shows "mode_of (arm_cpsr c) = SYS_MODE \<and> arm_cpsr c AND NO_IRQ = NO_IRQ \<and> reg 13 c = arm_regs s USR_MODE 13 - 32 \<and>
    resumed p {SVC_MODE, ABT_MODE, UND_MODE} s (bsp_irq c) s'"
  using irq_resumed [OF _ order_refl c C s'] th by auto

lemma ARM_irq_transparent_example:
  "resumed 0x8000 {SVC_MODE, ABT_MODE, UND_MODE} demo_thread
     (demo_handler (run [LDR_const 12 0x100, LDR_const 14 0x200] (run ARM_irq_entry (take_exception IRQ_MODE NO_IRQ 0x8000 demo_thread))))
     (asm_ARM_irq 0x100 0x200 demo_handler (take_exception IRQ_MODE NO_IRQ 0x8000 demo_thread))"
  using ARM_irq_transparent [where bsp_irq = demo_handler and addr = "0x100" and ret = "0x200" and p = "0x8000",
    OF demo_thread_mode(1) refl demo_handler_aapcs(1) refl] by (elim conjE)

text \<open>\<open>ARM_fiq\<close> is transparent. It may also interrupt the entry of \<open>ARM_irq\<close>, which runs partly in IRQ
  mode with FIQs enabled: the banked registers of IRQ mode, in which the entry of \<open>ARM_irq\<close> keeps values, are restored as well.\<close>

lemma ARM_fiq_transparent:
  assumes th: "mode_of (arm_cpsr s) \<in> {USR_MODE, SYS_MODE, SVC_MODE, ABT_MODE, UND_MODE, IRQ_MODE}"
    and c: "c = run [LDR_const 12 addr, LDR_const 14 ret] (run ARM_fiq_entry (take_exception FIQ_MODE NO_INT p s))"
    and C: "aapcs 32 {SVC_MODE, ABT_MODE, UND_MODE, IRQ_MODE} c (bsp_fiq c)"
    and s': "s' = asm_ARM_fiq addr ret bsp_fiq (take_exception FIQ_MODE NO_INT p s)"
  shows "mode_of (arm_cpsr c) = SYS_MODE \<and> arm_cpsr c AND NO_IRQ = NO_IRQ \<and> reg 13 c = arm_regs s USR_MODE 13 - 32 \<and>
    resumed p {SVC_MODE, ABT_MODE, UND_MODE, IRQ_MODE} s (bsp_fiq c) s'"
proof -
  have c': "c = handler_entry 0x11 0xC0 addr ret p s" using c unfolding handler_entry_def fiq_code by simp
  have s'': "s' = run (restore_context 0x11) (bsp_fiq c)"
    using s' c by (simp only: asm_ARM_fiq_def call_C_def fiq_code FIQ_MODE_def)
  have th': "mode_of (arm_cpsr s) \<in> {USR_MODE, SYS_MODE} \<union> {SVC_MODE, ABT_MODE, UND_MODE, IRQ_MODE}" using th by auto
  show ?thesis using handler_resumed [OF _ _ th' _ _ _ c' C s''] by simp
qed

lemma ARM_fiq_transparent_example:
  "resumed 0x8000 {SVC_MODE, ABT_MODE, UND_MODE, IRQ_MODE} demo_thread
     (demo_handler (run [LDR_const 12 0x100, LDR_const 14 0x200] (run ARM_fiq_entry (take_exception FIQ_MODE NO_INT 0x8000 demo_thread))))
     (asm_ARM_fiq 0x100 0x200 demo_handler (take_exception FIQ_MODE NO_INT 0x8000 demo_thread))"
  using ARM_fiq_transparent [where bsp_fiq = demo_handler and addr = "0x100" and ret = "0x200" and p = "0x8000",
    OF demo_thread_mode(2) refl demo_handler_aapcs(2) refl] by (elim conjE)

lemma swi_call_state:
  assumes p: "\<forall>k < 4. 56 \<le> unat (p + of_nat k - (arm_regs s SVC_MODE 13 - 56))"
    and c: "c = run [LDR_const 14 ret] (run ARM_swi_entry (take_exception SVC_MODE NO_IRQ p s))"
  shows "mode_of (arm_cpsr c) = SVC_MODE" "arm_cpsr c AND NO_IRQ = NO_IRQ" "reg 13 c = arm_regs s SVC_MODE 13 - 56"
    "reg 0 c = load32 (mem s) p AND NOT 0xff000000" "trace c = trace s"
proof -
  define ws where "ws = [arm_regs s 0x10 0, arm_regs s 0x10 1, arm_regs s 0x10 2, arm_regs s 0x10 3, arm_regs s 0x10 4,
    arm_regs s 0x10 5, arm_regs s 0x10 6, arm_regs s 0x10 7, arm_regs s 0x10 8, arm_regs s 0x10 9, arm_regs s 0x10 10,
    arm_regs s 0x10 11, arm_regs s 0x10 12, p + 4]"
  have c': "c = swi_entry ret p s" by (simp only: c swi_entry_def)
  note en = swi_entry_state [OF refl refl c' ws_def]
  have "load32 (store_words (arm_regs s 0x13 13 - 56) ws (mem s)) p = load32 (mem s) p"
    by (rule load32_cong, rule store_words_outside) (use p in \<open>simp add: ws_def\<close>)
  then show "mode_of (arm_cpsr c) = SVC_MODE" "arm_cpsr c AND NO_IRQ = NO_IRQ" "reg 13 c = arm_regs s SVC_MODE 13 - 56"
    "reg 0 c = load32 (mem s) p AND NOT 0xff000000" "trace c = trace s"
    using en by (simp_all add: reg_def bank_def)
qed

lemma swi_resumed:
  assumes th: "mode_of (arm_cpsr s) \<in> {USR_MODE, SYS_MODE}"
    and c: "c = run [LDR_const 14 ret] (run ARM_swi_entry (take_exception SVC_MODE NO_IRQ p s))"
    and C: "aapcs 56 {} c (sw_handler c)" "arm_spsr (sw_handler c) SVC_MODE = arm_spsr c SVC_MODE"
      "\<forall>k \<in> {13, 14}. arm_regs (sw_handler c) USR_MODE k = arm_regs c USR_MODE k"
    and s': "s' = asm_ARM_swi ret sw_handler (take_exception SVC_MODE NO_IRQ p s)"
  shows "resumed (p + 4) {} s (sw_handler c) s'" "arm_regs s' SVC_MODE 13 = arm_regs s SVC_MODE 13"
proof -
  have th': "mode_of (arm_cpsr s) = 0x10 \<or> mode_of (arm_cpsr s) = 0x1F" using th by simp
  have c': "c = swi_entry ret p s" by (simp only: c swi_entry_def)
  note r = swi_restored [OF th' c' C s' refl]
  have "arm_regs s' USR_MODE n = arm_regs s USR_MODE n" if "n < 15" for n
    using r(2) r(5) [OF that] th' by (auto simp: reg_def bank_def)
  then show "resumed (p + 4) {} s (sw_handler c) s'" "arm_regs s' SVC_MODE 13 = arm_regs s SVC_MODE 13"
    using r by (simp_all add: resumed_def)
qed

text \<open>\<open>ARM_swi\<close> passes the number of the software interrupt, the low 24 bits of the instruction, to \<open>sw_handler\<close>,
  unless the instruction lies in the stack frame it pushes, with IRQs disabled and in supervisor mode; afterwards the program
  continues behind the instruction, with its status register and registers, also the result register \<open>r0\<close>, as they were.\<close>

lemma ARM_swi_call:
  assumes th: "mode_of (arm_cpsr s) \<in> {USR_MODE, SYS_MODE}"
    and p: "\<forall>k < 4. 56 \<le> unat (p + of_nat k - (arm_regs s SVC_MODE 13 - 56))"
    and c: "c = run [LDR_const 14 ret] (run ARM_swi_entry (take_exception SVC_MODE NO_IRQ p s))"
    and C: "aapcs 56 {} c (sw_handler c)" "arm_spsr (sw_handler c) SVC_MODE = arm_spsr c SVC_MODE"
      "\<forall>k \<in> {13, 14}. arm_regs (sw_handler c) USR_MODE k = arm_regs c USR_MODE k"
    and s': "s' = asm_ARM_swi ret sw_handler (take_exception SVC_MODE NO_IRQ p s)"
  shows "mode_of (arm_cpsr c) = SVC_MODE \<and> arm_cpsr c AND NO_IRQ = NO_IRQ \<and> reg 13 c = arm_regs s SVC_MODE 13 - 56 \<and>
    reg 0 c = load32 (mem s) p AND NOT 0xff000000 \<and>
    resumed (p + 4) {} s (sw_handler c) s' \<and> arm_regs s' SVC_MODE 13 = arm_regs s SVC_MODE 13"
  using swi_call_state [OF p c] swi_resumed [OF th c C s'] by blast

lemma ARM_swi_call_example:
  "let c = run [LDR_const 14 0x200] (run ARM_swi_entry (take_exception SVC_MODE NO_IRQ 0x8000 demo_thread))
   in reg 0 c = 0x42 \<and>
      resumed 0x8004 {} demo_thread (demo_handler c)
        (asm_ARM_swi 0x200 demo_handler (take_exception SVC_MODE NO_IRQ 0x8000 demo_thread))"
proof -
  have m: "load32 (mem demo_thread) 0x8000 = 0xEF000042" by (simp add: demo_thread_def)
  from ARM_swi_call [where sw_handler = demo_handler and ret = "0x200", OF demo_thread_mode(3) demo_outside refl demo_handler_aapcs(3) _ _ refl]
  show ?thesis by (simp only: Let_def m) (simp add: demo_handler_keeps demo_thread_def)
qed

section \<open>Locking interrupts and reporting an exception\<close>

text \<open>\<open>ARM_int_lock_SYS\<close> and \<open>ARM_int_unlock_SYS\<close> bracket a critical section of a privileged thread: in it, both IRQs and FIQs are
  disabled and the mode is system mode; unlocking with the key that locking returned gives back the mode and
  the interrupt masks, whatever the critical section did with the condition flags.\<close>

lemma ARM_int_lock_unlock:
  assumes "mode_of (arm_cpsr s) = SYS_MODE" and "arm_cpsr t AND 0xFF = arm_cpsr (run ARM_int_lock_SYS s) AND 0xFF"
  shows "arm_cpsr (run ARM_int_lock_SYS s) AND 0xFF = SYS_MODE OR NO_IRQ OR NO_FIQ \<and>
    arm_cpsr (ARM_int_unlock_SYS (reg 0 (run ARM_int_lock_SYS s)) t) AND 0xFF = arm_cpsr s AND 0xFF \<and>
    arm_cpsr (ARM_int_unlock_SYS (reg 0 (run ARM_int_lock_SYS s)) t) AND 0xFFFFFF00 = arm_cpsr t AND 0xFFFFFF00"
proof -
  have lk: "arm_cpsr (run ARM_int_lock_SYS s) = (arm_cpsr s AND - 256) OR 0xDF" "reg 0 (run ARM_int_lock_SYS s) = arm_cpsr s"
    using assms(1) by (simp_all add: ARM_int_lock_SYS_def set_reg_def reg_def bank_def)
  have l: "arm_cpsr (run ARM_int_lock_SYS s) AND 0xFF = 0xDF" by (simp add: lk bit.conj_disj_distrib2 and.assoc)
  have "mode_of (arm_cpsr t) = (arm_cpsr t AND 0xFF) AND 0x1F" by (simp add: mode_of_def and.assoc)
  then have "mode_of (arm_cpsr t) = 0x1F" using assms(2) l by simp
  then have "arm_cpsr (ARM_int_unlock_SYS (arm_cpsr s) t) = (arm_cpsr t AND - 256) OR (arm_cpsr s AND 0xFF)"
    by (simp add: ARM_int_unlock_SYS_def)
  then show ?thesis unfolding lk(2) using l by (simp add: bit.conj_disj_distrib2 and.assoc)
qed

lemma ARM_int_lock_unlock_example:
  "arm_cpsr (ARM_int_unlock_SYS (reg 0 (run ARM_int_lock_SYS demo_thread)) (run ARM_int_lock_SYS demo_thread)) AND 0xFF = 0x1F"
  using ARM_int_lock_unlock [of demo_thread "run ARM_int_lock_SYS demo_thread"]
  by (simp add: demo_thread_def mode_of_def)

text \<open>\<open>ARM_reset\<close>, \<open>ARM_undef\<close>, \<open>ARM_pAbort\<close>, \<open>ARM_dAbort\<close> and \<open>ARM_reserved\<close> reach \<open>BSP_abort\<close> in system mode with IRQs and FIQs disabled. The
  first argument is the word stored at the label of the message, so the first four of its characters, and not
  the address of the message; the second is the return address of the exception, less 4.\<close>

lemma ARM_except_arguments:
  assumes "mode_of (arm_cpsr s) \<in> {SVC_MODE, ABT_MODE, UND_MODE}"
  obtains c where "asm_ARM_except label addr ret bsp_abort s = bsp_abort c"
    and "mode_of (arm_cpsr c) = SYS_MODE" and "arm_cpsr c AND NO_INT = NO_INT" and "mem c = mem s" and "trace c = trace s"
    and "reg 0 c = load32 (mem s) label" and "reg 1 c = reg 14 s - 4"
proof
  let ?c = "run [SUB_imm 1 14 4, MSR_cpsr_c (SYS_MODE OR NO_INT), LDR_const 12 addr, LDR_const 14 ret] (set_reg 0 (load32 (mem s) label) s)"
  show "asm_ARM_except label addr ret bsp_abort s = bsp_abort ?c"
    by (simp only: asm_ARM_except_def call_C_def Let_def run_simps)
  show "mode_of (arm_cpsr ?c) = SYS_MODE" "arm_cpsr ?c AND NO_INT = NO_INT" "mem ?c = mem s" "trace ?c = trace s"
    "reg 0 ?c = load32 (mem s) label" "reg 1 ?c = reg 14 s - 4"
    using assms by (auto simp: set_reg_def reg_def bank_def mode_of_def bit.conj_disj_distrib2 and.assoc)
qed

end
