(* ===== verification/Bsp.thy ===== *)
theory Bsp
  imports Bus
begin

text \<open>
  The board support package: the interrupt controller functions and the exception vectors of
  \<^verbatim>\<open>drivers/bsp.c\<close>, the vector table that \<^verbatim>\<open>drivers/low_level_init.c\<close> builds in low memory. The addresses of the exception handlers are linker
  symbols and hence an argument. How the processor uses the table is stated by \<open>exc_target\<close>, and
  what the interrupt controller does with the writes it gets by \<open>irq_enabled\<close>, after the comments
  in \<^verbatim>\<open>bsp.c\<close>.
\<close>

section \<open>The interrupt controller functions\<close>

definition goldfish_mask_irq :: "env \<Rightarrow> u32 \<Rightarrow> 'a machine_scheme \<Rightarrow> 'a machine_scheme" where
  "goldfish_mask_irq env irq m =
     writel env irq (IO_ADDRESS GOLDFISH_INTERRUPT_BASE + GOLDFISH_INTERRUPT_DISABLE) m"

definition goldfish_unmask_irq :: "env \<Rightarrow> u32 \<Rightarrow> 'a machine_scheme \<Rightarrow> 'a machine_scheme" where
  "goldfish_unmask_irq env irq m =
     writel env irq (IO_ADDRESS GOLDFISH_INTERRUPT_BASE + GOLDFISH_INTERRUPT_ENABLE) m"

definition goldfish_disable_all_irq :: "env \<Rightarrow> 'a machine_scheme \<Rightarrow> 'a machine_scheme" where
  "goldfish_disable_all_irq env m =
     writel env 1 (IO_ADDRESS GOLDFISH_INTERRUPT_BASE + GOLDFISH_INTERRUPT_DISABLE_ALL) m"

definition goldfish_get_irq_num :: "env \<Rightarrow> 'a machine_scheme \<Rightarrow> u32 \<times> 'a machine_scheme" where
  "goldfish_get_irq_num env m =
     readl env (IO_ADDRESS GOLDFISH_INTERRUPT_BASE + GOLDFISH_INTERRUPT_NUMBER) m"

definition goldfish_irq_status :: "env \<Rightarrow> 'a machine_scheme \<Rightarrow> u32 \<times> 'a machine_scheme" where
  "goldfish_irq_status env m =
     readl env (IO_ADDRESS GOLDFISH_INTERRUPT_BASE + GOLDFISH_INTERRUPT_STATUS) m"

section \<open>Exception vectors\<close>

record handlers =
  cs3_reset :: u32
  ARM_undef :: u32
  ARM_swi :: u32
  ARM_pAbort :: u32
  ARM_dAbort :: u32
  ARM_reserved :: u32
  ARM_irq :: u32
  ARM_fiq :: u32

definition store :: "u32 \<Rightarrow> u32 \<Rightarrow> 'a machine_scheme \<Rightarrow> 'a machine_scheme" where
  "store a v m = m\<lparr>mem := store32 a v (mem m)\<rparr>"

definition BSP_init :: "env \<Rightarrow> handlers \<Rightarrow> 'a machine_scheme \<Rightarrow> 'a machine_scheme" where
  "BSP_init env hs m =
     (let int_base = IO_START + GOLDFISH_INTERRUPT_BASE;
          m = store 0x24 (ARM_undef hs) m;
          m = store 0x28 (ARM_swi hs) m;
          m = store 0x2C (ARM_pAbort hs) m;
          m = store 0x30 (ARM_dAbort hs) m;
          m = store 0x34 (ARM_reserved hs) m;
          m = store 0x38 (ARM_irq hs) m;
          m = store 0x3C (ARM_fiq hs) m
      in writel env 1 (int_base + GOLDFISH_INTERRUPT_DISABLE_ALL) m)"

text \<open>\<open>BSP_abort\<close> prints a message and spins; this is the state in which it spins.\<close>

definition BSP_abort :: "'a machine_scheme \<Rightarrow> 'a machine_scheme" where
  "BSP_abort m = printf ''=>BSP_about.\<newline>'' [] m"

definition LDR_PC_PC :: u32 where [simp]: "LDR_PC_PC = 0xE59FF000"
definition MAGIC :: u32 where [simp]: "MAGIC = 0xDEADBEEF"

text \<open>\<open>low_level_init\<close>; the test of the magic word at its end has no effect beyond a local variable.\<close>

definition low_level_init :: "handlers \<Rightarrow> 'a machine_scheme \<Rightarrow> 'a machine_scheme" where
  "low_level_init hs m =
     (let m = store 0x00 (LDR_PC_PC OR 0x18) m;
          m = store 0x04 (LDR_PC_PC OR 0x18) m;
          m = store 0x08 (LDR_PC_PC OR 0x18) m;
          m = store 0x0C (LDR_PC_PC OR 0x18) m;
          m = store 0x10 (LDR_PC_PC OR 0x18) m;
          m = store 0x14 MAGIC m;
          m = store 0x18 (LDR_PC_PC OR 0x18) m;
          m = store 0x1C (LDR_PC_PC OR 0x18) m;
          m = store 0x20 (cs3_reset hs) m;
          m = store 0x24 (ARM_undef hs) m;
          m = store 0x28 (ARM_swi hs) m;
          m = store 0x2C (ARM_pAbort hs) m;
          m = store 0x30 (ARM_dAbort hs) m;
          m = store 0x34 (ARM_reserved hs) m;
          m = store 0x38 (ARM_irq hs) m
      in store 0x3C (ARM_fiq hs) m)"

text \<open>
  What the processor does with the word at a vector: \<open>LDR pc, [pc, #imm]\<close> loads the word at the
  address of the instruction plus 8 plus the immediate into the program counter.
\<close>

definition exc_target :: "memory \<Rightarrow> u32 \<Rightarrow> u32 option" where
  "exc_target s v =
     (let instr = load32 s v
      in if instr AND 0xFFFFF000 = 0xE59FF000 then Some (load32 s (v + 8 + (instr AND 0xFFF))) else None)"

section \<open>The controller's mask\<close>

text \<open>The interrupts that are enabled after a sequence of bus accesses.\<close>

definition irq_mask_step :: "io \<Rightarrow> u32 set \<Rightarrow> u32 set" where
  "irq_mask_step e E = (case e of
       Wr a v \<Rightarrow>
         if a = IO_ADDRESS GOLDFISH_INTERRUPT_BASE + GOLDFISH_INTERRUPT_ENABLE then insert v E
         else if a = IO_ADDRESS GOLDFISH_INTERRUPT_BASE + GOLDFISH_INTERRUPT_DISABLE then E - {v}
         else if a = IO_ADDRESS GOLDFISH_INTERRUPT_BASE + GOLDFISH_INTERRUPT_DISABLE_ALL \<and> v \<noteq> 0 then {}
         else E
     | _ \<Rightarrow> E)"

definition irq_enabled :: "io list \<Rightarrow> u32 set" where
  "irq_enabled h = fold irq_mask_step h {}"

lemma irq_enabled_snoc [simp]: "irq_enabled (h @ [e]) = irq_mask_step e (irq_enabled h)"
  by (simp add: irq_enabled_def)

lemma irq_enabled_append: "irq_enabled (h @ t) = fold irq_mask_step t (irq_enabled h)"
  by (simp add: irq_enabled_def)

lemma irq_enabled_functions [simp]:
  "irq_enabled (trace (goldfish_mask_irq env i m)) = irq_enabled (trace m) - {i}"
  "irq_enabled (trace (goldfish_unmask_irq env i m)) = insert i (irq_enabled (trace m))"
  "irq_enabled (trace (goldfish_disable_all_irq env m)) = {}"
  "irq_enabled (trace (snd (goldfish_get_irq_num env m))) = irq_enabled (trace m)"
  "irq_enabled (trace (snd (goldfish_irq_status env m))) = irq_enabled (trace m)"
  by (simp_all add: goldfish_mask_irq_def goldfish_unmask_irq_def goldfish_disable_all_irq_def
      goldfish_get_irq_num_def goldfish_irq_status_def irq_mask_step_def)

text \<open>Accesses to other devices do not change the mask.\<close>

lemma irq_enabled_quiet: "\<forall>e \<in> set t. \<forall>E. irq_mask_step e E = E \<Longrightarrow> irq_enabled (h @ t) = irq_enabled h"
proof -
  assume "\<forall>e \<in> set t. \<forall>E. irq_mask_step e E = E"
  then have "fold irq_mask_step t E = E" for E by (induction t) auto
  then show ?thesis by (simp add: irq_enabled_append)
qed

section \<open>Vector lemmas\<close>

lemma mem_store [simp]: "mem (store a v m) = store32 a v (mem m)" "trace (store a v m) = trace m"
  by (simp_all add: store_def)

section \<open>Properties\<close>

text \<open>The vector table sends every exception to its handler. After \<open>low_level_init\<close> the seven
  vectors hold an instruction that jumps through the second table, whose entries are the handlers;
  the reserved vector holds the magic word, which is no such jump.\<close>

lemma vector_table:
  "exc_target (mem (low_level_init hs m)) 0x00 = Some (cs3_reset hs) \<and>
   exc_target (mem (low_level_init hs m)) 0x04 = Some (ARM_undef hs) \<and>
   exc_target (mem (low_level_init hs m)) 0x08 = Some (ARM_swi hs) \<and>
   exc_target (mem (low_level_init hs m)) 0x0C = Some (ARM_pAbort hs) \<and>
   exc_target (mem (low_level_init hs m)) 0x10 = Some (ARM_dAbort hs) \<and>
   exc_target (mem (low_level_init hs m)) 0x14 = None \<and>
   exc_target (mem (low_level_init hs m)) 0x18 = Some (ARM_irq hs) \<and>
   exc_target (mem (low_level_init hs m)) 0x1C = Some (ARM_fiq hs)"
  by (simp add: exc_target_def low_level_init_def Let_def load32_store32_other)

text \<open>\<open>BSP_init\<close> hooks its handlers into an existing vector table: every exception but reset then
  goes to the new handler, reset still goes to the old one, and all interrupts are masked at the
  controller. The controller is assumed not to write memory.\<close>

lemma BSP_init_hooks:
  assumes "\<And>h v s. env_dma env (h @ [Wr (IO_START + GOLDFISH_INTERRUPT_BASE + GOLDFISH_INTERRUPT_DISABLE_ALL) v]) s = s"
  shows "exc_target (mem (BSP_init env hs (low_level_init hs0 m))) 0x00 = Some (cs3_reset hs0) \<and>
   exc_target (mem (BSP_init env hs (low_level_init hs0 m))) 0x04 = Some (ARM_undef hs) \<and>
   exc_target (mem (BSP_init env hs (low_level_init hs0 m))) 0x08 = Some (ARM_swi hs) \<and>
   exc_target (mem (BSP_init env hs (low_level_init hs0 m))) 0x0C = Some (ARM_pAbort hs) \<and>
   exc_target (mem (BSP_init env hs (low_level_init hs0 m))) 0x10 = Some (ARM_dAbort hs) \<and>
   exc_target (mem (BSP_init env hs (low_level_init hs0 m))) 0x18 = Some (ARM_irq hs) \<and>
   exc_target (mem (BSP_init env hs (low_level_init hs0 m))) 0x1C = Some (ARM_fiq hs) \<and>
   irq_enabled (trace (BSP_init env hs (low_level_init hs0 m))) = {}"
  using assms
  by (simp add: exc_target_def low_level_init_def BSP_init_def Let_def load32_store32_other irq_mask_step_def)

definition demo_handlers :: handlers where
  "demo_handlers = \<lparr>cs3_reset = 0x10000, ARM_undef = 0x10100, ARM_swi = 0x10200, ARM_pAbort = 0x10300,
     ARM_dAbort = 0x10400, ARM_reserved = 0x10500, ARM_irq = 0x10600, ARM_fiq = 0x10700\<rparr>"

definition idle_env :: env where
  "idle_env = \<lparr>env_read = (\<lambda>h a. 3), env_dma = (\<lambda>h s. s), env_getchar = (\<lambda>h. - 1)\<rparr>"

definition machine_boot :: machine where
  "machine_boot = \<lparr>trace = [], mem = (\<lambda>_. 0)\<rparr>"

lemma BSP_init_hooks_example:
  "exc_target (mem (BSP_init idle_env demo_handlers (low_level_init demo_handlers machine_boot))) 0x18 = Some 0x10600"
  using BSP_init_hooks [of idle_env demo_handlers demo_handlers machine_boot]
  by (simp add: idle_env_def demo_handlers_def)

end
