(* ===== verification/Startup.thy ===== *)
theory Startup
  imports Exc Bsp
begin

text \<open>
  The start-up assembly: \<open>ResetISR\<close> of \<^verbatim>\<open>c05/c05e1/startup.S\<close> (and of \<^verbatim>\<open>c05/c05e2/startup.S\<close>, which is the same file), and the reset handlers
  of chapter 7, \<^verbatim>\<open>startup_c07e1.S\<close> and \<^verbatim>\<open>startup_c07e2.S\<close> (which \<^verbatim>\<open>startup_c07e3.S\<close> repeats). The symbols of the linker script are
  arguments, and each handler is modelled up to the point where it enters the C code. A loop that counts a register down is a
  total function; a loop with a signed comparison of addresses can run forever, so its result is an option.
\<close>


section \<open>The reset handler of chapter 5\<close>

text \<open>The symbols of the linker script.\<close>

record ld_syms =
  etext :: u32
  ld_data :: u32
  edata :: u32
  ld_bss :: u32
  ebss :: u32
  stack_start :: u32
  stack_end :: u32
  irq_stack_top :: u32
  fiq_stack_top :: u32
  svc_stack_top :: u32
  abt_stack_top :: u32
  und_stack_top :: u32
  c_stack_top :: u32
  ld_version :: u32

definition STACK_FILL :: u32 where [simp]: "STACK_FILL = 0xAAAAAAAA"

lemma reg_lo: "n < 8 \<Longrightarrow> reg n s = arm_regs s 0x10 n"
  by (simp add: reg_def bank_def)

lemma set_reg_lo: "n < 8 \<Longrightarrow> set_reg n v s = bank_upd 0x10 n v s"
  by (simp add: set_reg_def bank_def)

text \<open>The loops \<open>copy\<close> and \<open>zero\<close>, which are entered with the number of bytes in \<open>r2\<close>, not 0, and count it down to 0.\<close>

lemma ucast_byte [simp]: "ucast (ucast (b :: u8) :: u32) = b"
  by (rule bit_word_eqI) (simp add: bit_simps)

lemma copy_body:
  "run [LDRB_post 4 0, STRB_post 4 1, SUB_imm 2 2 1] s =
     s\<lparr>mem := (mem s)(arm_regs s 0x10 1 := mem s (arm_regs s 0x10 0)),
       arm_regs := (arm_regs s)(0x10 := (arm_regs s 0x10)(0 := arm_regs s 0x10 0 + 1, 4 := ucast (mem s (arm_regs s 0x10 0)),
         1 := arm_regs s 0x10 1 + 1, 2 := arm_regs s 0x10 2 - 1))\<rparr>"
  by (simp add: reg_lo set_reg_lo bank_upd_def Let_def)

lemma zero_body:
  "run [STRB_post 4 0, SUB_imm 2 2 1] s =
     s\<lparr>mem := (mem s)(arm_regs s 0x10 0 := ucast (arm_regs s 0x10 4)),
       arm_regs := (arm_regs s)(0x10 := (arm_regs s 0x10)(0 := arm_regs s 0x10 0 + 1, 2 := arm_regs s 0x10 2 - 1))\<rparr>"
  by (simp add: reg_lo set_reg_lo bank_upd_def Let_def)

lemma count_down: "(r :: u32) \<noteq> 1 \<Longrightarrow> unat (r - 2) < unat (r - 1)"
  using measure_unat [of "r - 1"] by simp

function copy_loop :: "'a arm_scheme \<Rightarrow> 'a arm_scheme" where
  "copy_loop s =
     (let s = run [LDRB_post 4 0, STRB_post 4 1, SUB_imm 2 2 1] s
      in if reg 2 s \<noteq> 0 then copy_loop s else s)"
  by pat_completeness auto

termination
  by (relation "measure (\<lambda>s. unat (reg 2 s - 1))") (simp_all add: reg_lo set_reg_lo Let_def count_down)

function zero_loop :: "'a arm_scheme \<Rightarrow> 'a arm_scheme" where
  "zero_loop s =
     (let s = run [STRB_post 4 0, SUB_imm 2 2 1] s
      in if reg 2 s \<noteq> 0 then zero_loop s else s)"
  by pat_completeness auto

termination
  by (relation "measure (\<lambda>s. unat (reg 2 s - 1))") (simp_all add: reg_lo set_reg_lo Let_def count_down)

declare copy_loop.simps [simp del] zero_loop.simps [simp del]

text \<open>The loop that fills the stack; the comparison is signed.\<close>

partial_function (option) fill_loop :: "'a arm_scheme \<Rightarrow> 'a arm_scheme option" where
  "fill_loop s = (if sint (reg 1 s) < sint (reg 2 s) then fill_loop (run [STMIA 1 3] s) else Some s)"

definition init_stacks :: "'a ld_syms_scheme \<Rightarrow> instr list" where
  "init_stacks ld =
     [MSR_cpsr_c (IRQ_MODE OR NO_INT), LDR_const 13 (irq_stack_top ld),
      MSR_cpsr_c (FIQ_MODE OR NO_INT), LDR_const 13 (fiq_stack_top ld),
      MSR_cpsr_c (SVC_MODE OR NO_INT), LDR_const 13 (svc_stack_top ld),
      MSR_cpsr_c (ABT_MODE OR NO_INT), LDR_const 13 (abt_stack_top ld),
      MSR_cpsr_c (UND_MODE OR NO_INT), LDR_const 13 (und_stack_top ld),
      MSR_cpsr_c (SYS_MODE OR NO_INT), LDR_const 13 (c_stack_top ld)]"

text \<open>\<open>ResetISR\<close>, up to the call of \<open>main\<close>.\<close>

definition ResetISR :: "ld_syms \<Rightarrow> 'a arm_scheme \<Rightarrow> 'a arm_scheme option" where
  "ResetISR ld s =
     (let s = run [LDR_const 0 (etext ld), LDR_const 1 (ld_data ld), LDR_const 2 (edata ld), SUB 2 2 1] s;
          s = (if reg 2 s = 0 then s else copy_loop s);
          s = run [LDR_const 0 (ld_bss ld), LDR_const 1 (ebss ld), SUB 2 1 0] s;
          s = (if reg 2 s = 0 then s else zero_loop (run [MOV_imm 4 0] s));
          s = run [LDR_const 1 (stack_start ld), LDR_const 2 (stack_end ld), LDR_const 3 STACK_FILL] s
      in Option.bind (fill_loop s) (\<lambda>s.
           Some (run [MOV_imm 0 1, LDR_const 1 (ld_version ld)] (run (init_stacks ld) s))))"

section \<open>Areas of memory\<close>

definition area :: "u32 \<Rightarrow> nat \<Rightarrow> u32 set" where
  "area a n = {b. unat (b - a) < n}"

lemma area_bounds:
  assumes "x \<in> area a n" "unat a + n \<le> 2 ^ 32"
  shows "unat a \<le> unat x \<and> unat x < unat a + n"
proof -
  have "unat (a + (x - a)) = unat a + unat (x - a)" using assms by (intro unat_add_no_wrap) (simp add: area_def)
  then show ?thesis using assms(1) by (simp add: area_def)
qed

lemma area_disjoint:
  assumes "unat a + n \<le> unat b" "unat b + m \<le> 2 ^ 32"
  shows "area a n \<inter> area b m = {}"
  using assms area_bounds [of _ a n] area_bounds [of _ b m] unat_lt_u32 [of b] by fastforce

lemma area_offset: "k < n \<Longrightarrow> n \<le> 2 ^ 32 \<Longrightarrow> a + of_nat k \<in> area a n"
  by (simp add: area_def unat_of_nat take_bit_eq_mod)

lemma area_0 [simp]: "area a 0 = {}"
  by (simp add: area_def)

lemma unat_step: "b \<noteq> a \<Longrightarrow> unat (b - a) = Suc (unat (b - (a + 1)))" for a b :: u32
proof -
  assume "b \<noteq> a"
  then have "b - a \<noteq> 0" by simp
  then show ?thesis using unat_minus_one [of "b - a"] by (simp add: diff_diff_eq unat_gt_0)
qed

lemma area_Suc: "n < 2 ^ 32 \<Longrightarrow> area a (Suc n) = insert a (area (a + 1) n)"
proof (intro set_eqI)
  fix b assume n: "n < 2 ^ 32"
  show "b \<in> area a (Suc n) \<longleftrightarrow> b \<in> insert a (area (a + 1) n)"
    using unat_step [of b a] by (cases "b = a") (simp_all add: area_def)
qed

lemma first_not_in: "n < 2 ^ 32 \<Longrightarrow> a \<notin> area (a + 1) n"
  by (simp add: area_def unat_m1)

text \<open>The effect of the loops on memory.\<close>

primrec copy_mem :: "nat \<Rightarrow> u32 \<Rightarrow> u32 \<Rightarrow> memory \<Rightarrow> memory" where
  "copy_mem 0 dst src m = m"
| "copy_mem (Suc n) dst src m = copy_mem n (dst + 1) (src + 1) (m(dst := m src))"

primrec fill_mem :: "u8 \<Rightarrow> nat \<Rightarrow> u32 \<Rightarrow> memory \<Rightarrow> memory" where
  "fill_mem v 0 a m = m"
| "fill_mem v (Suc n) a m = fill_mem v n (a + 1) (m(a := v))"

lemma copy_mem_outside: "b \<notin> area dst n \<Longrightarrow> n < 2 ^ 32 \<Longrightarrow> copy_mem n dst src m b = m b"
  by (induction n arbitrary: dst src m) (simp_all add: area_Suc)

lemma fill_mem_outside: "b \<notin> area a n \<Longrightarrow> n < 2 ^ 32 \<Longrightarrow> fill_mem v n a m b = m b"
  by (induction n arbitrary: a m) (simp_all add: area_Suc)

lemma fill_mem_inside: "b \<in> area a n \<Longrightarrow> n < 2 ^ 32 \<Longrightarrow> fill_mem v n a m b = v"
proof (induction n arbitrary: a m)
  case (Suc n)
  then show ?case using fill_mem_outside [of a "a + 1" n v "m(a := v)"] first_not_in [of n a]
    by (auto simp: area_Suc)
qed simp

lemma copy_mem_inside:
  "k < n \<Longrightarrow> n < 2 ^ 32 \<Longrightarrow> area src n \<inter> area dst n = {} \<Longrightarrow> copy_mem n dst src m (dst + of_nat k) = m (src + of_nat k)"
proof (induction n arbitrary: dst src m k)
  case (Suc n)
  have n: "n < 2 ^ 32" using Suc.prems(2) by simp
  show ?case
  proof (cases k)
    case 0
    then show ?thesis using copy_mem_outside [of dst "dst + 1" n "src + 1"] first_not_in [of n dst] n by simp
  next
    case (Suc k')
    have "dst \<notin> area src (Suc n)" using Suc.prems(3) by (auto simp: area_Suc [OF n])
    moreover have "src + of_nat k \<in> area src (Suc n)" using Suc.prems(1,2) by (intro area_offset) simp_all
    ultimately have "src + of_nat k \<noteq> dst" by auto
    moreover have "area (src + 1) n \<inter> area (dst + 1) n = {}" using Suc.prems(3) by (auto simp: area_Suc [OF n])
    then have "copy_mem n (dst + 1) (src + 1) (m(dst := m src)) (dst + 1 + of_nat k') = (m(dst := m src)) (src + 1 + of_nat k')"
      using Suc.prems(1) Suc n by (intro Suc.IH) simp_all
    ultimately show ?thesis using Suc by (simp add: add.assoc)
  qed
qed simp

lemma copy_loop_step:
  assumes "u = arm_regs s 0x10"
    and "s1 = s\<lparr>mem := (mem s)(u 1 := mem s (u 0)),
       arm_regs := (arm_regs s)(0x10 := u(0 := u 0 + 1, 4 := ucast (mem s (u 0)), 1 := u 1 + 1, 2 := u 2 - 1))\<rparr>"
  shows "copy_loop s = (if u 2 = 1 then s1 else copy_loop s1)"
  unfolding assms by (subst copy_loop.simps) (simp only: copy_body Let_def, simp add: reg_lo)

lemma zero_loop_step:
  assumes "u = arm_regs s 0x10"
    and "s1 = s\<lparr>mem := (mem s)(u 0 := ucast (u 4)), arm_regs := (arm_regs s)(0x10 := u(0 := u 0 + 1, 2 := u 2 - 1))\<rparr>"
  shows "zero_loop s = (if u 2 = 1 then s1 else zero_loop s1)"
  unfolding assms by (subst zero_loop.simps) (simp only: zero_body Let_def, simp add: reg_lo)

lemma count_not_1: "Suc (Suc n) < 2 ^ 32 \<Longrightarrow> (of_nat (Suc (Suc n)) :: u32) \<noteq> 1"
  using of_nat_inj_u32 [of "Suc (Suc n)" 1] by simp

lemma copy_loop_run:
  "u = arm_regs s 0x10 \<Longrightarrow> u 2 = of_nat (Suc n) \<Longrightarrow> Suc n < 2 ^ 32 \<Longrightarrow>
   \<exists>r. copy_loop s = s\<lparr>mem := copy_mem (Suc n) (u 1) (u 0) (mem s), arm_regs := (arm_regs s)(0x10 := r)\<rparr> \<and> (\<forall>k \<ge> 5. r k = u k)"
proof (induction n arbitrary: s u)
  case 0
  then show ?case unfolding copy_loop_step [OF 0(1) refl]
    by (intro exI [of _ "u(0 := u 0 + 1, 4 := ucast (mem s (u 0)), 1 := u 1 + 1, 2 := u 2 - 1)"] conjI)
      (simp del: fun_upd_apply, simp)
next
  case (Suc n)
  let ?s = "s\<lparr>mem := (mem s)(u 1 := mem s (u 0)),
       arm_regs := (arm_regs s)(0x10 := u(0 := u 0 + 1, 4 := ucast (mem s (u 0)), 1 := u 1 + 1, 2 := u 2 - 1))\<rparr>"
  have "u 2 \<noteq> 1" using count_not_1 [OF Suc.prems(3)] Suc.prems(2) by simp
  then have step: "copy_loop s = copy_loop ?s" by (simp add: copy_loop_step [OF Suc.prems(1) refl])
  obtain r where "copy_loop ?s = ?s\<lparr>mem := copy_mem (Suc n) (arm_regs ?s 0x10 1) (arm_regs ?s 0x10 0) (mem ?s),
      arm_regs := (arm_regs ?s)(0x10 := r)\<rparr>" "\<forall>k \<ge> 5. r k = arm_regs ?s 0x10 k"
    using Suc.IH [OF refl, of ?s] Suc.prems(2,3) by (auto simp del: fun_upd_apply simp: fun_upd_same fun_upd_other)
  then show ?case unfolding step by (intro exI [of _ r]) (simp del: fun_upd_apply add: fun_upd_same fun_upd_other)
qed

lemma zero_loop_run:
  "u = arm_regs s 0x10 \<Longrightarrow> u 2 = of_nat (Suc n) \<Longrightarrow> Suc n < 2 ^ 32 \<Longrightarrow>
   \<exists>r. zero_loop s = s\<lparr>mem := fill_mem (ucast (u 4)) (Suc n) (u 0) (mem s), arm_regs := (arm_regs s)(0x10 := r)\<rparr> \<and> (\<forall>k \<ge> 5. r k = u k)"
proof (induction n arbitrary: s u)
  case 0
  then show ?case unfolding zero_loop_step [OF 0(1) refl]
    by (intro exI [of _ "u(0 := u 0 + 1, 2 := u 2 - 1)"] conjI) (simp del: fun_upd_apply, simp)
next
  case (Suc n)
  let ?s = "s\<lparr>mem := (mem s)(u 0 := ucast (u 4)), arm_regs := (arm_regs s)(0x10 := u(0 := u 0 + 1, 2 := u 2 - 1))\<rparr>"
  have "u 2 \<noteq> 1" using count_not_1 [OF Suc.prems(3)] Suc.prems(2) by simp
  then have step: "zero_loop s = zero_loop ?s" by (simp add: zero_loop_step [OF Suc.prems(1) refl])
  obtain r where "zero_loop ?s = ?s\<lparr>mem := fill_mem (ucast (arm_regs ?s 0x10 4)) (Suc n) (arm_regs ?s 0x10 0) (mem ?s),
      arm_regs := (arm_regs ?s)(0x10 := r)\<rparr>" "\<forall>k \<ge> 5. r k = arm_regs ?s 0x10 k"
    using Suc.IH [OF refl, of ?s] Suc.prems(2,3) by (auto simp del: fun_upd_apply simp: fun_upd_same fun_upd_other)
  then show ?case unfolding step by (intro exI [of _ r]) (simp del: fun_upd_apply add: fun_upd_same fun_upd_other)
qed

lemma fill_loop_run:
  "u = arm_regs s 0x10 \<Longrightarrow> unat (u 2) = unat (u 1) + 4 * n \<Longrightarrow> unat (u 2) < 2 ^ 31 \<Longrightarrow>
   \<exists>r. fill_loop s = Some (s\<lparr>mem := store_words (u 1) (replicate n (u 3)) (mem s), arm_regs := (arm_regs s)(0x10 := r)\<rparr>) \<and>
     (\<forall>k \<ge> 5. r k = u k)"
proof (induction n arbitrary: s u)
  case 0
  then have "sint (u 1) = sint (u 2)" by (simp add: sint_u32_nat)
  then have "fill_loop s = Some s" using 0(1) by (subst fill_loop.simps) (simp add: reg_lo)
  then show ?case using 0(1) by (intro exI [of _ u]) simp
next
  case (Suc n)
  let ?s = "s\<lparr>mem := store32 (u 1) (u 3) (mem s), arm_regs := (arm_regs s)(0x10 := u(1 := u 1 + 4))\<rparr>"
  have "sint (u 1) < sint (u 2)" using Suc.prems(2,3) by (simp add: sint_u32_nat)
  then have step: "fill_loop s = fill_loop ?s" using Suc.prems(1)
    by (subst fill_loop.simps) (simp add: reg_lo set_reg_lo bank_upd_def Let_def)
  have "unat (u 1 + 4) = unat (u 1) + 4" using Suc.prems(2,3) unat_add_u32 [of "u 1" 4] by simp
  then obtain r where "fill_loop ?s = Some (?s\<lparr>mem := store_words (arm_regs ?s 0x10 1) (replicate n (arm_regs ?s 0x10 3)) (mem ?s),
      arm_regs := (arm_regs ?s)(0x10 := r)\<rparr>)" "\<forall>k \<ge> 5. r k = arm_regs ?s 0x10 k"
    using Suc.IH [OF refl, of ?s] Suc.prems(2,3) by (auto simp del: fun_upd_apply simp: fun_upd_same fun_upd_other)
  then show ?case unfolding step by (intro exI [of _ r]) (simp del: fun_upd_apply add: fun_upd_same fun_upd_other)
qed

lemma word_diff: "unat b = unat a + n \<Longrightarrow> b - a = of_nat n" for a b :: u32
proof -
  assume "unat b = unat a + n"
  then have "unat (b - a) = n" using unat_sub_no_wrap [of a b] by simp
  then have "of_nat n = (of_nat (unat (b - a)) :: u32)" by simp
  also have "\<dots> = b - a" by simp
  finally show ?thesis ..
qed

lemma copy_stage:
  assumes "unat ed = unat d + n" and "u = arm_regs s 0x10" and s1: "s1 = run [LDR_const 0 e, LDR_const 1 d, LDR_const 2 ed, SUB 2 2 1] s"
  shows "\<exists>r. (if reg 2 s1 = 0 then s1 else copy_loop s1) =
      s\<lparr>mem := copy_mem n d e (mem s), arm_regs := (arm_regs s)(0x10 := r)\<rparr> \<and> (\<forall>k \<ge> 5. r k = u k)"
proof -
  have n: "n < 2 ^ 32" using assms(1) unat_lt_u32 [of ed] by simp
  have s1': "s1 = s\<lparr>arm_regs := (arm_regs s)(0x10 := u(0 := e, 1 := d, 2 := of_nat n))\<rparr>"
    using s1 word_diff [OF assms(1)] assms(2) by (simp add: reg_lo set_reg_lo bank_upd_def)
  show ?thesis
  proof (cases n)
    case 0
    then show ?thesis using s1' by (intro exI [of _ "u(0 := e, 1 := d, 2 := 0)"] conjI) (simp_all add: reg_lo)
  next
    case (Suc m)
    have "reg 2 s1 \<noteq> 0" using of_nat_inj_u32 [of n 0] n Suc by (simp add: s1' reg_lo del: of_nat_Suc)
    moreover obtain r where "copy_loop s1 = s1\<lparr>mem := copy_mem n d e (mem s1), arm_regs := (arm_regs s1)(0x10 := r)\<rparr>"
      "\<forall>k \<ge> 5. r k = arm_regs s1 0x10 k"
      using copy_loop_run [OF refl, of s1 m] Suc n by (auto simp: s1' simp del: of_nat_Suc copy_mem.simps)
    ultimately show ?thesis using s1' by (intro exI [of _ r]) (simp del: fun_upd_apply add: fun_upd_same fun_upd_other)
  qed
qed

lemma zero_stage:
  assumes "unat eb = unat b + n" and "u = arm_regs s 0x10" and s1: "s1 = run [LDR_const 0 b, LDR_const 1 eb, SUB 2 1 0] s"
  shows "\<exists>r. (if reg 2 s1 = 0 then s1 else zero_loop (run [MOV_imm 4 0] s1)) =
      s\<lparr>mem := fill_mem 0 n b (mem s), arm_regs := (arm_regs s)(0x10 := r)\<rparr> \<and> (\<forall>k \<ge> 5. r k = u k)"
proof -
  have n: "n < 2 ^ 32" using assms(1) unat_lt_u32 [of eb] by simp
  have s1': "s1 = s\<lparr>arm_regs := (arm_regs s)(0x10 := u(0 := b, 1 := eb, 2 := of_nat n))\<rparr>"
    using s1 word_diff [OF assms(1)] assms(2) by (simp add: reg_lo set_reg_lo bank_upd_def)
  show ?thesis
  proof (cases n)
    case 0
    then show ?thesis using s1' by (intro exI [of _ "u(0 := b, 1 := eb, 2 := 0)"] conjI) (simp_all add: reg_lo)
  next
    case (Suc m)
    define s2 where "s2 = run [MOV_imm 4 0] s1"
    have s2: "s2 = s\<lparr>arm_regs := (arm_regs s)(0x10 := u(0 := b, 1 := eb, 2 := of_nat n, 4 := 0))\<rparr>"
      by (simp add: s2_def s1' set_reg_lo bank_upd_def)
    have "reg 2 s1 \<noteq> 0" using of_nat_inj_u32 [of n 0] n Suc by (simp add: s1' reg_lo del: of_nat_Suc)
    moreover obtain r where "zero_loop s2 = s2\<lparr>mem := fill_mem 0 n b (mem s2), arm_regs := (arm_regs s2)(0x10 := r)\<rparr>"
      "\<forall>k \<ge> 5. r k = arm_regs s2 0x10 k"
      using zero_loop_run [OF refl, of s2 m] Suc n by (auto simp: s2 simp del: of_nat_Suc fill_mem.simps)
    ultimately show ?thesis unfolding s2_def [symmetric] using s2 by (intro exI [of _ r]) (simp del: fun_upd_apply add: fun_upd_same fun_upd_other)
  qed
qed

lemma fill_stage:
  assumes "unat e = unat b + 4 * n" "unat e < 2 ^ 31" and "u = arm_regs s 0x10"
  shows "\<exists>r. fill_loop (run [LDR_const 1 b, LDR_const 2 e, LDR_const 3 v] s) =
      Some (s\<lparr>mem := store_words b (replicate n v) (mem s), arm_regs := (arm_regs s)(0x10 := r)\<rparr>) \<and> (\<forall>k \<ge> 5. r k = u k)"
proof -
  define s1 where "s1 = run [LDR_const 1 b, LDR_const 2 e, LDR_const 3 v] s"
  have s1: "s1 = s\<lparr>arm_regs := (arm_regs s)(0x10 := u(1 := b, 2 := e, 3 := v))\<rparr>"
    using assms(3) by (simp add: s1_def set_reg_lo bank_upd_def)
  obtain r where "fill_loop s1 = Some (s1\<lparr>mem := store_words b (replicate n v) (mem s1), arm_regs := (arm_regs s1)(0x10 := r)\<rparr>)"
      "\<forall>k \<ge> 5. r k = arm_regs s1 0x10 k"
    using fill_loop_run [OF refl, of s1 n] assms(1,2) by (auto simp: s1)
  then show ?thesis unfolding s1_def [symmetric] using s1 by (intro exI [of _ r]) (simp del: fun_upd_apply add: fun_upd_same fun_upd_other)
qed

lemma set_stack:
  assumes "mode_of (arm_cpsr s) \<noteq> 0x10" "v AND 0xFF = v" "b = bank (v AND 0x1F) 13"
  shows "run [MSR_cpsr_c v, LDR_const 13 t] s =
    s\<lparr>arm_cpsr := (arm_cpsr s AND - 256) OR (v AND 0xFF), arm_regs := (arm_regs s)(b := (arm_regs s b)(13 := t))\<rparr>"
proof -
  have "mode_of ((arm_cpsr s AND - 256) OR (v AND 0xFF)) = v AND 0x1F" by (rule mode_of_simps)
  then show ?thesis using assms by (simp add: set_reg_def bank_upd_def)
qed

lemma next_stack:
  assumes "arm_cpsr s = (c AND - 256) OR (w AND 0xFF)" "w AND 0x1F \<noteq> 0x10" "v AND 0xFF = v" "b = bank (v AND 0x1F) 13"
  shows "run [MSR_cpsr_c v, LDR_const 13 t] s =
    s\<lparr>arm_cpsr := (c AND - 256) OR (v AND 0xFF), arm_regs := (arm_regs s)(b := (arm_regs s b)(13 := t))\<rparr>"
  using set_stack [of s v b t] assms(2-4) unfolding assms(1) msr_twice mode_of_simps by blast

lemma stacks_run:
  assumes "mode_of (arm_cpsr s) \<noteq> 0x10"
  shows "run (init_stacks ld) s =
    s\<lparr>arm_cpsr := (arm_cpsr s AND - 256) OR (0xDF AND 0xFF),
      arm_regs := (arm_regs s)(0x12 := (arm_regs s 0x12)(13 := irq_stack_top ld), 0x11 := (arm_regs s 0x11)(13 := fiq_stack_top ld),
        0x13 := (arm_regs s 0x13)(13 := svc_stack_top ld), 0x17 := (arm_regs s 0x17)(13 := abt_stack_top ld),
        0x1B := (arm_regs s 0x1B)(13 := und_stack_top ld), 0x10 := (arm_regs s 0x10)(13 := c_stack_top ld))\<rparr>"
proof -
  define s1 where "s1 = run [MSR_cpsr_c 0xD2, LDR_const 13 (irq_stack_top ld)] s"
  have 1: "s1 = s\<lparr>arm_cpsr := (arm_cpsr s AND - 256) OR (0xD2 AND 0xFF), arm_regs := (arm_regs s)(0x12 := (arm_regs s 0x12)(13 := irq_stack_top ld))\<rparr>"
    unfolding s1_def by (rule set_stack [OF assms]) (simp_all add: bank_def)
  define s2 where "s2 = run [MSR_cpsr_c 0xD1, LDR_const 13 (fiq_stack_top ld)] s1"
  have 2: "s2 = s1\<lparr>arm_cpsr := (arm_cpsr s AND - 256) OR (0xD1 AND 0xFF), arm_regs := (arm_regs s1)(0x11 := (arm_regs s1 0x11)(13 := fiq_stack_top ld))\<rparr>"
    unfolding s2_def by (rule next_stack [where w = "0xD2"]) (simp_all only: 1, simp_all add: bank_def)
  define s3 where "s3 = run [MSR_cpsr_c 0xD3, LDR_const 13 (svc_stack_top ld)] s2"
  have 3: "s3 = s2\<lparr>arm_cpsr := (arm_cpsr s AND - 256) OR (0xD3 AND 0xFF), arm_regs := (arm_regs s2)(0x13 := (arm_regs s2 0x13)(13 := svc_stack_top ld))\<rparr>"
    unfolding s3_def by (rule next_stack [where w = "0xD1"]) (simp_all only: 2, simp_all add: bank_def)
  define s4 where "s4 = run [MSR_cpsr_c 0xD7, LDR_const 13 (abt_stack_top ld)] s3"
  have 4: "s4 = s3\<lparr>arm_cpsr := (arm_cpsr s AND - 256) OR (0xD7 AND 0xFF), arm_regs := (arm_regs s3)(0x17 := (arm_regs s3 0x17)(13 := abt_stack_top ld))\<rparr>"
    unfolding s4_def by (rule next_stack [where w = "0xD3"]) (simp_all only: 3, simp_all add: bank_def)
  define s5 where "s5 = run [MSR_cpsr_c 0xDB, LDR_const 13 (und_stack_top ld)] s4"
  have 5: "s5 = s4\<lparr>arm_cpsr := (arm_cpsr s AND - 256) OR (0xDB AND 0xFF), arm_regs := (arm_regs s4)(0x1B := (arm_regs s4 0x1B)(13 := und_stack_top ld))\<rparr>"
    unfolding s5_def by (rule next_stack [where w = "0xD7"]) (simp_all only: 4, simp_all add: bank_def)
  define s6 where "s6 = run [MSR_cpsr_c 0xDF, LDR_const 13 (c_stack_top ld)] s5"
  have 6: "s6 = s5\<lparr>arm_cpsr := (arm_cpsr s AND - 256) OR (0xDF AND 0xFF), arm_regs := (arm_regs s5)(0x10 := (arm_regs s5 0x10)(13 := c_stack_top ld))\<rparr>"
    unfolding s6_def by (rule next_stack [where w = "0xDB"]) (simp_all only: 5, simp_all add: bank_def)
  have "run (init_stacks ld) s = s6"
    by (simp add: init_stacks_def s6_def s5_def s4_def s3_def s2_def s1_def)
  then show ?thesis by (simp add: 6 5 4 3 2 1 del: fun_upd_apply add: fun_upd_other)
qed

lemma ResetISR_run:
  assumes priv: "mode_of (arm_cpsr s) \<noteq> USR_MODE"
    and data: "unat (edata ld) = unat (ld_data ld) + nd" and bss: "unat (ebss ld) = unat (ld_bss ld) + nb"
    and stack: "unat (stack_end ld) = unat (stack_start ld) + 4 * ns" "unat (stack_end ld) < 2 ^ 31"
  shows "\<exists>r. ResetISR ld s = Some (s\<lparr>
      mem := store_words (stack_start ld) (replicate ns STACK_FILL) (fill_mem 0 nb (ld_bss ld) (copy_mem nd (ld_data ld) (etext ld) (mem s))),
      arm_cpsr := (arm_cpsr s AND - 256) OR (0xDF AND 0xFF),
      arm_regs := (arm_regs s)(0x12 := (arm_regs s 0x12)(13 := irq_stack_top ld), 0x11 := (arm_regs s 0x11)(13 := fiq_stack_top ld),
        0x13 := (arm_regs s 0x13)(13 := svc_stack_top ld), 0x17 := (arm_regs s 0x17)(13 := abt_stack_top ld),
        0x1B := (arm_regs s 0x1B)(13 := und_stack_top ld), 0x10 := r)\<rparr>) \<and>
    r 0 = 1 \<and> r 1 = ld_version ld \<and> r 13 = c_stack_top ld"
proof -
  define s1 where "s1 = run [LDR_const 0 (etext ld), LDR_const 1 (ld_data ld), LDR_const 2 (edata ld), SUB 2 2 1] s"
  obtain r2 where 2: "(if reg 2 s1 = 0 then s1 else copy_loop s1) =
      s\<lparr>mem := copy_mem nd (ld_data ld) (etext ld) (mem s), arm_regs := (arm_regs s)(0x10 := r2)\<rparr>" (is "_ = ?s2")
    using copy_stage [OF data refl s1_def] by auto
  define s3 where "s3 = run [LDR_const 0 (ld_bss ld), LDR_const 1 (ebss ld), SUB 2 1 0] ?s2"
  obtain r4 where 4: "(if reg 2 s3 = 0 then s3 else zero_loop (run [MOV_imm 4 0] s3)) =
      ?s2\<lparr>mem := fill_mem 0 nb (ld_bss ld) (mem ?s2), arm_regs := (arm_regs ?s2)(0x10 := r4)\<rparr>" (is "_ = ?s4")
    using zero_stage [OF bss refl s3_def] by auto
  obtain r5 where 5: "fill_loop (run [LDR_const 1 (stack_start ld), LDR_const 2 (stack_end ld), LDR_const 3 STACK_FILL] ?s4) =
      Some (?s4\<lparr>mem := store_words (stack_start ld) (replicate ns STACK_FILL) (mem ?s4), arm_regs := (arm_regs ?s4)(0x10 := r5)\<rparr>)"
      (is "_ = Some ?s5")
    using fill_stage [OF stack refl] by blast
  have reset: "ResetISR ld s = Some (run [MOV_imm 0 1, LDR_const 1 (ld_version ld)] (run (init_stacks ld) ?s5))"
    unfolding ResetISR_def Let_def s1_def [symmetric] 2 s3_def [symmetric] 4 5 by simp
  have "mode_of (arm_cpsr ?s5) \<noteq> 0x10" using priv by simp
  from stacks_run [OF this, of ld] show ?thesis unfolding reset
    by (intro exI [of _ "r5(13 := c_stack_top ld, 0 := 1, 1 := ld_version ld)"] conjI)
      (simp_all add: set_reg_lo bank_upd_def del: fun_upd_apply add: fun_upd_same fun_upd_other)
qed

section \<open>Properties\<close>

lemma store_words_area: "b \<notin> area a (4 * length ws) \<Longrightarrow> store_words a ws m b = m b"
  by (rule store_words_outside) (simp add: area_def)

text \<open>The memory that the three loops leave.\<close>

definition reset_mem :: "ld_syms \<Rightarrow> nat \<Rightarrow> nat \<Rightarrow> nat \<Rightarrow> memory \<Rightarrow> memory" where
  "reset_mem ld nd nb ns m =
     store_words (stack_start ld) (replicate ns STACK_FILL) (fill_mem 0 nb (ld_bss ld) (copy_mem nd (ld_data ld) (etext ld) m))"

lemma reset_mem_facts:
  assumes data: "unat (edata ld) = unat (ld_data ld) + nd" and bss: "unat (ebss ld) = unat (ld_bss ld) + nb"
    and stack: "unat (stack_end ld) = unat (stack_start ld) + 4 * ns" "unat (stack_end ld) < 2 ^ 31"
    and disj: "area (etext ld) nd \<inter> area (ld_data ld) nd = {}" "area (ld_data ld) nd \<inter> area (ld_bss ld) nb = {}"
      "area (ld_data ld) nd \<inter> area (stack_start ld) (4 * ns) = {}" "area (ld_bss ld) nb \<inter> area (stack_start ld) (4 * ns) = {}"
  shows "k < nd \<Longrightarrow> reset_mem ld nd nb ns m (ld_data ld + of_nat k) = m (etext ld + of_nat k)"
    "a \<in> area (ld_bss ld) nb \<Longrightarrow> reset_mem ld nd nb ns m a = 0"
    "k < ns \<Longrightarrow> load32 (reset_mem ld nd nb ns m) (stack_start ld + 4 * of_nat k) = STACK_FILL"
    "a \<notin> area (ld_data ld) nd \<union> area (ld_bss ld) nb \<union> area (stack_start ld) (4 * ns) \<Longrightarrow> reset_mem ld nd nb ns m a = m a"
proof -
  define m1 where "m1 = copy_mem nd (ld_data ld) (etext ld) m"
  define m2 where "m2 = fill_mem 0 nb (ld_bss ld) m1"
  have m3: "reset_mem ld nd nb ns m = store_words (stack_start ld) (replicate ns STACK_FILL) m2" by (simp add: reset_mem_def m2_def m1_def)
  have n: "nd < 2 ^ 32" "nb < 2 ^ 32" "4 * ns \<le> 2 ^ 32"
    using data bss stack unat_lt_u32 [of "edata ld"] unat_lt_u32 [of "ebss ld"] by simp_all
  have 3: "reset_mem ld nd nb ns m a = m2 a" if "a \<notin> area (stack_start ld) (4 * ns)" for a using that by (simp add: m3 store_words_area)
  have 2: "m2 a = m1 a" if "a \<notin> area (ld_bss ld) nb" for a using that n by (simp add: m2_def fill_mem_outside)
  show "reset_mem ld nd nb ns m (ld_data ld + of_nat k) = m (etext ld + of_nat k)" if k: "k < nd"
  proof -
    have "ld_data ld + of_nat k \<in> area (ld_data ld) nd" using k n by (intro area_offset) simp_all
    then have "ld_data ld + of_nat k \<notin> area (ld_bss ld) nb" "ld_data ld + of_nat k \<notin> area (stack_start ld) (4 * ns)"
      using disj(2,3) by auto
    then have "reset_mem ld nd nb ns m (ld_data ld + of_nat k) = m1 (ld_data ld + of_nat k)" using 3 2 by simp
    then show ?thesis using copy_mem_inside [OF k n(1) disj(1)] by (simp add: m1_def)
  qed
  show "reset_mem ld nd nb ns m a = 0" if a: "a \<in> area (ld_bss ld) nb"
  proof -
    have "a \<notin> area (stack_start ld) (4 * ns)" using a disj(4) by auto
    then show ?thesis using 3 fill_mem_inside [OF a n(2)] by (simp add: m2_def)
  qed
  show "load32 (reset_mem ld nd nb ns m) (stack_start ld + 4 * of_nat k) = STACK_FILL" if "k < ns"
    unfolding m3 using load_store_words [of k "replicate ns STACK_FILL"] that n by simp
  show "reset_mem ld nd nb ns m a = m a" if "a \<notin> area (ld_data ld) nd \<union> area (ld_bss ld) nb \<union> area (stack_start ld) (4 * ns)"
    using that 3 2 copy_mem_outside [of a "ld_data ld" nd] n by (simp add: m1_def)
qed

text \<open>C16: \<open>ResetISR\<close> sets up the environment of a C program. From any privileged mode it ends, and calls \<open>main\<close> with the
  initialised data copied from behind the code to its place, the \<open>bss\<close> section cleared, the stack area filled with the pattern,
  and every other byte of memory unchanged; in system mode with IRQs and FIQs disabled, with the stack pointer of each
  mode at the top of its stack, 1 as \<open>argc\<close> and the address of \<open>version\<close> as \<open>argv\<close>. The sections are disjoint, and the stack is made of words
  below \<open>2 ^ 31\<close>, where the signed comparison of the loop is right.\<close>

theorem ResetISR_environment:
  assumes priv: "mode_of (arm_cpsr s) \<noteq> USR_MODE"
    and data: "unat (edata ld) = unat (ld_data ld) + nd" and bss: "unat (ebss ld) = unat (ld_bss ld) + nb"
    and stack: "unat (stack_end ld) = unat (stack_start ld) + 4 * ns" "unat (stack_end ld) < 2 ^ 31"
    and disj: "area (etext ld) nd \<inter> area (ld_data ld) nd = {}" "area (ld_data ld) nd \<inter> area (ld_bss ld) nb = {}"
      "area (ld_data ld) nd \<inter> area (stack_start ld) (4 * ns) = {}" "area (ld_bss ld) nb \<inter> area (stack_start ld) (4 * ns) = {}"
  shows "\<exists>s'. ResetISR ld s = Some s' \<and> trace s' = trace s \<and>
    (\<forall>k < nd. mem s' (ld_data ld + of_nat k) = mem s (etext ld + of_nat k)) \<and>
    (\<forall>a \<in> area (ld_bss ld) nb. mem s' a = 0) \<and>
    (\<forall>k < ns. load32 (mem s') (stack_start ld + 4 * of_nat k) = STACK_FILL) \<and>
    (\<forall>a. a \<notin> area (ld_data ld) nd \<union> area (ld_bss ld) nb \<union> area (stack_start ld) (4 * ns) \<longrightarrow> mem s' a = mem s a) \<and>
    mode_of (arm_cpsr s') = SYS_MODE \<and> arm_cpsr s' AND NO_INT = NO_INT \<and>
    reg 0 s' = 1 \<and> reg 1 s' = ld_version ld \<and> reg 13 s' = c_stack_top ld \<and>
    arm_regs s' IRQ_MODE 13 = irq_stack_top ld \<and> arm_regs s' FIQ_MODE 13 = fiq_stack_top ld \<and>
    arm_regs s' SVC_MODE 13 = svc_stack_top ld \<and> arm_regs s' ABT_MODE 13 = abt_stack_top ld \<and>
    arm_regs s' UND_MODE 13 = und_stack_top ld"
proof -
  note m = reset_mem_facts [OF data bss stack disj, of _ "mem s"]
  obtain r where run: "ResetISR ld s = Some (s\<lparr>mem := reset_mem ld nd nb ns (mem s), arm_cpsr := (arm_cpsr s AND - 256) OR (0xDF AND 0xFF),
      arm_regs := (arm_regs s)(0x12 := (arm_regs s 0x12)(13 := irq_stack_top ld), 0x11 := (arm_regs s 0x11)(13 := fiq_stack_top ld),
        0x13 := (arm_regs s 0x13)(13 := svc_stack_top ld), 0x17 := (arm_regs s 0x17)(13 := abt_stack_top ld),
        0x1B := (arm_regs s 0x1B)(13 := und_stack_top ld), 0x10 := r)\<rparr>)" (is "_ = Some ?s'")
      "r 0 = 1" "r 1 = ld_version ld" "r 13 = c_stack_top ld"
    using ResetISR_run [OF priv data bss stack] unfolding reset_mem_def by blast
  moreover have "mode_of (arm_cpsr ?s') = SYS_MODE" "arm_cpsr ?s' AND NO_INT = NO_INT"
    using mode_of_simps(1) [of "arm_cpsr s" "0xDF"] by (simp_all add: bit.conj_disj_distrib2 and.assoc)
  ultimately show ?thesis using m by (intro exI [of _ ?s']) (simp add: reg_def bank_def)
qed

definition demo_ld :: ld_syms where
  "demo_ld = \<lparr>etext = 0x10400, ld_data = 0x30000, edata = 0x30008, ld_bss = 0x30008, ebss = 0x30010, stack_start = 0x30010,
     stack_end = 0x30070, irq_stack_top = 0x30020, fiq_stack_top = 0x30030, svc_stack_top = 0x30040, abt_stack_top = 0x30050,
     und_stack_top = 0x30060, c_stack_top = 0x30070, ld_version = 0x30004\<rparr>"

theorem ResetISR_environment_witness:
  "\<exists>s'. ResetISR demo_ld (demo_thread\<lparr>arm_cpsr := 0xD3\<rparr>) = Some s' \<and> mem s' 0x30009 = 0 \<and>
     load32 (mem s') 0x30010 = 0xAAAAAAAA \<and> reg 13 s' = 0x30070 \<and> arm_regs s' IRQ_MODE 13 = 0x30020"
proof -
  have "mode_of (arm_cpsr (demo_thread\<lparr>arm_cpsr := 0xD3\<rparr>)) \<noteq> USR_MODE" by (simp add: mode_of_def)
  moreover have "0x30009 \<in> area 0x30008 8" by (simp add: area_def)
  ultimately show ?thesis
    using ResetISR_environment [of "demo_thread\<lparr>arm_cpsr := 0xD3\<rparr>" demo_ld 8 8 24]
      area_disjoint [of "0x10400" 8 "0x30000" 8] area_disjoint [of "0x30000" 8 "0x30008" 8]
      area_disjoint [of "0x30000" 8 "0x30010" 96] area_disjoint [of "0x30008" 8 "0x30010" 96]
    by (simp add: demo_ld_def) (elim exE conjE, auto dest: spec [of _ 0])
qed

section \<open>The reset handlers of chapter 7\<close>

text \<open>The words from \<open>vectors_start\<close> to \<open>vectors_end\<close>: five loads of the program counter, a branch to itself, two more loads, and the
  addresses they load.\<close>

definition c07e1_vectors :: "handlers \<Rightarrow> u32 list" where
  "c07e1_vectors hs =
     [0xE59FF018, 0xE59FF018, 0xE59FF018, 0xE59FF018, 0xE59FF018, 0xEAFFFFFE, 0xE59FF014, 0xE59FF014,
      cs3_reset hs, ARM_undef hs, ARM_swi hs, ARM_pAbort hs, ARM_dAbort hs, ARM_irq hs, ARM_fiq hs]"

text \<open>The loop that copies the words between \<open>r1\<close> and \<open>r2\<close> to the address in \<open>r0\<close>.\<close>

partial_function (option) vector_loop :: "'a arm_scheme \<Rightarrow> 'a arm_scheme option" where
  "vector_loop s = (if sint (reg 1 s) < sint (reg 2 s) then vector_loop (run [LDMIA 1 3, STMIA 0 3] s) else Some s)"

text \<open>\<open>__cs3_reset\<close> of \<^verbatim>\<open>startup_c07e1.S\<close>, up to the branch to \<open>__cs3_start_asm\<close>.\<close>

definition irq_stack_on :: "u32 \<Rightarrow> instr list" where
  "irq_stack_on irq_top =
     [MRS_cpsr 0, BIC_imm 1 0 0x1F, ORR_imm 1 1 0x12, MSR_cpsr 1, LDR_const 13 irq_top, BIC_imm 0 0 0x80, MSR_cpsr 0]"

definition c07e1_reset :: "u32 \<Rightarrow> u32 \<Rightarrow> u32 \<Rightarrow> u32 \<Rightarrow> u32 \<Rightarrow> u32 \<Rightarrow> 'a arm_scheme \<Rightarrow> 'a arm_scheme option" where
  "c07e1_reset cs3_reset_addr cs3_start_asm cs3_stack irq_top vectors_start vectors_end s =
     (let s = run [LDR_const 0 cs3_reset_addr, LDR_const 1 cs3_start_asm, MOV 14 1, LDR_const 13 cs3_stack] s;
          s = run [LDR_const 0 0, LDR_const 1 vectors_start, LDR_const 2 vectors_end] s
      in Option.bind (vector_loop s) (\<lambda>s. Some (run [LDR_const 0 cs3_start_asm] (run (irq_stack_on irq_top) s))))"

text \<open>\<open>__cs3_reset\<close> of \<^verbatim>\<open>startup_c07e2.S\<close>: the C function \<open>low_level_init\<close> is an argument, as the registers it changes are not part of its
  model.\<close>

definition c07e2_reset :: "u32 \<Rightarrow> u32 \<Rightarrow> u32 \<Rightarrow> u32 \<Rightarrow> u32 \<Rightarrow> u32 \<Rightarrow> ('a arm_scheme \<Rightarrow> 'a arm_scheme) \<Rightarrow> 'a arm_scheme \<Rightarrow> 'a arm_scheme" where
  "c07e2_reset cs3_reset_addr cs3_start_asm cs3_stack svc_top irq_top ret init s =
     (let s = run [LDR_const 0 cs3_reset_addr, LDR_const 1 cs3_start_asm, MOV 14 1, LDR_const 13 cs3_stack] s;
          s = init (run [LDR_const 14 ret] s);
          s = run [MSR_cpsr_c (SVC_MODE OR NO_INT), LDR_const 13 svc_top] s;
          s = run (irq_stack_on irq_top) s;
          s = run [MSR_cpsr_c (SYS_MODE OR NO_INT), LDR_const 13 cs3_stack] s
      in run [LDR_const 0 cs3_start_asm] s)"

definition EnterUserMode :: "instr list" where
  "EnterUserMode = [MRS_cpsr 0, BIC_imm 1 0 0x1F, ORR_imm 1 1 0x10, MSR_cpsr 1]"

lemma area_4: "x \<in> area (a + 4) m \<Longrightarrow> x \<in> area a (m + 4)"
proof -
  assume x: "x \<in> area (a + 4) m"
  have "unat (x - a) = unat (x - (a + 4) + 4)" by (simp add: algebra_simps)
  also have "\<dots> \<le> unat (x - (a + 4)) + 4" using unat_word_ariths(1) [of "x - (a + 4)" 4] by (simp add: mod_less_eq_dividend)
  finally show ?thesis using x by (simp add: area_def)
qed

lemma load32_apart:
  assumes "area a n \<inter> area b n = {}" "4 * k + 4 \<le> n" "4 \<le> n" "n \<le> 2 ^ 32"
  shows "load32 (store32 b v m) (a + 4 * of_nat k) = load32 m (a + 4 * of_nat k)"
proof (rule load32_cong, rule store32_outside)
  fix j :: nat assume "j < 4"
  then have "a + of_nat (4 * k + j) \<in> area a n" using assms(2,4) by (intro area_offset) simp_all
  then have "a + of_nat (4 * k + j) \<notin> area b n" using assms(1) by auto
  then have "4 \<le> unat (a + of_nat (4 * k + j) - b)" using assms(3) by (simp add: area_def)
  then show "4 \<le> a + 4 * of_nat k + of_nat j - b" by (simp add: word_le_nat_alt add.assoc)
qed

lemma vector_loop_run:
  "u = arm_regs s 0x10 \<Longrightarrow> unat (u 2) = unat (u 1) + 4 * n \<Longrightarrow> unat (u 2) < 2 ^ 31 \<Longrightarrow>
   area (u 1) (4 * n) \<inter> area (u 0) (4 * n) = {} \<Longrightarrow>
   \<exists>r. vector_loop s = Some (s\<lparr>mem := store_words (u 0) (map (\<lambda>k. load32 (mem s) (u 1 + 4 * of_nat k)) [0 ..< n]) (mem s),
       arm_regs := (arm_regs s)(0x10 := r)\<rparr>) \<and> (\<forall>k \<ge> 5. r k = u k)"
proof (induction n arbitrary: s u)
  case 0
  then have "sint (u 1) = sint (u 2)" by (simp add: sint_u32_nat)
  then have "vector_loop s = Some s" using 0(1) by (subst vector_loop.simps) (simp add: reg_lo)
  then show ?case using 0(1) by (intro exI [of _ u]) simp
next
  case (Suc n)
  let ?w = "load32 (mem s) (u 1)"
  let ?s = "s\<lparr>mem := store32 (u 0) ?w (mem s), arm_regs := (arm_regs s)(0x10 := u(1 := u 1 + 4, 3 := ?w, 0 := u 0 + 4))\<rparr>"
  have "sint (u 1) < sint (u 2)" using Suc.prems(2,3) by (simp add: sint_u32_nat)
  then have step: "vector_loop s = vector_loop ?s" using Suc.prems(1)
    by (subst vector_loop.simps) (simp add: reg_lo set_reg_lo bank_upd_def Let_def)
  have "unat (u 1 + 4) = unat (u 1) + 4" using Suc.prems(2,3) unat_add_u32 [of "u 1" 4] by simp
  moreover have "area (u 1 + 4) (4 * n) \<inter> area (u 0 + 4) (4 * n) = {}"
    using Suc.prems(4) area_4 [of _ "u 1" "4 * n"] area_4 [of _ "u 0" "4 * n"] by (auto simp: add.commute)
  ultimately obtain r where r: "vector_loop ?s = Some (?s\<lparr>mem := store_words (u 0 + 4) (map (\<lambda>k. load32 (mem ?s) (u 1 + 4 + 4 * of_nat k)) [0 ..< n]) (mem ?s),
      arm_regs := (arm_regs ?s)(0x10 := r)\<rparr>)" "\<forall>k \<ge> 5. r k = arm_regs ?s 0x10 k"
    using Suc.IH [OF refl, of ?s] Suc.prems(2,3) by (auto simp del: fun_upd_apply simp: fun_upd_same fun_upd_other)
  have "load32 (mem ?s) (u 1 + 4 + 4 * of_nat k) = load32 (mem s) (u 1 + 4 + 4 * of_nat k)" if "k < n" for k
    using load32_apart [OF Suc.prems(4), of "Suc k" ?w "mem s"] that Suc.prems(2,3) by (simp add: add.assoc)
  then have "map (\<lambda>k. load32 (mem s) (u 1 + 4 * of_nat k)) [0 ..< Suc n] =
      ?w # map (\<lambda>k. load32 (mem ?s) (u 1 + 4 + 4 * of_nat k)) [0 ..< n]"
    by (simp add: map_upt_Suc add.assoc del: upt_Suc)
  then show ?case using r unfolding step by (intro exI [of _ r]) (simp del: fun_upd_apply upt_Suc add: fun_upd_same fun_upd_other)
qed

lemma set_cpsr_all:
  "mode_of (arm_cpsr s) \<noteq> 0x10 \<Longrightarrow> set_cpsr 0xFFFFFFFF v s = s\<lparr>arm_cpsr := v\<rparr>"
proof -
  assume "mode_of (arm_cpsr s) \<noteq> 0x10"
  moreover have all: "(0xFFFFFFFF :: u32) = - 1" by simp
  ultimately show ?thesis unfolding set_cpsr_def Let_def all by simp
qed

lemma irq_stack_run:
  assumes "mode_of (arm_cpsr s) = 0x13" "u = arm_regs s 0x10" "c = arm_cpsr s"
  shows "run (irq_stack_on tp) s = s\<lparr>arm_cpsr := c AND NOT 0x80,
    arm_regs := (arm_regs s)(0x12 := (arm_regs s 0x12)(13 := tp), 0x10 := u(1 := (c AND NOT 0x1F) OR 0x12, 0 := c AND NOT 0x80))\<rparr>"
proof -
  have irq: "mode_of ((c AND NOT 0x1F) OR 0x12) = 0x12" by (simp add: mode_of_def bit.conj_disj_distrib2 and.assoc)
  let ?s1 = "run [MRS_cpsr 0, BIC_imm 1 0 0x1F, ORR_imm 1 1 0x12] s"
  have 1: "?s1 = s\<lparr>arm_regs := (arm_regs s)(0x10 := u(0 := c, 1 := (c AND NOT 0x1F) OR 0x12))\<rparr>"
    using assms(2,3) by (simp add: reg_lo set_reg_lo bank_upd_def)
  have 2: "exec (MSR_cpsr 1) ?s1 = ?s1\<lparr>arm_cpsr := (c AND NOT 0x1F) OR 0x12\<rparr>"
    unfolding 1 using assms by (simp add: set_cpsr_all reg_lo)
  have "run (irq_stack_on tp) s = run [LDR_const 13 tp, BIC_imm 0 0 0x80, MSR_cpsr 0] (exec (MSR_cpsr 1) ?s1)"
    by (simp add: irq_stack_on_def)
  also have "\<dots> = s\<lparr>arm_cpsr := c AND NOT 0x80,
    arm_regs := (arm_regs s)(0x12 := (arm_regs s 0x12)(13 := tp), 0x10 := u(1 := (c AND NOT 0x1F) OR 0x12, 0 := c AND NOT 0x80))\<rparr>"
    unfolding 2 unfolding 1 using irq
    by (simp add: set_reg_def reg_def bank_def bank_upd_def set_cpsr_all fun_upd_twist)
  finally show ?thesis .
qed

text \<open>C18: the reset handler of c07e1 installs the vector table. It ends in supervisor mode with IRQs enabled, with the words of the
  table at address 0, so that each exception reaches its handler through a load relative to the program counter, which finds the
  same address as at the place the table was linked to; the stack pointers of supervisor and IRQ mode are set, and no other
  memory is changed.\<close>

theorem c07e1_reset_vectors:
  assumes svc: "mode_of (arm_cpsr s) = SVC_MODE"
    and vec: "unat vectors_end = unat vectors_start + 60" "unat vectors_end < 2 ^ 31" "60 \<le> unat vectors_start"
    and image: "\<forall>k < 15. load32 (mem s) (vectors_start + 4 * of_nat k) = c07e1_vectors hs ! k"
  shows "\<exists>s'. c07e1_reset rst start_asm stack irq_top vectors_start vectors_end s = Some s' \<and>
    exc_target (mem s') 0x00 = Some (cs3_reset hs) \<and> exc_target (mem s') 0x04 = Some (ARM_undef hs) \<and>
    exc_target (mem s') 0x08 = Some (ARM_swi hs) \<and> exc_target (mem s') 0x0C = Some (ARM_pAbort hs) \<and>
    exc_target (mem s') 0x10 = Some (ARM_dAbort hs) \<and> exc_target (mem s') 0x14 = None \<and>
    exc_target (mem s') 0x18 = Some (ARM_irq hs) \<and> exc_target (mem s') 0x1C = Some (ARM_fiq hs) \<and>
    (\<forall>a. 60 \<le> a \<longrightarrow> mem s' a = mem s a) \<and> trace s' = trace s \<and>
    mode_of (arm_cpsr s') = SVC_MODE \<and> arm_cpsr s' AND NO_IRQ = 0 \<and> reg 0 s' = start_asm \<and>
    reg 13 s' = stack \<and> arm_regs s' IRQ_MODE 13 = irq_top"
proof -
  let ?s1 = "run [LDR_const 0 0, LDR_const 1 vectors_start, LDR_const 2 vectors_end]
    (run [LDR_const 0 rst, LDR_const 1 start_asm, MOV 14 1, LDR_const 13 stack] s)"
  let ?u = "(arm_regs s 0x10)(0 := 0, 1 := vectors_start, 2 := vectors_end)"
  have s1: "?s1 = s\<lparr>arm_regs := (arm_regs s)(0x13 := (arm_regs s 0x13)(14 := start_asm, 13 := stack), 0x10 := ?u)\<rparr>"
    using svc by (simp add: set_reg_def reg_def bank_def bank_upd_def fun_upd_twist)
  have ws: "map (\<lambda>k. load32 (mem s) (vectors_start + 4 * of_nat k)) [0 ..< 15] = c07e1_vectors hs"
    using image by (intro nth_equalityI) (simp_all add: c07e1_vectors_def)
  have "area vectors_start 60 \<inter> area 0 60 = {}"
    using area_disjoint [of 0 60 vectors_start 60] vec by (simp add: Int_commute)
  then obtain r where v: "vector_loop ?s1 = Some (?s1\<lparr>mem := store_words 0 (c07e1_vectors hs) (mem s), arm_regs := (arm_regs ?s1)(0x10 := r)\<rparr>)"
    using vector_loop_run [OF refl, of ?s1 15] vec(1,2) unfolding s1 by (auto simp: ws)
  let ?s2 = "?s1\<lparr>mem := store_words 0 (c07e1_vectors hs) (mem s), arm_regs := (arm_regs ?s1)(0x10 := r)\<rparr>"
  have "mode_of (arm_cpsr ?s2) = 0x13" unfolding s1 using svc by simp
  note i = irq_stack_run [OF this refl refl, of irq_top]
  let ?s' = "run [LDR_const 0 start_asm] (run (irq_stack_on irq_top) ?s2)"
  have run: "c07e1_reset rst start_asm stack irq_top vectors_start vectors_end s = Some ?s'"
    unfolding c07e1_reset_def Let_def v by simp
  let ?m = "store_words 0 (c07e1_vectors hs) (mem s)"
  have len: "length (c07e1_vectors hs) = 15" by (simp add: c07e1_vectors_def)
  have l: "load32 ?m (4 * of_nat k) = c07e1_vectors hs ! k" if "k < 15" for k
    using load_store_words [of k "c07e1_vectors hs" 0 "mem s"] that len by simp
  have t: "exc_target ?m 0x00 = Some (cs3_reset hs)" "exc_target ?m 0x04 = Some (ARM_undef hs)"
    "exc_target ?m 0x08 = Some (ARM_swi hs)" "exc_target ?m 0x0C = Some (ARM_pAbort hs)"
    "exc_target ?m 0x10 = Some (ARM_dAbort hs)" "exc_target ?m 0x14 = None"
    "exc_target ?m 0x18 = Some (ARM_irq hs)" "exc_target ?m 0x1C = Some (ARM_fiq hs)"
    using l [of 0] l [of 1] l [of 2] l [of 3] l [of 4] l [of 5] l [of 6] l [of 7] l [of 8] l [of 9] l [of 10] l [of 11]
      l [of 12] l [of 13] l [of 14] by (simp_all add: exc_target_def c07e1_vectors_def Let_def)
  have "?m a = mem s a" if "60 \<le> a" for a
    using that len store_words_outside [of "c07e1_vectors hs" a 0 "mem s"] by (simp add: word_le_nat_alt)
  moreover have "mem ?s' = ?m" "trace ?s' = trace s" "arm_cpsr ?s' = arm_cpsr s AND NOT 0x80"
    "arm_regs ?s' 0x12 13 = irq_top" "arm_regs ?s' 0x13 13 = stack" "reg 0 ?s' = start_asm"
    unfolding i unfolding s1 by (simp_all add: set_reg_lo reg_lo)
  moreover have "mode_of (arm_cpsr s AND NOT 0x80) = SVC_MODE" "(arm_cpsr s AND NOT 0x80) AND NO_IRQ = 0"
    using svc by (simp_all add: mode_of_def and.assoc)
  ultimately show ?thesis using t run by (intro exI [of _ ?s']) (simp add: reg_def bank_def del: run_simps)
qed

theorem c07e1_reset_vectors_witness:
  "\<exists>s'. c07e1_reset 0x10040 0x100A0 0x40000 0x50000 0x10000 0x1003C
       (demo_thread\<lparr>arm_cpsr := 0xD3, mem := store_words 0x10000 (c07e1_vectors demo_handlers) (\<lambda>_. 0)\<rparr>) = Some s' \<and>
     exc_target (mem s') 0x18 = Some (ARM_irq demo_handlers) \<and> reg 13 s' = 0x40000"
proof -
  let ?s = "demo_thread\<lparr>arm_cpsr := 0xD3, mem := store_words 0x10000 (c07e1_vectors demo_handlers) (\<lambda>_. 0)\<rparr>"
  have len: "length (c07e1_vectors demo_handlers) = 15" by (simp add: c07e1_vectors_def)
  have "\<forall>k < 15. load32 (mem ?s) (0x10000 + 4 * of_nat k) = c07e1_vectors demo_handlers ! k"
    using load_store_words [of _ "c07e1_vectors demo_handlers" "0x10000"] len by simp
  from c07e1_reset_vectors [OF _ _ _ _ this, of "0x1003C" "0x10040" "0x100A0" "0x40000" "0x50000"] show ?thesis
    by (auto simp: mode_of_def)
qed

text \<open>The reset handler of c07e2: \<open>low_level_init\<close> has stored the vectors, and the C code is entered in system mode with
  interrupts disabled and the stack pointers of the supervisor, IRQ and system modes set.\<close>

lemma c07e2_reset_state:
  fixes s :: "'a arm_scheme"
  assumes svc: "mode_of (arm_cpsr s) = SVC_MODE"
    and c: "c = run [LDR_const 14 ret] (run [LDR_const 0 rst, LDR_const 1 start_asm, MOV 14 1, LDR_const 13 stack] s)"
    and init: "mem (init c) = mem (low_level_init hs c)" "trace (init c) = trace c" "mode_of (arm_cpsr (init c)) = SVC_MODE"
    and s': "s' = c07e2_reset rst start_asm stack svc_top irq_top ret init s"
  shows "mem s' = mem (low_level_init hs s)" "trace s' = trace s" "mode_of (arm_cpsr s') = SYS_MODE" "arm_cpsr s' AND NO_INT = NO_INT"
    "reg 0 s' = start_asm" "reg 13 s' = stack" "arm_regs s' SVC_MODE 13 = svc_top" "arm_regs s' IRQ_MODE 13 = irq_top"
proof -
  define t where "t = init c"
  have mc: "mem c = mem s" "trace c = trace s" by (simp_all add: c set_reg_def)
  have m: "mem t = mem (low_level_init hs s)" "trace t = trace s"
    using init mc by (simp_all add: t_def low_level_init_def Let_def)
  have ne: "mode_of (arm_cpsr t) \<noteq> 0x10" using init(3) by (simp add: t_def)
  define t1 where "t1 = run [MSR_cpsr_c 0xD3, LDR_const 13 svc_top] t"
  have t1: "t1 = t\<lparr>arm_cpsr := (arm_cpsr t AND - 256) OR (0xD3 AND 0xFF), arm_regs := (arm_regs t)(0x13 := (arm_regs t 0x13)(13 := svc_top))\<rparr>"
    unfolding t1_def by (rule set_stack [OF ne]) (simp_all add: bank_def)
  have m1: "mode_of (arm_cpsr t1) = 0x13" unfolding t1 using mode_of_simps(1) [of "arm_cpsr t" "0xD3"] by simp
  note t2 = irq_stack_run [OF m1 refl refl, of irq_top]
  define t2 where "t2 = run (irq_stack_on irq_top) t1"
  have ne2: "mode_of (arm_cpsr t2) \<noteq> 0x10" unfolding t2_def t2 using m1 by (simp add: mode_of_def and.assoc)
  define t3 where "t3 = run [MSR_cpsr_c 0xDF, LDR_const 13 stack] t2"
  have t3: "t3 = t2\<lparr>arm_cpsr := (arm_cpsr t2 AND - 256) OR (0xDF AND 0xFF), arm_regs := (arm_regs t2)(0x10 := (arm_regs t2 0x10)(13 := stack))\<rparr>"
    unfolding t3_def by (rule set_stack [OF ne2]) (simp_all add: bank_def)
  have "s' = run [LDR_const 0 start_asm] t3"
    unfolding s' c07e2_reset_def Let_def c [symmetric] t_def [symmetric] t3_def t2_def t1_def by simp
  then have s'': "s' = bank_upd 0x10 0 start_asm t3" by (simp add: set_reg_lo)
  have m3: "mode_of (arm_cpsr t3) = 0x1F" unfolding t3 using mode_of_simps(1) [of "arm_cpsr t2" "0xDF"] by simp
  show "mem s' = mem (low_level_init hs s)" "trace s' = trace s" "arm_regs s' SVC_MODE 13 = svc_top" "arm_regs s' IRQ_MODE 13 = irq_top"
    unfolding s'' t3 t2_def t2 unfolding t1 using m by simp_all
  show "mode_of (arm_cpsr s') = SYS_MODE" "reg 0 s' = start_asm" using m3 by (simp_all add: s'' reg_lo)
  show "arm_cpsr s' AND NO_INT = NO_INT" unfolding s'' t3 by (simp add: bit.conj_disj_distrib2 and.assoc)
  show "reg 13 s' = stack" using m3 unfolding s'' t3 by (simp add: reg_def bank_def)
qed

lemma EnterUserMode_run:
  assumes "mode_of (arm_cpsr s) \<noteq> 0x10"
  shows "arm_cpsr (run EnterUserMode s) = (arm_cpsr s AND NOT 0x1F) OR 0x10" "mem (run EnterUserMode s) = mem s"
    "trace (run EnterUserMode s) = trace s"
proof -
  let ?s = "run [MRS_cpsr 0, BIC_imm 1 0 0x1F, ORR_imm 1 1 0x10] s"
  have "run EnterUserMode s = set_cpsr 0xFFFFFFFF (reg 1 ?s) ?s" by (simp add: EnterUserMode_def)
  moreover have "?s = s\<lparr>arm_regs := (arm_regs s)(0x10 := (arm_regs s 0x10)(0 := arm_cpsr s, 1 := (arm_cpsr s AND NOT 0x1F) OR 0x10))\<rparr>"
    by (simp add: reg_lo set_reg_lo bank_upd_def)
  ultimately show "arm_cpsr (run EnterUserMode s) = (arm_cpsr s AND NOT 0x1F) OR 0x10" "mem (run EnterUserMode s) = mem s"
    "trace (run EnterUserMode s) = trace s"
    using assms by (simp_all add: set_cpsr_all reg_lo)
qed

end
