(* ===== verification/Startup_Rom.thy ===== *)
theory Startup_Rom
  imports Startup
begin

text \<open>
  The start-up code for programs linked into ROM, \<^verbatim>\<open>drivers/startup.S\<close>: the vectors, \<open>_reset\<close> and \<open>_cstartup\<close>. The symbols of the linker
  script are arguments. The loops move words and compare addresses as signed numbers; they share \<open>fill_loop\<close> and the stack
  set-up with the reset handler of chapter 5.
\<close>

section \<open>Words in memory\<close>

definition words_at :: "memory \<Rightarrow> u32 \<Rightarrow> nat \<Rightarrow> u32 list" where
  "words_at m a n = map (\<lambda>k. load32 m (a + 4 * of_nat k)) [0 ..< n]"

primrec areas_apart :: "(u32 \<times> nat) list \<Rightarrow> bool" where
  "areas_apart [] = True"
| "areas_apart (x # xs) = ((\<forall>y \<in> set xs. area (fst x) (snd x) \<inter> area (fst y) (snd y) = {}) \<and> areas_apart xs)"

lemma length_words_at [simp]: "length (words_at m a n) = n"
  by (simp add: words_at_def)

lemma words_at_store:
  "4 * length ws \<le> 2 ^ 32 \<Longrightarrow> words_at (store_words a ws m) a (length ws) = ws"
  by (rule nth_equalityI) (simp_all add: words_at_def load_store_words)

lemma words_at_other:
  assumes "area a (4 * n) \<inter> area b (4 * length ws) = {}" "4 * n \<le> 2 ^ 32"
  shows "words_at (store_words b ws m) a n = words_at m a n"
proof (rule nth_equalityI)
  fix k assume "k < length (words_at (store_words b ws m) a n)"
  then have k: "k < n" by simp
  have "load32 (store_words b ws m) (a + 4 * of_nat k) = load32 m (a + 4 * of_nat k)"
  proof (rule load32_cong, rule store_words_area)
    fix j :: nat assume "j < 4"
    then have "a + of_nat (4 * k + j) \<in> area a (4 * n)" using k assms(2) by (intro area_offset) simp_all
    then show "a + 4 * of_nat k + of_nat j \<notin> area b (4 * length ws)" using assms(1) by (simp add: add.assoc) blast
  qed
  then show "words_at (store_words b ws m) a n ! k = words_at m a n ! k" using k by (simp add: words_at_def)
qed simp

section \<open>The code\<close>

record rom_syms = ld_syms +
  rom_reset :: u32
  rom_cstartup :: u32
  fastcode_load :: u32
  fastcode_start :: u32
  fastcode_end :: u32
  data_load :: u32
  rom_main :: u32
  rom_swi :: u32

text \<open>The vector table in the ROM: the reset vector branches to \<open>_reset\<close>, the others to themselves.\<close>

definition rom_vectors :: "rom_syms \<Rightarrow> u32 option list" where
  "rom_vectors ld = Some (rom_reset ld) # replicate 7 None"

definition rom_reset_code :: "rom_syms \<Rightarrow> instr list" where
  "rom_reset_code ld = [LDR_const 0 (rom_reset ld), LDR_const 1 (rom_cstartup ld), MOV 14 1, LDR_const 13 (stack_end ld)]"

text \<open>The loop that relocates words; the comparison is signed.\<close>

partial_function (option) word_copy_loop :: "'a arm_scheme \<Rightarrow> 'a arm_scheme option" where
  "word_copy_loop s = (if sint (reg 1 s) < sint (reg 2 s) then word_copy_loop (run [LDMIA 0 3, STMIA 1 3] s) else Some s)"

text \<open>\<open>_cstartup\<close>, up to the entry of \<open>main\<close>; \<open>MOV lr,pc\<close> leaves the address of the \<open>SWI\<close> behind the branch in \<open>lr\<close>.\<close>

definition cstartup :: "rom_syms \<Rightarrow> 'a arm_scheme \<Rightarrow> 'a arm_scheme option" where
  "cstartup ld s =
     Option.bind (word_copy_loop (run [LDR_const 0 (fastcode_load ld), LDR_const 1 (fastcode_start ld), LDR_const 2 (fastcode_end ld)] s)) (\<lambda>s.
     Option.bind (word_copy_loop (run [LDR_const 0 (data_load ld), LDR_const 1 (ld_data ld), LDR_const 2 (edata ld)] s)) (\<lambda>s.
     Option.bind (fill_loop (run [LDR_const 1 (ld_bss ld), LDR_const 2 (ebss ld), MOV_imm 3 0] s)) (\<lambda>s.
     Option.bind (fill_loop (run [LDR_const 1 (stack_start ld), LDR_const 2 (stack_end ld), LDR_const 3 STACK_FILL] s)) (\<lambda>s.
       let s = run (init_stacks ld) s;
           s = run [MOV_imm 0 1, LDR_const 1 (ld_version ld), LDR_const 12 (rom_main ld), LDR_const 14 (rom_swi ld)] s
       in Some (s\<lparr>arm_pc := reg 12 s\<rparr>)))))"

text \<open>The whole path from reset to \<open>main\<close>. The C function \<open>low_level_init\<close> is an argument, as the registers it changes are not part of
  its model; it returns to the address in \<open>lr\<close>, which is that of \<open>_cstartup\<close>.\<close>

definition rom_start :: "rom_syms \<Rightarrow> ('a arm_scheme \<Rightarrow> 'a arm_scheme) \<Rightarrow> 'a arm_scheme \<Rightarrow> 'a arm_scheme option" where
  "rom_start ld init s = cstartup ld (init (run (rom_reset_code ld) s))"

text \<open>If \<open>main\<close> returns, the software interrupt behind the call is taken.\<close>

definition rom_main_returned :: "rom_syms \<Rightarrow> 'a arm_scheme \<Rightarrow> 'a arm_scheme" where
  "rom_main_returned ld s = take_exception SVC_MODE NO_IRQ (rom_swi ld) s"

text \<open>\<^verbatim>\<open>drivers/startup_cs3.S\<close>: the reset handler and the start of the C library, each up to its branch. \<open>MOV lr,pc\<close> leaves the address
  behind the branch in \<open>lr\<close>.\<close>

definition cs3_reset_jump :: "u32 \<Rightarrow> u32 \<Rightarrow> 'a arm_scheme \<Rightarrow> 'a arm_scheme" where
  "cs3_reset_jump start_asm ret s =
     (let s = run [LDR_const 0 start_asm, LDR_const 14 ret] s in s\<lparr>arm_pc := reg 0 s\<rparr>)"

definition cs3_start_asm_jump :: "u32 \<Rightarrow> u32 \<Rightarrow> u32 \<Rightarrow> 'a arm_scheme \<Rightarrow> 'a arm_scheme" where
  "cs3_start_asm_jump stack start_c ret s =
     (let s = run [LDR_const 13 stack, LDR_const 0 start_c, LDR_const 14 ret] s in s\<lparr>arm_pc := reg 0 s\<rparr>)"

lemma cs3_start:
  assumes "s' = cs3_start_asm_jump stack start_c ret2 (cs3_reset_jump start_asm ret1 s)"
  shows "arm_pc (cs3_reset_jump start_asm ret1 s) = start_asm" "arm_pc s' = start_c" "reg 13 s' = stack" "reg 14 s' = ret2"
    "mem s' = mem s" "arm_cpsr s' = arm_cpsr s"
  unfolding assms by (auto simp: cs3_start_asm_jump_def cs3_reset_jump_def Let_def set_reg_def reg_def bank_def)

section \<open>The loops\<close>

lemma word_copy_run:
  "u = arm_regs s 0x10 \<Longrightarrow> unat (u 2) = unat (u 1) + 4 * n \<Longrightarrow> unat (u 2) < 2 ^ 31 \<Longrightarrow>
   area (u 0) (4 * n) \<inter> area (u 1) (4 * n) = {} \<Longrightarrow>
   \<exists>r. word_copy_loop s = Some (s\<lparr>mem := store_words (u 1) (words_at (mem s) (u 0) n) (mem s),
       arm_regs := (arm_regs s)(0x10 := r)\<rparr>) \<and> (\<forall>k \<ge> 5. r k = u k)"
proof (induction n arbitrary: s u)
  case 0
  then have "sint (u 1) = sint (u 2)" by (simp add: sint_u32_nat)
  then have "word_copy_loop s = Some s" using 0(1) by (subst word_copy_loop.simps) (simp add: reg_lo)
  then show ?case using 0(1) by (intro exI [of _ u]) (simp add: words_at_def)
next
  case (Suc n)
  let ?w = "load32 (mem s) (u 0)"
  let ?u = "u(0 := u 0 + 4, 3 := ?w, 1 := u 1 + 4)"
  let ?s = "s\<lparr>mem := store32 (u 1) ?w (mem s), arm_regs := (arm_regs s)(0x10 := ?u)\<rparr>"
  have "sint (u 1) < sint (u 2)" using Suc.prems(2,3) by (simp add: sint_u32_nat)
  then have step: "word_copy_loop s = word_copy_loop ?s" using Suc.prems(1)
    by (subst word_copy_loop.simps) (simp add: reg_lo set_reg_lo bank_upd_def Let_def)
  have "unat (u 1 + 4) = unat (u 1) + 4" using Suc.prems(2,3) unat_add_u32 [of "u 1" 4] by simp
  then have 1: "?u = arm_regs ?s 0x10" "unat (?u 2) = unat (?u 1) + 4 * n" "unat (?u 2) < 2 ^ 31" using Suc.prems(2,3) by simp_all
  have "area (u 0 + 4) (4 * n) \<inter> area (u 1 + 4) (4 * n) = {}"
    using Suc.prems(4) area_4 [of _ "u 0" "4 * n"] area_4 [of _ "u 1" "4 * n"] by (auto simp: add.commute)
  then have 2: "area (?u 0) (4 * n) \<inter> area (?u 1) (4 * n) = {}" by simp
  from Suc.IH [OF 1 2] obtain r where r: "word_copy_loop ?s = Some (?s\<lparr>mem := store_words (?u 1) (words_at (mem ?s) (?u 0) n) (mem ?s),
      arm_regs := (arm_regs ?s)(0x10 := r)\<rparr>)" "\<forall>k \<ge> 5. r k = ?u k" by blast
  have "load32 (mem ?s) (u 0 + 4 + 4 * of_nat k) = load32 (mem s) (u 0 + 4 + 4 * of_nat k)" if "k < n" for k
    using load32_apart [OF Suc.prems(4), of "Suc k" ?w "mem s"] that Suc.prems(2,3) by (simp add: add.assoc)
  then have "words_at (mem s) (u 0) (Suc n) = ?w # words_at (mem ?s) (u 0 + 4) n"
    by (simp add: words_at_def map_upt_Suc add.assoc del: upt_Suc)
  then show ?case using r unfolding step by (intro exI [of _ r]) (simp del: fun_upd_apply add: fun_upd_same fun_upd_other)
qed

lemma word_copy_stage:
  assumes "unat e = unat d + 4 * n" "unat e < 2 ^ 31" "area l (4 * n) \<inter> area d (4 * n) = {}"
  shows "\<exists>r. word_copy_loop (run [LDR_const 0 l, LDR_const 1 d, LDR_const 2 e] s) =
      Some (s\<lparr>mem := store_words d (words_at (mem s) l n) (mem s), arm_regs := (arm_regs s)(0x10 := r)\<rparr>)"
proof -
  define s1 where "s1 = run [LDR_const 0 l, LDR_const 1 d, LDR_const 2 e] s"
  have s1: "s1 = s\<lparr>arm_regs := (arm_regs s)(0x10 := (arm_regs s 0x10)(0 := l, 1 := d, 2 := e))\<rparr>"
    by (simp add: s1_def set_reg_lo bank_upd_def)
  obtain r where "word_copy_loop s1 = Some (s1\<lparr>mem := store_words d (words_at (mem s1) l n) (mem s1), arm_regs := (arm_regs s1)(0x10 := r)\<rparr>)"
    using word_copy_run [OF refl, of s1 n] assms by (auto simp: s1)
  then show ?thesis unfolding s1_def [symmetric] using s1 by (intro exI [of _ r]) (simp del: fun_upd_apply add: fun_upd_same fun_upd_other)
qed

lemma cstartup_run:
  fixes s :: "'a arm_scheme"
  assumes priv: "mode_of (arm_cpsr s) \<noteq> USR_MODE"
    and fast: "unat (fastcode_end ld) = unat (fastcode_start ld) + 4 * nf" "unat (fastcode_end ld) < 2 ^ 31"
    and data: "unat (edata ld) = unat (ld_data ld) + 4 * nd" "unat (edata ld) < 2 ^ 31"
    and bss: "unat (ebss ld) = unat (ld_bss ld) + 4 * nb" "unat (ebss ld) < 2 ^ 31"
    and stack: "unat (stack_end ld) = unat (stack_start ld) + 4 * ns" "unat (stack_end ld) < 2 ^ 31"
    and apart: "area (fastcode_load ld) (4 * nf) \<inter> area (fastcode_start ld) (4 * nf) = {}"
      "area (data_load ld) (4 * nd) \<inter> area (ld_data ld) (4 * nd) = {}"
    and m1: "m1 = store_words (fastcode_start ld) (words_at (mem s) (fastcode_load ld) nf) (mem s)"
    and m2: "m2 = store_words (ld_data ld) (words_at m1 (data_load ld) nd) m1"
    and m4: "m4 = store_words (stack_start ld) (replicate ns STACK_FILL) (store_words (ld_bss ld) (replicate nb 0) m2)"
  shows "\<exists>r. cstartup ld s = Some (s\<lparr>mem := m4, arm_cpsr := (arm_cpsr s AND - 256) OR (0xDF AND 0xFF),
      arm_regs := (arm_regs s)(0x12 := (arm_regs s 0x12)(13 := irq_stack_top ld), 0x11 := (arm_regs s 0x11)(13 := fiq_stack_top ld),
        0x13 := (arm_regs s 0x13)(13 := svc_stack_top ld), 0x17 := (arm_regs s 0x17)(13 := abt_stack_top ld),
        0x1B := (arm_regs s 0x1B)(13 := und_stack_top ld), 0x10 := r), arm_pc := rom_main ld\<rparr>) \<and>
    r 0 = 1 \<and> r 1 = ld_version ld \<and> r 13 = c_stack_top ld \<and> r 14 = rom_swi ld"
proof -
  let ?at = "\<lambda>m r. s\<lparr>mem := m, arm_regs := (arm_regs s)(0x10 := r)\<rparr>"
  obtain r1 where 1: "word_copy_loop (run [LDR_const 0 (fastcode_load ld), LDR_const 1 (fastcode_start ld), LDR_const 2 (fastcode_end ld)] s) =
      Some (?at m1 r1)" using word_copy_stage [OF fast apart(1), of s] unfolding m1 by blast
  obtain r2 where 2: "word_copy_loop (run [LDR_const 0 (data_load ld), LDR_const 1 (ld_data ld), LDR_const 2 (edata ld)] (?at m1 r1)) =
      Some (?at m2 r2)" using word_copy_stage [OF data apart(2), of "?at m1 r1"] unfolding m2 by auto
  let ?m3 = "store_words (ld_bss ld) (replicate nb 0) m2"
  have mov: "run [LDR_const 1 b, LDR_const 2 e, MOV_imm 3 v] t = run [LDR_const 1 b, LDR_const 2 e, LDR_const 3 v] t"
    for b e v and t :: "'a arm_scheme" by simp
  obtain r3 where 3: "fill_loop (run [LDR_const 1 (ld_bss ld), LDR_const 2 (ebss ld), MOV_imm 3 0] (?at m2 r2)) = Some (?at ?m3 r3)"
    using fill_stage [OF bss refl, of 0 "?at m2 r2"] unfolding mov by auto
  obtain r4 where 4: "fill_loop (run [LDR_const 1 (stack_start ld), LDR_const 2 (stack_end ld), LDR_const 3 STACK_FILL] (?at ?m3 r3)) =
      Some (?at m4 r4)" using fill_stage [OF stack refl, of STACK_FILL "?at ?m3 r3"] unfolding m4 by auto
  have run: "cstartup ld s = (let t = run [MOV_imm 0 1, LDR_const 1 (ld_version ld), LDR_const 12 (rom_main ld), LDR_const 14 (rom_swi ld)]
      (run (init_stacks ld) (?at m4 r4)) in Some (t\<lparr>arm_pc := reg 12 t\<rparr>))"
    unfolding cstartup_def 1 bind.bind_lunit 2 3 4 Let_def ..
  have "mode_of (arm_cpsr (?at m4 r4)) \<noteq> 0x10" using priv by simp
  note st = stacks_run [OF this, of ld]
  have sys: "mode_of ((arm_cpsr s AND - 256) OR 0xDF) = 0x1F" using mode_of_simps(1) [of "arm_cpsr s" "0xDF"] by simp
  show ?thesis unfolding run st
    by (intro exI [of _ "r4(13 := c_stack_top ld, 0 := 1, 1 := ld_version ld, 12 := rom_main ld, 14 := rom_swi ld)"] conjI)
      (simp_all add: Let_def set_reg_def reg_def bank_def sys bank_upd_def del: fun_upd_apply add: fun_upd_same fun_upd_other)
qed

text \<open>A return of \<open>main\<close> reaches the software interrupt. With the handler \<open>ARM_swi\<close> installed, \<open>sw_handler\<close> is called with number
  \<open>0xFFFFFF\<close>, and when it returns, execution goes on behind the end of \<open>_reset\<close>.\<close>

lemma rom_main_return:
  assumes main: "mode_of (arm_cpsr s) \<in> {USR_MODE, SYS_MODE}" "load32 (mem s) (rom_swi ld) = 0xEFFFFFFF"
    and stack: "\<forall>k < 4. 56 \<le> unat (rom_swi ld + of_nat k - (arm_regs s SVC_MODE 13 - 56))"
    and c: "c = run [LDR_const 14 ret] (run ARM_swi_entry (rom_main_returned ld s))"
    and C: "aapcs 56 {} c (sw_handler c)" "arm_spsr (sw_handler c) SVC_MODE = arm_spsr c SVC_MODE"
      "\<forall>k \<in> {13, 14}. arm_regs (sw_handler c) USR_MODE k = arm_regs c USR_MODE k"
    and s': "s' = asm_ARM_swi ret sw_handler (rom_main_returned ld s)"
  shows "reg 0 c = 0xFFFFFF" "resumed (rom_swi ld + 4) {} s (sw_handler c) s'"
  using swi_call_state(4) [OF stack c [unfolded rom_main_returned_def]] main(2)
    swi_resumed(1) [OF main(1) c [unfolded rom_main_returned_def] C s' [unfolded rom_main_returned_def]] by simp_all

section \<open>Properties\<close>

text \<open>C17: the start-up code for the ROM sets up the environment of a C program. \<open>_reset\<close> enters \<open>low_level_init\<close> with the reset
  address and the address of \<open>_cstartup\<close> as arguments, the latter also as return address, and a stack; \<open>_cstartup\<close> then ends, and enters
  \<open>main\<close> in system mode with IRQs and FIQs disabled, 1 as \<open>argc\<close>, the address of \<open>version\<close> as \<open>argv\<close> and the stack pointer of each mode set.
  The fast code and the initialised data are copied from the ROM, the \<open>bss\<close> section is cleared, the stack area is filled with the
  pattern, and no other memory changes. The sections are made of words below \<open>2 ^ 31\<close>, where the signed comparisons are right, and are
  disjoint; \<open>low_level_init\<close> returns in a privileged mode.\<close>

theorem rom_environment:
  assumes c: "c = run (rom_reset_code ld) s" and t: "t = init c" "mode_of (arm_cpsr t) \<noteq> USR_MODE"
    and fast: "unat (fastcode_end ld) = unat (fastcode_start ld) + 4 * nf" "unat (fastcode_end ld) < 2 ^ 31"
    and data: "unat (edata ld) = unat (ld_data ld) + 4 * nd" "unat (edata ld) < 2 ^ 31"
    and bss: "unat (ebss ld) = unat (ld_bss ld) + 4 * nb" "unat (ebss ld) < 2 ^ 31"
    and stack: "unat (stack_end ld) = unat (stack_start ld) + 4 * ns" "unat (stack_end ld) < 2 ^ 31"
    and dest: "areas_apart [(fastcode_start ld, 4 * nf), (ld_data ld, 4 * nd), (ld_bss ld, 4 * nb), (stack_start ld, 4 * ns)]"
    and src: "areas_apart [(fastcode_load ld, 4 * nf), (fastcode_start ld, 4 * nf)]" "areas_apart [(data_load ld, 4 * nd), (ld_data ld, 4 * nd)]"
      "areas_apart [(data_load ld, 4 * nd), (fastcode_start ld, 4 * nf)]"
  shows "\<exists>s'. rom_start ld init s = Some s' \<and>
    reg 0 c = rom_reset ld \<and> reg 1 c = rom_cstartup ld \<and> reg 14 c = rom_cstartup ld \<and> reg 13 c = stack_end ld \<and>
    words_at (mem s') (fastcode_start ld) nf = words_at (mem t) (fastcode_load ld) nf \<and>
    words_at (mem s') (ld_data ld) nd = words_at (mem t) (data_load ld) nd \<and>
    words_at (mem s') (ld_bss ld) nb = replicate nb 0 \<and>
    words_at (mem s') (stack_start ld) ns = replicate ns STACK_FILL \<and>
    (\<forall>a. a \<notin> area (fastcode_start ld) (4 * nf) \<union> area (ld_data ld) (4 * nd) \<union> area (ld_bss ld) (4 * nb) \<union> area (stack_start ld) (4 * ns) \<longrightarrow>
       mem s' a = mem t a) \<and>
    trace s' = trace t \<and> mode_of (arm_cpsr s') = SYS_MODE \<and> arm_cpsr s' AND NO_INT = NO_INT \<and>
    arm_pc s' = rom_main ld \<and> reg 0 s' = 1 \<and> reg 1 s' = ld_version ld \<and> reg 14 s' = rom_swi ld \<and> reg 13 s' = c_stack_top ld \<and>
    arm_regs s' IRQ_MODE 13 = irq_stack_top ld \<and> arm_regs s' FIQ_MODE 13 = fiq_stack_top ld \<and>
    arm_regs s' SVC_MODE 13 = svc_stack_top ld \<and> arm_regs s' ABT_MODE 13 = abt_stack_top ld \<and>
    arm_regs s' UND_MODE 13 = und_stack_top ld"
proof -
  define m1 where "m1 = store_words (fastcode_start ld) (words_at (mem t) (fastcode_load ld) nf) (mem t)"
  define m2 where "m2 = store_words (ld_data ld) (words_at m1 (data_load ld) nd) m1"
  define m3 where "m3 = store_words (ld_bss ld) (replicate nb 0) m2"
  define m4 where "m4 = store_words (stack_start ld) (replicate ns STACK_FILL) m3"
  have n: "4 * nf \<le> 2 ^ 32" "4 * nd \<le> 2 ^ 32" "4 * nb \<le> 2 ^ 32" "4 * ns \<le> 2 ^ 32"
    using fast data bss stack by simp_all
  obtain r where run: "cstartup ld t = Some (t\<lparr>mem := m4, arm_cpsr := (arm_cpsr t AND - 256) OR (0xDF AND 0xFF),
      arm_regs := (arm_regs t)(0x12 := (arm_regs t 0x12)(13 := irq_stack_top ld), 0x11 := (arm_regs t 0x11)(13 := fiq_stack_top ld),
        0x13 := (arm_regs t 0x13)(13 := svc_stack_top ld), 0x17 := (arm_regs t 0x17)(13 := abt_stack_top ld),
        0x1B := (arm_regs t 0x1B)(13 := und_stack_top ld), 0x10 := r), arm_pc := rom_main ld\<rparr>)" (is "_ = Some ?s'")
    "r 0 = 1" "r 1 = ld_version ld" "r 13 = c_stack_top ld" "r 14 = rom_swi ld"
    using cstartup_run [OF t(2) fast data bss stack _ _ m1_def m2_def m4_def [unfolded m3_def]] src(1,2) by auto
  have apart: "area (fastcode_start ld) (4 * nf) \<inter> area (ld_data ld) (4 * nd) = {}"
    "area (fastcode_start ld) (4 * nf) \<inter> area (ld_bss ld) (4 * nb) = {}"
    "area (fastcode_start ld) (4 * nf) \<inter> area (stack_start ld) (4 * ns) = {}"
    "area (ld_data ld) (4 * nd) \<inter> area (ld_bss ld) (4 * nb) = {}" "area (ld_data ld) (4 * nd) \<inter> area (stack_start ld) (4 * ns) = {}"
    "area (ld_bss ld) (4 * nb) \<inter> area (stack_start ld) (4 * ns) = {}"
    using dest by simp_all
  have "words_at m4 (fastcode_start ld) nf = words_at (mem t) (fastcode_load ld) nf"
    using words_at_store [of "words_at (mem t) (fastcode_load ld) nf"] n(1) apart(1-3)
    by (simp add: m4_def m3_def m2_def m1_def words_at_other)
  moreover have "words_at m4 (ld_data ld) nd = words_at (mem t) (data_load ld) nd"
    using words_at_store [of "words_at m1 (data_load ld) nd"] n(2) apart(4,5) src(3)
    by (simp add: m4_def m3_def m2_def words_at_other) (simp add: m1_def words_at_other)
  moreover have "words_at m4 (ld_bss ld) nb = replicate nb 0"
    using words_at_store [of "replicate nb 0"] n(3) apart(6) by (simp add: m4_def m3_def words_at_other)
  moreover have "words_at m4 (stack_start ld) ns = replicate ns STACK_FILL"
    using words_at_store [of "replicate ns STACK_FILL"] n(4) by (simp add: m4_def)
  moreover have "m4 a = mem t a" if "a \<notin> area (fastcode_start ld) (4 * nf) \<union> area (ld_data ld) (4 * nd) \<union> area (ld_bss ld) (4 * nb) \<union>
      area (stack_start ld) (4 * ns)" for a
    using that by (simp add: m4_def m3_def m2_def m1_def store_words_area)
  moreover have "mode_of (arm_cpsr ?s') = SYS_MODE" "arm_cpsr ?s' AND NO_INT = NO_INT"
    using mode_of_simps(1) [of "arm_cpsr t" "0xDF"] by (simp_all add: bit.conj_disj_distrib2 and.assoc)
  moreover have "rom_start ld init s = Some ?s'" using run(1) by (simp only: rom_start_def t(1) c)
  moreover have "reg 0 c = rom_reset ld" "reg 1 c = rom_cstartup ld" "reg 14 c = rom_cstartup ld" "reg 13 c = stack_end ld"
    by (auto simp: c rom_reset_code_def set_reg_def reg_def bank_def)
  ultimately show ?thesis using run(2-5) by (intro exI [of _ ?s']) (simp add: reg_def bank_def)
qed

lemma low_level_init_cpsr: "arm_cpsr (low_level_init hs s) = arm_cpsr s"
  by (simp add: low_level_init_def Let_def store_def)

definition demo_rom :: rom_syms where
  "demo_rom = ld_syms.extend (demo_ld\<lparr>edata := 0x30010, ld_bss := 0x30010, ebss := 0x30020, stack_start := 0x30020, stack_end := 0x30080\<rparr>)
     (rom_syms.fields 0x10020 0x10040 0x11000 0x2F000 0x2F010 0x11010 0x10200 0x10120)"

theorem rom_environment_witness:
  "\<exists>s'. rom_start demo_rom (low_level_init demo_handlers) (demo_thread\<lparr>arm_cpsr := 0xD3\<rparr>) = Some s' \<and> words_at (mem s') 0x30020 24 = replicate 24 0xAAAAAAAA \<and>
     words_at (mem s') 0x30010 4 = replicate 4 0 \<and> arm_pc s' = 0x10200"
proof -
  let ?s = "demo_thread\<lparr>arm_cpsr := 0xD3\<rparr>"
  have syms: "fastcode_load demo_rom = 0x11000" "fastcode_start demo_rom = 0x2F000" "fastcode_end demo_rom = 0x2F010"
    "data_load demo_rom = 0x11010" "ld_data demo_rom = 0x30000" "edata demo_rom = 0x30010" "ld_bss demo_rom = 0x30010"
    "ebss demo_rom = 0x30020" "stack_start demo_rom = 0x30020" "stack_end demo_rom = 0x30080" "rom_main demo_rom = 0x10200"
    by (simp_all add: demo_rom_def ld_syms.defs rom_syms.defs demo_ld_def)
  have priv: "mode_of (arm_cpsr (low_level_init demo_handlers (run (rom_reset_code demo_rom) ?s))) \<noteq> USR_MODE"
    by (simp add: rom_reset_code_def set_reg_def mode_of_def low_level_init_cpsr)
  show ?thesis
    using rom_environment [where init = "low_level_init demo_handlers" and ld = demo_rom and s = ?s and nf = 4 and nd = 4 and nb = 4 and ns = 24,
      OF refl refl priv] area_disjoint [of "0x11000" 16 "0x2F000" 16]
      area_disjoint [of "0x11010" 16 "0x30000" 16] area_disjoint [of "0x11010" 16 "0x2F000" 16]
      area_disjoint [of "0x2F000" 16 "0x30000" 16] area_disjoint [of "0x2F000" 16 "0x30010" 16]
      area_disjoint [of "0x2F000" 16 "0x30020" 96] area_disjoint [of "0x30000" 16 "0x30010" 16]
      area_disjoint [of "0x30000" 16 "0x30020" 96] area_disjoint [of "0x30010" 16 "0x30020" 96]
    by (simp add: syms) blast
qed

end
