(* ===== verification/Exc_Nested.thy ===== *)
theory Exc_Nested
  imports Exc
begin

text \<open>
  Interrupts that interrupt interrupts, at the level of the processor. \<open>BSP_irq\<close> opens the processor while the program's handler runs, so \<open>ARM_irq\<close> of
  \<^verbatim>\<open>drivers/arm_exc.S\<close> can be entered again before it has returned; it has one return address register and one saved status register for all its
  activations, and all of them use the stack of the interrupted program. A configuration is the state of the processor with the
  activations, the innermost first, each with the address and the state in which it interrupted the code below it.
\<close>

section \<open>States and steps\<close>

definition usr_sp :: "'a arm_scheme \<Rightarrow> u32" where
  "usr_sp s = arm_regs s USR_MODE 13"

text \<open>The state in which \<open>BSP_irq\<close> is called for an interrupt in front of the instruction at \<open>p\<close>.\<close>

definition irq_call :: "u32 \<Rightarrow> u32 \<Rightarrow> u32 \<Rightarrow> 'a arm_scheme \<Rightarrow> 'a arm_scheme" where
  "irq_call addr ret p s = run [LDR_const 12 addr, LDR_const 14 ret] (run ARM_irq_entry (take_exception IRQ_MODE NO_IRQ p s))"

text \<open>The lowest address that the running code must leave alone: the bottom of the frame of its activation, or the top of the stack.\<close>

fun frame_base :: "nat \<Rightarrow> (u32 \<times> 'a arm_scheme) list \<Rightarrow> nat" where
  "frame_base lim [] = lim"
| "frame_base lim ((p, u) # fs) = unat (usr_sp u) - 32"

text \<open>A step of the code that runs, which may be any number of instructions, in user or system mode: it keeps the stack from the frame on.\<close>

definition code_step :: "nat \<Rightarrow> nat \<Rightarrow> 'a arm_scheme \<Rightarrow> 'a arm_scheme \<Rightarrow> bool" where
  "code_step lim base s s' \<longleftrightarrow> mode_of (arm_cpsr s') \<in> {USR_MODE, SYS_MODE} \<and> unat (usr_sp s') \<le> base \<and>
     (\<forall>a. base \<le> unat a \<and> unat a < lim \<longrightarrow> mem s' a = mem s a)"

text \<open>The steps: the code that runs, a handler with all the functions it calls or the program; an interrupt, when the processor is open and the stack has room for a
  frame; and the return of \<open>BSP_irq\<close> to \<open>ARM_irq\<close>, which happens in system mode with the stack pointer and the registers 4 to 11 as at the call.\<close>

inductive irq_nest :: "u32 \<Rightarrow> u32 \<Rightarrow> nat \<Rightarrow> 'a arm_scheme \<times> (u32 \<times> 'a arm_scheme) list \<Rightarrow> 'a arm_scheme \<times> (u32 \<times> 'a arm_scheme) list \<Rightarrow> bool"
  for addr ret lim where
  code: "code_step lim (frame_base lim fs) s s' \<Longrightarrow> irq_nest addr ret lim (s, fs) (s', fs)"
| entry: "arm_cpsr s AND NO_IRQ = 0 \<Longrightarrow> 32 \<le> unat (usr_sp s) \<Longrightarrow> irq_nest addr ret lim (s, fs) (irq_call addr ret p s, (p, s) # fs)"
| return: "mode_of (arm_cpsr s) = SYS_MODE \<Longrightarrow> \<forall>k \<in> {4..11} \<union> {13}. reg k s = reg k (irq_call addr ret p u) \<Longrightarrow>
    irq_nest addr ret lim (s, (p, u) # fs) (run ARM_irq_exit s, fs)"

inductive irq_nest_reach :: "u32 \<Rightarrow> u32 \<Rightarrow> nat \<Rightarrow> 'a arm_scheme \<times> (u32 \<times> 'a arm_scheme) list \<Rightarrow> 'a arm_scheme \<times> (u32 \<times> 'a arm_scheme) list \<Rightarrow> bool"
  for addr ret lim c0 where
  start: "irq_nest_reach addr ret lim c0 c0"
| step: "irq_nest_reach addr ret lim c0 c \<Longrightarrow> irq_nest addr ret lim c c' \<Longrightarrow> irq_nest_reach addr ret lim c0 c'"

section \<open>The frames on the stack\<close>

fun frames_ok :: "u32 \<Rightarrow> u32 \<Rightarrow> nat \<Rightarrow> 'a arm_scheme \<Rightarrow> (u32 \<times> 'a arm_scheme) list \<Rightarrow> bool" where
  "frames_ok addr ret lim s [] \<longleftrightarrow> mode_of (arm_cpsr s) \<in> {USR_MODE, SYS_MODE} \<and> unat (usr_sp s) \<le> lim"
| "frames_ok addr ret lim s ((p, u) # fs) \<longleftrightarrow> mode_of (arm_cpsr s) \<in> {USR_MODE, SYS_MODE} \<and>
     32 \<le> unat (usr_sp u) \<and> unat (usr_sp s) \<le> unat (usr_sp u) - 32 \<and>
     (\<forall>a. unat (usr_sp u) \<le> unat a \<and> unat a < lim \<longrightarrow> mem s a = mem u a) \<and>
     (\<forall>k < 32. mem s (usr_sp u - 32 + of_nat k) = mem (irq_call addr ret p u) (usr_sp u - 32 + of_nat k)) \<and>
     frames_ok addr ret lim u fs"

lemma frames_ok_mode: "frames_ok addr ret lim s fs \<Longrightarrow> mode_of (arm_cpsr s) \<in> {USR_MODE, SYS_MODE}"
  by (cases fs) auto

lemma frames_ok_base: "frames_ok addr ret lim s fs \<Longrightarrow> unat (usr_sp s) \<le> frame_base lim fs"
  by (cases fs) auto

lemma frame_base_lim: "frames_ok addr ret lim s fs \<Longrightarrow> frame_base lim fs \<le> lim"
proof (induction fs arbitrary: s)
  case (Cons f fs)
  obtain p u where f: "f = (p, u)" by fastforce
  then have u: "frames_ok addr ret lim u fs" using Cons.prems by simp
  show ?case using frames_ok_base [OF u] Cons.IH [OF u] by (simp add: f)
qed simp

lemma unat_frame: "32 \<le> unat sp \<Longrightarrow> k \<le> 32 \<Longrightarrow> unat (sp - 32 + of_nat k) = unat sp - 32 + k" for sp :: u32
proof -
  assume le: "32 \<le> unat sp" "k \<le> 32"
  have "unat (sp - 32) = unat sp - 32" using le(1) by (simp add: unat_sub word_le_nat_alt)
  moreover have "unat sp < 2 ^ 32" by (rule order_less_le_trans [OF unsigned_less]) simp
  ultimately show ?thesis using le by (subst unat_add_u32) (simp_all add: unat_of_nat take_bit_eq_mod)
qed

lemma frames_ok_step:
  assumes "frames_ok addr ret lim s fs" "code_step lim (frame_base lim fs) s s'"
  shows "frames_ok addr ret lim s' fs"
proof (cases fs)
  case Nil
  then show ?thesis using assms by (simp add: code_step_def)
next
  case (Cons f gs)
  obtain p u where f: "f = (p, u)" by fastforce
  have inv: "frames_ok addr ret lim s ((p, u) # gs)" using assms(1) by (simp only: Cons f)
  then have u: "32 \<le> unat (usr_sp u)" "frames_ok addr ret lim u gs" by simp_all
  have m: "mem s' a = mem s a" if "unat (usr_sp u) - 32 \<le> unat a" "unat a < lim" for a
    using assms(2) that by (simp add: code_step_def Cons f)
  have "mem s' (usr_sp u - 32 + of_nat k) = mem s (usr_sp u - 32 + of_nat k)" if "k < 32" for k
    using unat_frame [OF u(1), of k] that u(1) frames_ok_base [OF u(2)] frame_base_lim [OF u(2)] by (intro m) simp_all
  moreover have "\<forall>a. unat (usr_sp u) \<le> unat a \<and> unat a < lim \<longrightarrow> mem s' a = mem u a"
  proof (intro allI impI)
    fix a :: u32 assume a: "unat (usr_sp u) \<le> unat a \<and> unat a < lim"
    then have "mem s' a = mem s a" by (intro m) linarith+
    then show "mem s' a = mem u a" using a inv by simp
  qed
  ultimately show ?thesis using assms(2) inv by (simp add: Cons f code_step_def)
qed

lemma irq_call_entry: "irq_call addr ret p s = handler_entry 0x12 0x80 addr ret p s"
  unfolding irq_call_def handler_entry_def irq_code by simp

lemma irq_call_state:
  "mode_of (arm_cpsr (irq_call addr ret p s)) = SYS_MODE" "usr_sp (irq_call addr ret p s) = usr_sp s - 32"
  "k \<in> {4..11} \<Longrightarrow> reg k (irq_call addr ret p s) = arm_regs s USR_MODE k" "reg 13 (irq_call addr ret p s) = usr_sp s - 32"
  using handler_entry_state(1,3) [where md = "0x12" and dis = "0x80", OF _ _ refl refl irq_call_entry [of addr ret p s]]
  by (auto simp: usr_sp_def reg_def bank_def)

lemma irq_call_mem:
  assumes "32 \<le> unat (usr_sp s)" "unat (usr_sp s) \<le> unat a"
  shows "mem (irq_call addr ret p s) a = mem s a"
proof -
  let ?sp = "usr_sp s - 32"
  have d: "unat (a - (?sp + of_nat k)) = unat a - (unat (usr_sp s) - 32 + k)" if "k \<le> 32" for k
    using unat_frame [OF assms(1) that] assms that by (subst unat_sub) (simp_all add: word_le_nat_alt)
  have "8 \<le> unat (a - ?sp)" "16 \<le> unat (a - (?sp + 8))" "8 \<le> unat (a - (?sp + 24))"
    using d [of 0] d [of 8] d [of 24] assms by simp_all
  moreover have "mem (irq_call addr ret p s) = store_words ?sp [arm_regs s 0x10 0, arm_regs s 0x10 1]
      (store_words (?sp + 8) [arm_regs s 0x10 2, arm_regs s 0x10 3, arm_regs s 0x10 12, arm_regs s 0x10 14]
        (store_words (?sp + 24) [p, arm_cpsr s] (mem s)))"
    unfolding usr_sp_def USR_MODE_def by (rule handler_entry_state(7) [OF _ _ refl refl irq_call_entry]) simp_all
  ultimately show ?thesis by (simp add: store_words_outside del: store_words.simps)
qed

lemma frames_ok_entry:
  assumes "frames_ok addr ret lim s fs" "32 \<le> unat (usr_sp s)"
  shows "frames_ok addr ret lim (irq_call addr ret p s) ((p, s) # fs)"
proof -
  have "unat (usr_sp s - 32) = unat (usr_sp s) - 32" using unat_frame [OF assms(2), of 0] by simp
  then show ?thesis using assms by (simp add: irq_call_mem irq_call_state [unfolded SYS_MODE_def])
qed

text \<open>A return: the interrupted code finds what it left.\<close>

lemma frames_ok_return:
  assumes inv: "frames_ok addr ret lim s ((p, u) # fs)" and sys: "mode_of (arm_cpsr s) = SYS_MODE"
    and regs: "\<forall>k \<in> {4..11} \<union> {13}. reg k s = reg k (irq_call addr ret p u)"
  shows "resumed p {} u s (run ARM_irq_exit s)" and "unat (usr_sp u) \<le> unat a \<Longrightarrow> unat a < lim \<Longrightarrow> mem (run ARM_irq_exit s) a = mem u a"
    and "frames_ok addr ret lim (run ARM_irq_exit s) fs"
proof -
  let ?c = "irq_call addr ret p u" and ?t = "exec (MSR_cpsr_c (SYS_MODE OR NO_INT)) s" and ?s' = "run ARM_irq_exit s"
  have u: "frames_ok addr ret lim u fs" "32 \<le> unat (usr_sp u)" using inv by simp_all
  have "aapcs 32 {} ?c s" using inv regs sys irq_call_state(1,4) [of addr ret p u] by (simp add: aapcs_def)
  then have "aapcs 32 {} ?c ?t" by (rule aapcs_disable) (rule irq_call_state(1))
  moreover have s': "?s' = run (restore_context 0x12) ?t" by (simp only: irq_code run_simps IRQ_MODE_def)
  moreover have mt: "mem ?t = mem s" "trace ?t = trace s" by (simp_all add: set_cpsr_def Let_def)
  ultimately have "resumed p {} u ?t ?s'"
    using handler_resumed [where md = "0x12" and dis = "0x80" and keep = "{}" and s = u and t = ?t and s' = ?s', OF _ _ _ _ _ _ irq_call_entry]
      frames_ok_mode [OF u(1)] by blast
  then show r: "resumed p {} u s ?s'" unfolding resumed_def mt .
  show m: "unat (usr_sp u) \<le> unat a \<Longrightarrow> unat a < lim \<Longrightarrow> mem ?s' a = mem u a" for a using r inv by (simp add: resumed_def)
  have "code_step lim (frame_base lim fs) u ?s'"
    using r m frames_ok_mode [OF u(1)] frames_ok_base [OF u(1)] by (simp add: code_step_def resumed_def usr_sp_def)
  then show "frames_ok addr ret lim ?s' fs" by (rule frames_ok_step [OF u(1)])
qed

lemma frames_ok_nest: "irq_nest addr ret lim c c' \<Longrightarrow> frames_ok addr ret lim (fst c) (snd c) \<Longrightarrow> frames_ok addr ret lim (fst c') (snd c')"
  by (induction rule: irq_nest.induct) (simp_all only: fst_conv snd_conv frames_ok_step frames_ok_entry frames_ok_return(3))

lemma frames_ok_reach: "irq_nest_reach addr ret lim c0 c \<Longrightarrow> frames_ok addr ret lim (fst c0) (snd c0) \<Longrightarrow> frames_ok addr ret lim (fst c) (snd c)"
  by (induction rule: irq_nest_reach.induct) (auto intro: frames_ok_nest)

lemma frames_depth: "frames_ok addr ret lim s fs \<Longrightarrow> unat (usr_sp s) + 32 * length fs \<le> lim"
proof (induction fs arbitrary: s)
  case (Cons f fs)
  obtain p u where f: "f = (p, u)" by fastforce
  then show ?case using Cons.prems Cons.IH [of u] by fastforce
qed simp

text \<open>An interrupt alone, without a further one: the steps are \<open>ARM_irq\<close>.\<close>

lemma irq_call_ARM_irq: "run ARM_irq_exit (bsp_irq (irq_call addr ret p s)) = asm_ARM_irq addr ret bsp_irq (take_exception IRQ_MODE NO_IRQ p s)"
  by (simp only: asm_ARM_irq_def call_C_def irq_call_def)

section \<open>Properties\<close>

text \<open>C14: \<open>ARM_irq\<close> is transparent at every depth of nesting. Let the program and the handlers run in user or system mode and leave the stack above their stack
  pointer alone, and let interrupts arrive wherever the processor is open. When the handler of the innermost activation returns as the procedure call standard says, the code it
  has interrupted, the program or another handler, continues at the instruction it had reached, with its status register, all its registers and its
  stack as they were; what else the handlers wrote to memory stays. Each activation takes 32 bytes of the stack, besides what its handler uses.\<close>

theorem nested_irq_transparent:
  assumes start: "mode_of (arm_cpsr s0) \<in> {USR_MODE, SYS_MODE}" "unat (usr_sp s0) \<le> lim"
    and reach: "irq_nest_reach addr ret lim (s0, []) (s, (p, u) # fs)"
    and ret_ok: "mode_of (arm_cpsr s) = SYS_MODE" "\<forall>k \<in> {4..11} \<union> {13}. reg k s = reg k (irq_call addr ret p u)"
    and s': "s' = run ARM_irq_exit s"
  shows "irq_nest_reach addr ret lim (s0, []) (s', fs) \<and> resumed p {} u s s' \<and>
    (\<forall>a. unat (usr_sp u) \<le> unat a \<and> unat a < lim \<longrightarrow> mem s' a = mem u a) \<and>
    unat (usr_sp s) + 32 * (length fs + 1) \<le> lim"
proof -
  have inv: "frames_ok addr ret lim s ((p, u) # fs)" using frames_ok_reach [OF reach] start by simp
  show ?thesis
    using frames_ok_return [OF inv ret_ok] frames_depth [OF inv] irq_nest_reach.step [OF reach irq_nest.return [OF ret_ok]] by (simp add: s')
qed

theorem nested_irq_transparent_witness:
  "\<exists>u s. irq_nest_reach 0x100 0x200 0x7000 (demo_thread, []) (s, [(0x300, u), (0x8000, demo_thread)]) \<and>
     irq_nest_reach 0x100 0x200 0x7000 (demo_thread, []) (run ARM_irq_exit s, [(0x8000, demo_thread)]) \<and>
     arm_pc (run ARM_irq_exit s) = 0x300 \<and> usr_sp (run ARM_irq_exit s) = 0x6FE0 \<and> usr_sp s = 0x6FC0"
proof -
  define c where "c = irq_call 0x100 0x200 0x8000 demo_thread"
  define u where "u = c\<lparr>arm_cpsr := 0x1F\<rparr>"
  define s where "s = irq_call 0x100 0x200 0x300 u"
  have d: "arm_cpsr demo_thread AND 0x80 = 0" "mode_of (arm_cpsr demo_thread) = 0x1F" "usr_sp demo_thread = 0x7000"
    by (simp_all add: demo_thread_def mode_of_def usr_sp_def)
  have c: "usr_sp c = 0x6FE0" by (simp add: c_def irq_call_state d)
  have u: "usr_sp u = 0x6FE0" "mode_of (arm_cpsr u) = 0x1F" "arm_cpsr u AND 0x80 = 0" "mem u = mem c"
    using c by (simp_all add: u_def mode_of_def usr_sp_def)
  have sp: "usr_sp s = 0x6FC0" by (simp add: s_def irq_call_state u)
  have "irq_nest_reach 0x100 0x200 0x7000 (demo_thread, []) (c, [(0x8000, demo_thread)])"
    unfolding c_def by (rule irq_nest_reach.step [OF irq_nest_reach.start irq_nest.entry]) (simp_all add: d)
  from irq_nest_reach.step [OF this irq_nest.code, of u]
  have "irq_nest_reach 0x100 0x200 0x7000 (demo_thread, []) (u, [(0x8000, demo_thread)])" by (simp add: code_step_def u d)
  then have r: "irq_nest_reach 0x100 0x200 0x7000 (demo_thread, []) (s, [(0x300, u), (0x8000, demo_thread)])"
    unfolding s_def by (rule irq_nest_reach.step [OF _ irq_nest.entry]) (simp_all add: u)
  have m: "mode_of (arm_cpsr s) = SYS_MODE" unfolding s_def by (rule irq_call_state(1))
  from nested_irq_transparent [OF _ _ r m _ refl] have "irq_nest_reach 0x100 0x200 0x7000 (demo_thread, []) (run ARM_irq_exit s, [(0x8000, demo_thread)]) \<and>
      resumed 0x300 {} u s (run ARM_irq_exit s)" by (simp add: d s_def)
  then show ?thesis using r sp u(1) by (intro exI [of _ u] exI [of _ s]) (simp add: resumed_def usr_sp_def)
qed

end
