(* ===== verification/C04.thy ===== *)
theory C04
  imports Startup
begin

text \<open>
  The assembly programs of chapters 3 and 4: \<^verbatim>\<open>c03/c03e1/c03e1.S\<close> adds two constants, \<^verbatim>\<open>c04/c04e1\<close> and \<^verbatim>\<open>c04/c04e2\<close> add up an array of
  bytes with the subroutine \<open>sum\<close> of \<^verbatim>\<open>sum-sub.S\<close> (the same file in both directories), \<^verbatim>\<open>c04/c04e3\<close> and \<^verbatim>\<open>c04/c04e4\<close> add two words, the
  latter after copying the initialised data from the flash memory. Addresses that the linker fixes are arguments.
\<close>

section \<open>Chapter 3\<close>

definition c03e1_ResetISR :: "'a arm_scheme \<Rightarrow> 'a arm_scheme" where
  "c03e1_ResetISR s = run [MOV_imm 0 5, MOV_imm 1 4, ADD 2 1 0] s"

section \<open>The sum of an array\<close>

lemma sum_body:
  "run [LDRB_post 2 0, ADD 3 2 3] s =
     s\<lparr>arm_regs := (arm_regs s)(0x10 := (arm_regs s 0x10)(0 := arm_regs s 0x10 0 + 1, 2 := ucast (mem s (arm_regs s 0x10 0)),
         3 := ucast (mem s (arm_regs s 0x10 0)) + arm_regs s 0x10 3))\<rparr>"
  by (simp add: reg_lo set_reg_lo bank_upd_def Let_def)

lemma gap_down: "(x :: u32) + 1 \<noteq> e \<Longrightarrow> unat (e - x - 2) < unat (e - x - 1)"
  using count_down [of "e - x"] by (auto simp: algebra_simps)

text \<open>The loop of \<open>sum\<close>, entered with the start of the array in \<open>r0\<close> and its end in \<open>r1\<close>. The end is tested after the first byte has been
  added: an empty array is read as one of \<open>2 ^ 32\<close> bytes.\<close>

function sum_loop :: "'a arm_scheme \<Rightarrow> 'a arm_scheme" where
  "sum_loop s =
     (let s = run [LDRB_post 2 0, ADD 3 2 3] s
      in if reg 0 s \<noteq> reg 1 s then sum_loop s else s)"
  by pat_completeness auto

termination
  by (relation "measure (\<lambda>s. unat (reg 1 s - reg 0 s - 1))")
    (simp_all only: sum_body Let_def in_measure wf_measure, simp add: reg_lo gap_down)

declare sum_loop.simps [simp del]

definition c04_sum :: "u32 \<Rightarrow> 'a arm_scheme \<Rightarrow> 'a arm_scheme" where
  "c04_sum data2 s =
     (let s = run [MOV_imm 3 0] s;
          s = sum_loop s;
          s = run [LDR_const 0 data2, STR_imm 3 0 0] s
      in s\<lparr>arm_pc := reg 14 s\<rparr>)"

text \<open>The reset handlers, up to their final endless loop; \<open>ret\<close> is the address behind the \<open>bl\<close>. c04e1 places the array behind its first branch, c04e2 in
  \<^verbatim>\<open>.rodata\<close>; the instructions are the same.\<close>

definition c04e1_ResetISR :: "u32 \<Rightarrow> u32 \<Rightarrow> u32 \<Rightarrow> u32 \<Rightarrow> u32 \<Rightarrow> 'a arm_scheme \<Rightarrow> 'a arm_scheme" where
  "c04e1_ResetISR arr eoa data1 data2 ret s =
     (let s = run [LDR_const 0 arr, LDR_const 1 eoa] s;
          s = c04_sum data2 (run [LDR_const 14 ret] s)
      in run [LDR_const 0 data1, STR_imm 3 0 0] s)"

definition c04_arr :: "u8 list" where
  "c04_arr = [2, 4, 8, 16, 32]"

section \<open>Sums of two words\<close>

text \<open>The common part of c04e3 and c04e4: two words are added and the sum is stored.\<close>

definition c04_add :: "u32 \<Rightarrow> u32 \<Rightarrow> u32 \<Rightarrow> instr list" where
  "c04_add val1 val2 res =
     [LDR_const 0 val1, LDR_const 1 val2, LDR 2 0 0, LDR 3 1 0, ADD 4 2 3, LDR_const 0 res, STR_imm 4 0 0]"

definition c04e3_ResetISR :: "u32 \<Rightarrow> u32 \<Rightarrow> u32 \<Rightarrow> 'a arm_scheme \<Rightarrow> 'a arm_scheme" where
  "c04e3_ResetISR val1 val2 res s = run (c04_add val1 val2 res) s"

text \<open>c04e4 first copies the initialised data behind the code to its place, with the loop of chapter 5 but without its test for an
  empty section.\<close>

definition c04e4_ResetISR :: "u32 \<Rightarrow> u32 \<Rightarrow> u32 \<Rightarrow> u32 \<Rightarrow> u32 \<Rightarrow> u32 \<Rightarrow> 'a arm_scheme \<Rightarrow> 'a arm_scheme" where
  "c04e4_ResetISR etxt dat edat val1 val2 res s =
     (let s = run [LDR_const 0 etxt, LDR_const 1 dat, LDR_const 2 edat, SUB 2 2 1] s;
          s = copy_loop s
      in run (c04_add val1 val2 res) s)"

section \<open>Lemmas\<close>

lemma c03e1_result: "reg 2 (c03e1_ResetISR s) = 9"
  by (simp add: c03e1_ResetISR_def reg_lo set_reg_lo)

lemma sum_loop_step:
  assumes "u = arm_regs s 0x10"
    and "s1 = s\<lparr>arm_regs := (arm_regs s)(0x10 := u(0 := u 0 + 1, 2 := ucast (mem s (u 0)), 3 := ucast (mem s (u 0)) + u 3))\<rparr>"
  shows "sum_loop s = (if u 0 + 1 \<noteq> u 1 then sum_loop s1 else s1)"
  unfolding assms by (subst sum_loop.simps) (simp only: sum_body Let_def, simp add: reg_lo)

lemma sum_loop_run:
  "u = arm_regs s 0x10 \<Longrightarrow> u 1 = u 0 + of_nat (Suc n) \<Longrightarrow> n < 2 ^ 32 \<Longrightarrow>
   \<exists>r. sum_loop s = s\<lparr>arm_regs := (arm_regs s)(0x10 := r)\<rparr> \<and>
     r 3 = u 3 + (\<Sum>k < Suc n. ucast (mem s (u 0 + of_nat k))) \<and> (\<forall>k \<ge> 4. r k = u k)"
proof (induction n arbitrary: s u)
  case 0
  then show ?case unfolding sum_loop_step [OF 0(1) refl]
    by (intro exI [of _ "u(0 := u 0 + 1, 2 := ucast (mem s (u 0)), 3 := ucast (mem s (u 0)) + u 3)"] conjI)
      (simp_all del: fun_upd_apply add: fun_upd_same fun_upd_other)
next
  case (Suc n)
  let ?u = "u(0 := u 0 + 1, 2 := ucast (mem s (u 0)), 3 := ucast (mem s (u 0)) + u 3)"
  let ?s = "s\<lparr>arm_regs := (arm_regs s)(0x10 := ?u)\<rparr>"
  have "u 0 + 1 \<noteq> u 1" using of_nat_inj_u32 [of "Suc n" 0] Suc.prems(2,3) by (simp del: of_nat_Suc add: of_nat_Suc [of "Suc n"])
  then have step: "sum_loop s = sum_loop ?s" by (simp only: sum_loop_step [OF Suc.prems(1) refl] if_True not_False_eq_True)
  have "?u = arm_regs ?s 0x10" "?u 1 = ?u 0 + of_nat (Suc n)" "n < 2 ^ 32" using Suc.prems(2,3) by simp_all
  from Suc.IH [OF this] obtain r where r: "sum_loop ?s = ?s\<lparr>arm_regs := (arm_regs ?s)(0x10 := r)\<rparr>"
    "r 3 = ?u 3 + (\<Sum>k < Suc n. ucast (mem ?s (?u 0 + of_nat k)))" "\<forall>k \<ge> 4. r k = ?u k" by blast
  have "(\<Sum>k < Suc (Suc n). ucast (mem s (u 0 + of_nat k))) =
      (ucast (mem s (u 0)) :: u32) + (\<Sum>k < Suc n. ucast (mem s (u 0 + 1 + of_nat k)))"
    by (subst sum.lessThan_Suc_shift) (simp add: algebra_simps)
  then show ?case using r unfolding step by (intro exI [of _ r]) (simp del: fun_upd_apply sum.lessThan_Suc add: fun_upd_same fun_upd_other add.assoc)
qed

lemma reg_high: "4 \<le> k \<Longrightarrow> \<forall>k \<ge> 4. r k = arm_regs s 0x10 k \<Longrightarrow> reg k (s\<lparr>arm_regs := (arm_regs s)(0x10 := r)\<rparr>) = reg k s"
  by (simp add: reg_def)

lemma byte_sum_bound: "(\<Sum>k < n. unat (f k :: u8)) \<le> 255 * n" for n :: nat
proof (induction n)
  case (Suc n)
  have "unat (f n) \<le> 255" using unat_lt_u8 [of "f n"] by simp
  then show ?case using Suc by simp
qed simp

lemma byte_sum_unat:
  "255 * n < 2 ^ 32 \<Longrightarrow> unat (\<Sum>k < n. ucast (f k :: u8) :: u32) = (\<Sum>k < n. unat (f k))" for n :: nat
proof (induction n)
  case (Suc n)
  have "unat (f n) \<le> 255" using unat_lt_u8 [of "f n"] by simp
  moreover have "unat (ucast (f n) :: u32) = unat (f n)" by (simp add: unat_ucast_up)
  moreover have "unat (\<Sum>k < n. ucast (f k) :: u32) \<le> 255 * n" using Suc byte_sum_bound [of f n] by simp
  ultimately show ?case using Suc unat_add_u32 [of "\<Sum>k < n. ucast (f k)" "ucast (f n)"] by simp
qed simp

lemma c04_sum_run:
  assumes "u = arm_regs s 0x10" "u 1 = u 0 + of_nat n" "0 < n" "n \<le> 2 ^ 32"
    and v: "v = (\<Sum>k < n. ucast (mem s (u 0 + of_nat k)))"
  shows "\<exists>r. c04_sum data2 s = s\<lparr>mem := store32 data2 v (mem s), arm_regs := (arm_regs s)(0x10 := r), arm_pc := reg 14 s\<rparr> \<and>
     r 3 = v \<and> (\<forall>k \<ge> 4. r k = u k)"
proof -
  obtain m where m: "n = Suc m" using assms(3) by (cases n) simp_all
  let ?s = "run [MOV_imm 3 0] s"
  have s: "?s = s\<lparr>arm_regs := (arm_regs s)(0x10 := u(3 := 0))\<rparr>" using assms(1) by (simp add: set_reg_lo bank_upd_def)
  obtain r where r: "sum_loop ?s = ?s\<lparr>arm_regs := (arm_regs ?s)(0x10 := r)\<rparr>" "r 3 = v" "\<forall>k \<ge> 4. r k = u k"
    using sum_loop_run [of "u(3 := 0)" ?s m] assms(2-4) m unfolding s v by (auto simp del: of_nat_Suc sum.lessThan_Suc)
  let ?r = "r(0 := data2)"
  have "c04_sum data2 s = s\<lparr>mem := store32 data2 v (mem s), arm_regs := (arm_regs s)(0x10 := ?r),
      arm_pc := reg 14 (s\<lparr>arm_regs := (arm_regs s)(0x10 := ?r)\<rparr>)\<rparr>"
    unfolding c04_sum_def Let_def r(1) unfolding s using r(2) by (simp add: set_reg_lo reg_lo bank_upd_def) (simp add: reg_def)
  moreover have "\<forall>k \<ge> 4. ?r k = arm_regs s 0x10 k" using r(3) assms(1) by simp
  ultimately show ?thesis using r(2) assms(1) by (intro exI [of _ ?r]) (simp add: reg_high)
qed

lemma store32_area: "a \<notin> area b 4 \<Longrightarrow> store32 b v m a = m a"
  by (rule store32_outside) (simp add: area_def word_le_nat_alt)

lemma load32_store32_area:
  assumes "area a 4 \<inter> area b 4 = {}"
  shows "load32 (store32 b v m) a = load32 m a"
proof (rule load32_cong, rule store32_area)
  fix k :: nat assume "k < 4"
  then have "a + of_nat k \<in> area a 4" by (intro area_offset) simp_all
  then show "a + of_nat k \<notin> area b 4" using assms by blast
qed

lemma c04_add_run:
  "\<exists>r. run (c04_add val1 val2 res) s = s\<lparr>mem := store32 res (load32 (mem s) val1 + load32 (mem s) val2) (mem s),
     arm_regs := (arm_regs s)(0x10 := r)\<rparr> \<and> (\<forall>k \<ge> 5. r k = arm_regs s 0x10 k)"
  by (intro exI [of _ "(arm_regs s 0x10)(0 := res, 1 := val2, 2 := load32 (mem s) val1, 3 := load32 (mem s) val2,
        4 := load32 (mem s) val1 + load32 (mem s) val2)"])
    (simp add: c04_add_def reg_lo set_reg_lo bank_upd_def fun_upd_twist)

text \<open>c04e3 adds the words at \<open>val1\<close> and \<open>val2\<close>.\<close>

lemma c04e3_result:
  "load32 (mem (c04e3_ResetISR val1 val2 res s)) res = load32 (mem s) val1 + load32 (mem s) val2"
  using c04_add_run [of val1 val2 res s] by (auto simp: c04e3_ResetISR_def)

section \<open>Properties\<close>

text \<open>C37: the program of c04e1 and c04e2 stores the sum of the bytes of the array, modulo \<open>2 ^ 32\<close>, at \<open>data1\<close> and at \<open>data2\<close> and leaves it in \<open>r3\<close>;
  if the array is short enough the sum is the number itself. No other memory changes, and \<open>r4\<close> to \<open>r12\<close> and the stack pointer keep their
  values. The array is not empty: with equal bounds the program adds all \<open>2 ^ 32\<close> bytes of the address space.\<close>

theorem c04e1_sum:
  assumes arr: "eoa = arr + of_nat n" "0 < n" "n \<le> 2 ^ 32" and apart: "area data2 4 \<inter> area data1 4 = {}"
    and v: "v = (\<Sum>k < n. ucast (mem s (arr + of_nat k)))"
    and s': "s' = c04e1_ResetISR arr eoa data1 data2 ret s"
  shows "load32 (mem s') data1 = v \<and> load32 (mem s') data2 = v \<and> reg 3 s' = v \<and>
    (255 * n < 2 ^ 32 \<longrightarrow> unat v = (\<Sum>k < n. unat (mem s (arr + of_nat k)))) \<and>
    (\<forall>a. a \<notin> area data1 4 \<union> area data2 4 \<longrightarrow> mem s' a = mem s a) \<and>
    (\<forall>k. 4 \<le> k \<and> k \<noteq> 14 \<longrightarrow> reg k s' = reg k s) \<and> arm_pc s' = ret \<and> trace s' = trace s"
proof -
  let ?s = "run [LDR_const 14 ret] (run [LDR_const 0 arr, LDR_const 1 eoa] s)"
  have s: "mem ?s = mem s" "trace ?s = trace s" "arm_regs ?s 0x10 0 = arr" "arm_regs ?s 0x10 1 = eoa" "arm_cpsr ?s = arm_cpsr s"
    "reg 14 ?s = ret" "\<And>k. 4 \<le> k \<Longrightarrow> k \<noteq> 14 \<Longrightarrow> reg k ?s = reg k s"
    by (simp_all add: set_reg_def reg_def bank_def)
  obtain r where r: "c04_sum data2 ?s = ?s\<lparr>mem := store32 data2 v (mem ?s), arm_regs := (arm_regs ?s)(0x10 := r), arm_pc := reg 14 ?s\<rparr>"
      (is "_ = ?t") "r 3 = v" "\<forall>k \<ge> 4. r k = arm_regs ?s 0x10 k"
    using c04_sum_run [OF refl, of ?s n v data2] arr v s by auto
  have "s' = run [LDR_const 0 data1, STR_imm 3 0 0] ?t" unfolding s' c04e1_ResetISR_def Let_def r(1) ..
  then have t: "s' = ?t\<lparr>mem := store32 data1 v (store32 data2 v (mem s)), arm_regs := (arm_regs ?t)(0x10 := r(0 := data1))\<rparr>"
    using r(2) s(1) by (simp add: set_reg_lo reg_lo bank_upd_def)
  then have m: "mem s' = store32 data1 v (store32 data2 v (mem s))" by simp
  have "reg k s' = reg k s" if "4 \<le> k" "k \<noteq> 14" for k
  proof -
    have "reg k s' = reg k ?s" unfolding t using r(3) that(1) by (simp add: reg_def)
    then show ?thesis using s(7) that by simp
  qed
  moreover have "reg 3 s' = v" "arm_pc s' = ret" "trace s' = trace s" unfolding t using r(2) s(2,6) by (simp_all add: reg_lo)
  ultimately show ?thesis using apart byte_sum_unat [of n] v unfolding m
    by (simp add: load32_store32_area store32_area)
qed

theorem c04e1_sum_witness:
  "load32 (mem (c04e1_ResetISR 0x10004 0x10009 0x30000 0x30004 0x1001C
     (demo_thread\<lparr>mem := (\<lambda>a. if a - 0x10004 < 5 then c04_arr ! unat (a - 0x10004) else 0)\<rparr>))) 0x30000 = 62"
proof -
  let ?m = "\<lambda>a :: u32. if a - 0x10004 < 5 then c04_arr ! unat (a - 0x10004) else 0"
  have "area 0x30004 4 \<inter> area 0x30000 4 = {}" using area_disjoint [of "0x30000" 4 "0x30004" 4] by (simp add: Int_commute)
  from c04e1_sum [where n = 5 and arr = "0x10004" and eoa = "0x10009" and s = "demo_thread\<lparr>mem := ?m\<rparr>" and ret = "0x1001C",
    OF _ _ _ this refl refl, THEN conjunct1]
  have "load32 (mem (c04e1_ResetISR 0x10004 0x10009 0x30000 0x30004 0x1001C (demo_thread\<lparr>mem := ?m\<rparr>))) 0x30000 =
      (\<Sum>k < (5 :: nat). ucast (?m (0x10004 + of_nat k)))" by simp
  also have "\<dots> = 62"
  proof -
    have "{..< 5 :: nat} = {0, 1, 2, 3, 4}" by auto
    then show ?thesis by (simp add: c04_arr_def)
  qed
  finally show ?thesis .
qed

text \<open>c04e4 adds the two words as they are in the image of the initialised data behind the code, wherever it copies that section to.\<close>

lemma c04e4_result:
  assumes sect: "unat edat = unat dat + n" "0 < n" and apart: "area etxt n \<inter> area dat n = {}"
    and vals: "i + 4 \<le> n" "j + 4 \<le> n"
  shows "load32 (mem (c04e4_ResetISR etxt dat edat (dat + of_nat i) (dat + of_nat j) res s)) res =
    load32 (mem s) (etxt + of_nat i) + load32 (mem s) (etxt + of_nat j)"
proof -
  have n: "n < 2 ^ 32" using sect(1) unat_lt_u32 [of edat] by simp
  define s1 where "s1 = run [LDR_const 0 etxt, LDR_const 1 dat, LDR_const 2 edat, SUB 2 2 1] s"
  have "reg 2 s1 \<noteq> 0" using word_diff [OF sect(1)] of_nat_inj_u32 [of n 0] sect(2) n by (simp add: s1_def reg_lo set_reg_lo)
  then obtain r where c: "copy_loop s1 = s\<lparr>mem := copy_mem n dat etxt (mem s), arm_regs := (arm_regs s)(0x10 := r)\<rparr>"
    using copy_stage [OF sect(1) refl s1_def] by auto
  have l: "load32 (copy_mem n dat etxt (mem s)) (dat + of_nat k) = load32 (mem s) (etxt + of_nat k)" if "k + 4 \<le> n" for k
  proof (rule load32_bytes)
    fix q :: nat assume "q < 4"
    then show "copy_mem n dat etxt (mem s) (dat + of_nat k + of_nat q) = mem s (etxt + of_nat k + of_nat q)"
      using that copy_mem_inside [OF _ n apart, of "k + q" "mem s"] by (simp add: add.assoc)
  qed
  have "c04e4_ResetISR etxt dat edat (dat + of_nat i) (dat + of_nat j) res s =
      run (c04_add (dat + of_nat i) (dat + of_nat j) res) (copy_loop s1)"
    unfolding c04e4_ResetISR_def Let_def s1_def ..
  then show ?thesis
    using c04_add_run [of "dat + of_nat i" "dat + of_nat j" res "copy_loop s1"] l [OF vals(1)] l [OF vals(2)]
    by (auto simp: c)
qed

end
