(* ===== verification/Serial.thy ===== *)
theory Serial
  imports Bus
begin

text \<open>
  The serial console driver \<^verbatim>\<open>drivers/serial_goldfish.c\<close> with \<^verbatim>\<open>include/serial_goldfish.h\<close>, and
  \<open>getbaseaddr\<close> of \<^verbatim>\<open>drivers/goldfish_uart.S\<close>, which chooses between the physical and the virtual
  address of UART 2 by the MMU bit of the system control register. The static \<open>gtty\<close> extends the
  machine state. The debug messages are those of the builds with \<open>__USE_CLIB__\<close>. The buffer of
  \<open>goldfish_getc\<close> is a local array: its address is an argument. The UART itself is described by
  \<open>goldfish_tty\<close>: a stream of input bytes, of which \<open>arrived n\<close> have arrived by the \<open>n\<close>th bus access.
\<close>

section \<open>The driver\<close>

definition GOLDFISH_TTY_PUT_CHAR :: u32 where [simp]: "GOLDFISH_TTY_PUT_CHAR = 0x00"
definition GOLDFISH_TTY_BYTES_READY :: u32 where [simp]: "GOLDFISH_TTY_BYTES_READY = 0x04"
definition GOLDFISH_TTY_CMD :: u32 where [simp]: "GOLDFISH_TTY_CMD = 0x08"
definition GOLDFISH_TTY_DATA_PTR :: u32 where [simp]: "GOLDFISH_TTY_DATA_PTR = 0x10"
definition GOLDFISH_TTY_DATA_LEN :: u32 where [simp]: "GOLDFISH_TTY_DATA_LEN = 0x14"
definition GOLDFISH_TTY_CMD_INT_DISABLE :: u32 where [simp]: "GOLDFISH_TTY_CMD_INT_DISABLE = 0"
definition GOLDFISH_TTY_CMD_INT_ENABLE :: u32 where [simp]: "GOLDFISH_TTY_CMD_INT_ENABLE = 1"
definition GOLDFISH_TTY_CMD_READ_BUFFER :: u32 where [simp]: "GOLDFISH_TTY_CMD_READ_BUFFER = 3"

record tty_st = machine +
  gtty_base :: u32
  sctlr :: u32

definition getbaseaddr :: "'a tty_st_scheme \<Rightarrow> u32" where
  "getbaseaddr s =
     (if sctlr s AND 1 = 0 then IO_START + GOLDFISH_TTY2_BASE else IO_BASE + GOLDFISH_TTY2_BASE)"

definition goldfish_init :: "env \<Rightarrow> 'a tty_st_scheme \<Rightarrow> int \<times> 'a tty_st_scheme" where
  "goldfish_init env s =
     (let s = s\<lparr>gtty_base := getbaseaddr s\<rparr>;
          s = printf ''goldfish_init(), gtty.base=%x\<newline>'' [uint (gtty_base s)] s;
          s = writel env GOLDFISH_TTY_CMD_INT_ENABLE (IO_ADDRESS GOLDFISH_TTY2_BASE + GOLDFISH_TTY_CMD) s
      in (0, s))"

definition goldfish_disable_tty :: "env \<Rightarrow> 'a tty_st_scheme \<Rightarrow> int \<times> 'a tty_st_scheme" where
  "goldfish_disable_tty env s =
     (0, writel env GOLDFISH_TTY_CMD_INT_DISABLE (IO_ADDRESS GOLDFISH_TTY2_BASE + GOLDFISH_TTY_CMD) s)"

text \<open>The lines \<open>base = gtty.base; if(!base) { goldfish_init(); base = gtty.base; }\<close>.\<close>

definition tty_base :: "env \<Rightarrow> 'a tty_st_scheme \<Rightarrow> u32 \<times> 'a tty_st_scheme" where
  "tty_base env s =
     (if gtty_base s = 0 then let (r, s) = goldfish_init env s in (gtty_base s, s) else (gtty_base s, s))"

definition goldfish_gets :: "env \<Rightarrow> u32 \<Rightarrow> u32 \<Rightarrow> 'a tty_st_scheme \<Rightarrow> 'a tty_st_scheme" where
  "goldfish_gets env str len s =
     (let (base, s) = tty_base env s;
          s = writel env str (base + GOLDFISH_TTY_DATA_PTR) s;
          s = writel env len (base + GOLDFISH_TTY_DATA_LEN) s
      in writel env GOLDFISH_TTY_CMD_READ_BUFFER (base + GOLDFISH_TTY_CMD) s)"

definition goldfish_putc :: "env \<Rightarrow> u8 \<Rightarrow> 'a tty_st_scheme \<Rightarrow> 'a tty_st_scheme" where
  "goldfish_putc env c s =
     (let (base, s) = tty_base env s
      in if c \<noteq> 0 then writel env (ucast c) (base + GOLDFISH_TTY_PUT_CHAR) s else s)"

text \<open>\<open>count\<close> is unsigned here, so the test \<open>count <= 0\<close> is \<open>count == 0\<close>.\<close>

definition goldfish_getc :: "env \<Rightarrow> u32 \<Rightarrow> 'a tty_st_scheme \<Rightarrow> int \<times> 'a tty_st_scheme" where
  "goldfish_getc env buf s =
     (let (base, s) = tty_base env s
      in if base \<noteq> 0
         then let (count, s) = readl env (base + GOLDFISH_TTY_BYTES_READY) s
              in if count \<le> 0
                 then (- 1, printf ''Error: goldfish_getc(), count=%d\<newline>'' [uint count] s)
                 else let s = goldfish_gets env buf 1 s in (uint (mem s buf), s)
         else (0, s))"

definition goldfish_tstc :: "env \<Rightarrow> 'a tty_st_scheme \<Rightarrow> int \<times> 'a tty_st_scheme" where
  "goldfish_tstc env s =
     (let (base, s) = tty_base env s
      in if base \<noteq> 0
         then let (count, s) = readl env (base + GOLDFISH_TTY_BYTES_READY) s
              in if sint count < 0
                 then (sint count, printf ''Error: goldfish_tstc(), gtty.base=%x, base=%x, count=%d\<newline>''
                         [uint (gtty_base s), uint base, sint count] s)
                 else (sint count, s)
         else (0, s))"

definition goldfish_setbrg :: "'a tty_st_scheme \<Rightarrow> 'a tty_st_scheme" where
  "goldfish_setbrg s = printf ''goldfish_setbrg()\<newline>'' [] s"

text \<open>The loop \<open>while (*s) dev->putc(*s++);\<close> over a string in memory, where \<open>dev\<close> is the goldfish
  driver; the result is \<open>None\<close> if the string never ends.\<close>

partial_function (option) default_serial_puts ::
  "env \<Rightarrow> u32 \<Rightarrow> 'a tty_st_scheme \<Rightarrow> 'a tty_st_scheme option" where
  "default_serial_puts env str s =
     (if mem s str = 0 then Some s
      else default_serial_puts env (str + 1) (goldfish_putc env (mem s str) s))"

text \<open>\<open>struct serial_device\<close> over a state type.\<close>

record 's serial_device =
  sd_name :: string
  sd_start :: "'s \<Rightarrow> int \<times> 's"
  sd_stop :: "'s \<Rightarrow> int \<times> 's"
  sd_setbrg :: "'s \<Rightarrow> 's"
  sd_getc :: "'s \<Rightarrow> int \<times> 's"
  sd_tstc :: "'s \<Rightarrow> int \<times> 's"
  sd_putc :: "u8 \<Rightarrow> 's \<Rightarrow> 's"
  sd_puts :: "u32 \<Rightarrow> 's \<Rightarrow> 's option"

definition goldfish_drv :: "env \<Rightarrow> u32 \<Rightarrow> 'a tty_st_scheme serial_device" where
  "goldfish_drv env buf = \<lparr>sd_name = ''goldfish_serial'', sd_start = goldfish_init env,
     sd_stop = goldfish_disable_tty env, sd_setbrg = goldfish_setbrg, sd_getc = goldfish_getc env buf,
     sd_tstc = goldfish_tstc env, sd_putc = goldfish_putc env, sd_puts = default_serial_puts env\<rparr>"

definition default_serial_console :: "env \<Rightarrow> u32 \<Rightarrow> 'a tty_st_scheme serial_device" where
  "default_serial_console env buf = goldfish_drv env buf"

definition goldfish_initialize :: "'a machine_scheme \<Rightarrow> 'a machine_scheme" where
  "goldfish_initialize s = printf ''goldfish_initialize()\<newline>'' [] s"

section \<open>The UART\<close>

definition consumed :: "u32 \<Rightarrow> io list \<Rightarrow> nat" where
  "consumed base h = length (filter (\<lambda>e. e = Wr (base + GOLDFISH_TTY_CMD) GOLDFISH_TTY_CMD_READ_BUFFER) h)"

definition goldfish_tty :: "env \<Rightarrow> u32 \<Rightarrow> (nat \<Rightarrow> u8) \<Rightarrow> (nat \<Rightarrow> nat) \<Rightarrow> bool" where
  "goldfish_tty env base input arrived \<longleftrightarrow>
     mono arrived \<and> (\<forall>n. arrived n < 2 ^ 31) \<and>
     (\<forall>h. env_read env h (base + GOLDFISH_TTY_BYTES_READY) = of_nat (arrived (length h) - consumed base h)) \<and>
     (\<forall>h p m. env_dma env (h @ [Wr (base + GOLDFISH_TTY_DATA_PTR) p, Wr (base + GOLDFISH_TTY_DATA_LEN) 1,
          Wr (base + GOLDFISH_TTY_CMD) GOLDFISH_TTY_CMD_READ_BUFFER]) m = m(p := input (consumed base h))) \<and>
     (\<forall>h a v m. Wr a v \<noteq> Wr (base + GOLDFISH_TTY_CMD) GOLDFISH_TTY_CMD_READ_BUFFER \<longrightarrow>
          env_dma env (h @ [Wr a v]) m = m)"

lemma goldfish_tty_quiet:
  "goldfish_tty env base input arrived \<Longrightarrow> Wr a v \<noteq> Wr (base + 8) 3 \<Longrightarrow> env_dma env (h @ [Wr a v]) m = m"
  by (simp add: goldfish_tty_def)

text \<open>The address the driver uses, and what the first use of the driver puts on the bus.\<close>

definition base_of :: "'a tty_st_scheme \<Rightarrow> u32" where
  "base_of s = (if gtty_base s = 0 then getbaseaddr s else gtty_base s)"

definition boot_events :: "'a tty_st_scheme \<Rightarrow> io list" where
  "boot_events s = (if gtty_base s = 0
     then [Printf ''goldfish_init(), gtty.base=%x\<newline>'' [uint (getbaseaddr s)],
           Wr (IO_ADDRESS GOLDFISH_TTY2_BASE + GOLDFISH_TTY_CMD) GOLDFISH_TTY_CMD_INT_ENABLE]
     else [])"

lemma base_of_nonzero: "base_of s \<noteq> 0"
  by (simp add: base_of_def getbaseaddr_def)

lemma getbaseaddr_sctlr: "sctlr s' = sctlr s \<Longrightarrow> getbaseaddr s' = getbaseaddr s"
  by (simp add: getbaseaddr_def)

lemma tty_base_simps:
  "fst (tty_base env s) = base_of s"
  "trace (snd (tty_base env s)) = trace s @ boot_events s"
  "gtty_base (snd (tty_base env s)) = base_of s"
  "base_of (snd (tty_base env s)) = base_of s"
  "sctlr (snd (tty_base env s)) = sctlr s"
  by (simp_all add: tty_base_def goldfish_init_def base_of_def boot_events_def Let_def writel_def printf_def
      getbaseaddr_def)

lemma tty_base_up: "gtty_base s \<noteq> 0 \<Longrightarrow> tty_base env s = (gtty_base s, s)"
  by (simp add: tty_base_def)

lemma mem_tty_base:
  assumes "goldfish_tty env base input arrived"
  shows "mem (snd (tty_base env s)) = mem s"
  using goldfish_tty_quiet [OF assms, of _ 1]
  by (simp add: tty_base_def goldfish_init_def Let_def writel_def printf_def)

section \<open>Output\<close>

text \<open>What a client of the console relies on: each character is sent at once, in order, and memory is
  left alone.\<close>

locale console =
  fixes putc :: "u8 \<Rightarrow> 's \<Rightarrow> 's" and tr :: "'s \<Rightarrow> io list" and ram :: "'s \<Rightarrow> memory"
    and up :: "'s \<Rightarrow> bool" and out :: "u8 \<Rightarrow> io list"
  assumes putc_up: "up s \<Longrightarrow> up (putc c s)"
    and putc_tr: "up s \<Longrightarrow> tr (putc c s) = tr s @ out c"
    and putc_ram: "up s \<Longrightarrow> ram (putc c s) = ram s"
begin

lemma put_all:
  "up s \<Longrightarrow> up (fold putc cs s) \<and> tr (fold putc cs s) = tr s @ concat (map out cs) \<and>
     ram (fold putc cs s) = ram s"
proof (induction cs arbitrary: s)
  case (Cons c cs)
  then show ?case using Cons.IH [OF putc_up, of s c] by (simp add: putc_tr putc_ram)
qed simp

end

definition tty_up :: "env \<Rightarrow> u32 \<Rightarrow> 'a tty_st_scheme \<Rightarrow> bool" where
  "tty_up env base s \<longleftrightarrow> gtty_base s = base \<and> base \<noteq> 0 \<and> (\<exists>input arrived. goldfish_tty env base input arrived)"

definition tty_out :: "u32 \<Rightarrow> u8 \<Rightarrow> io list" where
  "tty_out base c = (if c \<noteq> 0 then [Wr (base + GOLDFISH_TTY_PUT_CHAR) (ucast c)] else [])"

lemma gtty_base_writel [simp]: "gtty_base (writel env v a s) = gtty_base s" "sctlr (writel env v a s) = sctlr s"
  by (simp_all add: writel_def Let_def)

lemma gtty_base_readl [simp]: "gtty_base (snd (readl env a s)) = gtty_base s" "sctlr (snd (readl env a s)) = sctlr s"
  by (simp_all add: readl_def Let_def)

lemma gtty_base_printf [simp]: "gtty_base (printf f xs s) = gtty_base s" "sctlr (printf f xs s) = sctlr s"
  by (simp_all add: printf_def)

interpretation gfc: console "goldfish_putc env" trace mem "tty_up env base" "tty_out base"
  for env :: env and base :: u32
proof unfold_locales
  fix s :: "'a tty_st_scheme" and c
  assume up: "tty_up env base s"
  then have t: "tty_base env s = (base, s)" by (simp add: tty_up_def tty_base_up)
  from up obtain input arrived where dev: "goldfish_tty env base input arrived" by (auto simp: tty_up_def)
  show "tty_up env base (goldfish_putc env c s)" using up t by (simp add: goldfish_putc_def tty_up_def)
  show "trace (goldfish_putc env c s) = trace s @ tty_out base c" using t by (simp add: goldfish_putc_def tty_out_def)
  show "mem (goldfish_putc env c s) = mem s"
    using t goldfish_tty_quiet [OF dev, of base] by (simp add: goldfish_putc_def)
qed

text \<open>The first character brings the device up.\<close>

lemma putc_first:
  assumes "goldfish_tty env (base_of s) input arrived"
  shows "tty_up env (base_of s) (goldfish_putc env c s)"
    and "trace (goldfish_putc env c s) = trace s @ boot_events s @ tty_out (base_of s) c"
    and "mem (goldfish_putc env c s) = mem s"
proof -
  have f: "goldfish_putc env c s = goldfish_putc env c (snd (tty_base env s))"
    using tty_base_simps(1,3) [of env s] base_of_nonzero [of s]
    by (simp add: goldfish_putc_def split_beta tty_base_up)
  have up: "tty_up env (base_of s) (snd (tty_base env s))"
    using assms base_of_nonzero [of s] by (auto simp: tty_up_def tty_base_simps)
  show "tty_up env (base_of s) (goldfish_putc env c s)"
    and "trace (goldfish_putc env c s) = trace s @ boot_events s @ tty_out (base_of s) c"
    and "mem (goldfish_putc env c s) = mem s"
    unfolding f using gfc.putc_up [OF up] gfc.putc_tr [OF up] gfc.putc_ram [OF up] mem_tty_base [OF assms, of s]
    by (simp_all add: tty_base_simps)
qed

lemma puts_up:
  assumes "tty_up env base s" and "cstring (mem s) str bs"
  shows "\<exists>s'. default_serial_puts env str s = Some s' \<and> s' = fold (goldfish_putc env) bs s"
  using assms
proof (induction bs arbitrary: str s)
  case Nil
  then show ?case by (simp add: default_serial_puts.simps)
next
  case (Cons b bs)
  then show ?case using Cons.IH [OF gfc.putc_up [OF Cons.prems(1)], of b "str + 1"]
    by (subst default_serial_puts.simps) (simp add: gfc.putc_ram)
qed

section \<open>Input\<close>

lemma consumed_snoc:
  "consumed base (h @ [Wr (base + 8) 3]) = Suc (consumed base h)"
  "e \<noteq> Wr (base + 8) 3 \<Longrightarrow> consumed base (h @ [e]) = consumed base h"
  by (simp_all add: consumed_def)

definition tty_avail :: "u32 \<Rightarrow> (nat \<Rightarrow> nat) \<Rightarrow> io list \<Rightarrow> nat" where
  "tty_avail base arrived h = arrived (length h) - consumed base h"

lemma tty_ready_read:
  assumes "goldfish_tty env base input arrived"
  shows "uint (env_read env h (base + 4)) = int (tty_avail base arrived h)"
    and "sint (env_read env h (base + 4)) = int (tty_avail base arrived h)"
proof -
  have e: "env_read env h (base + 4) = word_of_int (int (tty_avail base arrived h))"
    using assms by (simp add: goldfish_tty_def tty_avail_def)
  have lt: "int (tty_avail base arrived h) < 2147483648"
    using assms by (auto simp: goldfish_tty_def tty_avail_def intro: less_imp_diff_less)
  show "sint (env_read env h (base + 4)) = int (tty_avail base arrived h)"
    unfolding e by (rule sint_word_of_int_u32) (use lt in simp_all)
  show "uint (env_read env h (base + 4)) = int (tty_avail base arrived h)"
    unfolding e using lt by (simp only: uint_word_of_int) simp
qed

lemma goldfish_gets_one:
  assumes dev: "goldfish_tty env base input arrived" and up: "gtty_base s = base" "base \<noteq> 0"
  shows "trace (goldfish_gets env p 1 s) = trace s @ [Wr (base + 0x10) p, Wr (base + 0x14) 1, Wr (base + 8) 3]"
    and "mem (goldfish_gets env p 1 s) = (mem s)(p := input (consumed base (trace s)))"
    and "gtty_base (goldfish_gets env p 1 s) = base"
proof -
  have t: "tty_base env s = (base, s)" using up by (simp add: tty_base_up)
  have q: "env_dma env (trace s @ [Wr (base + 0x10) p]) (mem s) = mem s"
    "env_dma env (trace s @ [Wr (base + 0x10) p, Wr (base + 0x14) 1]) (mem s) = mem s"
    using goldfish_tty_quiet [OF dev, of "base + 0x10" p "trace s"]
      goldfish_tty_quiet [OF dev, of "base + 0x14" 1 "trace s @ [Wr (base + 0x10) p]"] by simp_all
  have d: "env_dma env (trace s @ [Wr (base + 0x10) p, Wr (base + 0x14) 1, Wr (base + 8) 3]) (mem s)
     = (mem s)(p := input (consumed base (trace s)))" using dev by (simp add: goldfish_tty_def)
  show "trace (goldfish_gets env p 1 s) = trace s @ [Wr (base + 0x10) p, Wr (base + 0x14) 1, Wr (base + 8) 3]"
    and "mem (goldfish_gets env p 1 s) = (mem s)(p := input (consumed base (trace s)))"
    and "gtty_base (goldfish_gets env p 1 s) = base"
    using t q d up by (simp_all add: goldfish_gets_def Let_def)
qed

lemma goldfish_tstc_up:
  assumes dev: "goldfish_tty env base input arrived" and up: "gtty_base s = base" "base \<noteq> 0"
  shows "\<exists>v s'. goldfish_tstc env s = (int (tty_avail base arrived (trace s)), s') \<and>
      trace s' = trace s @ [Rd (base + 4) v] \<and> mem s' = mem s \<and> gtty_base s' = base"
proof -
  have t: "tty_base env s = (base, s)" using up by (simp add: tty_base_up)
  show ?thesis using up t tty_ready_read(2) [OF dev, of "trace s"]
    by (simp add: goldfish_tstc_def Let_def split_beta)
qed

text \<open>\<open>goldfish_getc\<close> takes the next byte of the stream.\<close>

lemma goldfish_getc_up:
  assumes dev: "goldfish_tty env base input arrived" and up: "gtty_base s = base" "base \<noteq> 0"
    and av: "0 < tty_avail base arrived (trace s)"
  shows "\<exists>v s'. goldfish_getc env buf s = (uint (input (consumed base (trace s))), s') \<and>
      trace s' = trace s @ [Rd (base + 4) v, Wr (base + 0x10) buf, Wr (base + 0x14) 1, Wr (base + 8) 3] \<and>
      mem s' = (mem s)(buf := input (consumed base (trace s))) \<and> gtty_base s' = base"
proof -
  have t: "tty_base env s = (base, s)" using up by (simp add: tty_base_up)
  let ?v = "env_read env (trace s) (base + 4)" and ?s = "snd (readl env (base + 4) s)"
  have "0 < uint ?v" using tty_ready_read(1) [OF dev, of "trace s"] av by simp
  then have "\<not> ?v \<le> 0" by auto
  moreover have "consumed base (trace s @ [Rd (base + 4) ?v]) = consumed base (trace s)"
    by (rule consumed_snoc) simp
  ultimately show ?thesis using t up goldfish_gets_one [OF dev, of ?s buf]
    by (simp add: goldfish_getc_def Let_def split_beta)
qed

lemma goldfish_getc_empty:
  assumes dev: "goldfish_tty env base input arrived" and up: "gtty_base s = base" "base \<noteq> 0"
    and av: "tty_avail base arrived (trace s) = 0"
  shows "\<exists>s'. goldfish_getc env buf s = (- 1, s') \<and> mem s' = mem s \<and> gtty_base s' = base \<and>
     consumed base (trace s') = consumed base (trace s)"
proof -
  have t: "tty_base env s = (base, s)" using up by (simp add: tty_base_up)
  have "uint (env_read env (trace s) (base + 4)) = 0" using tty_ready_read(1) [OF dev, of "trace s"] av by simp
  then have "env_read env (trace s) (base + 4) = 0" by (simp add: word_uint_eq_iff)
  then show ?thesis using t up by (simp add: goldfish_getc_def Let_def split_beta consumed_def)
qed

section \<open>Properties\<close>

text \<open>A concrete UART for the examples.\<close>

definition uart_dma :: "u32 \<Rightarrow> (nat \<Rightarrow> u8) \<Rightarrow> io list \<Rightarrow> memory \<Rightarrow> memory" where
  "uart_dma base input h m = (case rev h of
       Wr a c # Wr b l # Wr d p # r \<Rightarrow>
         if a = base + 8 \<and> c = 3 \<and> b = base + 0x14 \<and> l = 1 \<and> d = base + 0x10
         then m(p := input (consumed base (rev r))) else m
     | _ \<Rightarrow> m)"

definition uart_env :: "u32 \<Rightarrow> (nat \<Rightarrow> u8) \<Rightarrow> (nat \<Rightarrow> nat) \<Rightarrow> env" where
  "uart_env base input arrived = \<lparr>
     env_read = (\<lambda>h a. if a = base + 4 then of_nat (arrived (length h) - consumed base h) else 0),
     env_dma = uart_dma base input, env_getchar = (\<lambda>h. - 1)\<rparr>"

lemma goldfish_tty_uart_env:
  assumes "mono arrived" "\<And>n. arrived n < 2 ^ 31"
  shows "goldfish_tty (uart_env base input arrived) base input arrived"
  using assms by (auto simp: goldfish_tty_def uart_env_def uart_dma_def split: list.split io.split)

definition tty_boot :: tty_st where
  "tty_boot = \<lparr>trace = [], mem = (\<lambda>_. 0)(0x100 := 0x48, 0x101 := 0x69), gtty_base = 0, sctlr = 0\<rparr>"

text \<open>C32: \<open>default_serial_puts\<close> sends a string. For a zero-terminated string \<open>bs\<close> in memory the call
  returns; it has written the bytes of \<open>bs\<close> to the \<open>PUT_CHAR\<close> register, in order and each once, and
  nothing else except the initialisation of the device when this is its first use. The register block
  is the physical one when the MMU is off and the virtual one when it is on; memory is unchanged.\<close>

theorem serial_puts:
  assumes dev: "goldfish_tty env base input arrived" and base: "base = base_of s"
    and str: "cstring (mem s) str bs"
  shows "\<exists>s'. default_serial_puts env str s = Some s' \<and> mem s' = mem s \<and>
     trace s' = trace s @ (if bs = [] then [] else boot_events s) @
       map (\<lambda>b. Wr (base + GOLDFISH_TTY_PUT_CHAR) (ucast b)) bs"
proof (cases bs)
  case Nil
  then show ?thesis using str by (simp add: default_serial_puts.simps)
next
  case (Cons b cs)
  note first = putc_first [OF dev [unfolded base], of b]
  have "cstring (mem (goldfish_putc env b s)) (str + 1) cs" using str Cons first(3) by simp
  from puts_up [OF first(1) this] gfc.put_all [OF first(1), of cs] obtain s' where
    s': "default_serial_puts env (str + 1) (goldfish_putc env b s) = Some s'" "mem s' = mem s"
      "trace s' = trace (goldfish_putc env b s) @ concat (map (tty_out base) cs)"
    using first(3) base by auto
  have out: "concat (map (tty_out base) xs) = map (\<lambda>b. Wr (base + GOLDFISH_TTY_PUT_CHAR) (ucast b)) xs"
    if "0 \<notin> set xs" for xs
    using that by (induction xs) (simp_all add: tty_out_def)
  have "default_serial_puts env str s = Some s'" using s'(1) str Cons by (subst default_serial_puts.simps) simp
  moreover have "0 \<notin> set (b # cs)" using str Cons by (simp add: cstring_bytes)
  ultimately show ?thesis using s'(2,3) first(2) out [of cs] Cons base by (simp add: tty_out_def)
qed

theorem serial_puts_witness:
  "\<exists>s'. default_serial_puts (uart_env 0xff012000 (\<lambda>_. 0) (\<lambda>_. 0)) 0x100 tty_boot = Some s' \<and>
     trace s' = boot_events tty_boot @ [Wr 0xff012000 0x48, Wr 0xff012000 0x69]"
  using serial_puts [OF goldfish_tty_uart_env, of "\<lambda>_. 0" "0xff012000" tty_boot "0x100" "[0x48, 0x69]" "\<lambda>_. 0"]
  by (auto simp: mono_def tty_boot_def base_of_def getbaseaddr_def)

text \<open>C33: \<open>goldfish_getc\<close> and \<open>goldfish_tstc\<close> on an initialised console. \<open>goldfish_tstc\<close> returns the
  number of bytes that have arrived and were not yet taken, and changes neither memory nor the input.
  When there is one, \<open>goldfish_getc\<close> returns the oldest of them and takes it, so that successive calls
  deliver the input stream in order without loss or repetition; when there is none it returns -1 and
  takes nothing.\<close>

theorem serial_input_fifo:
  assumes dev: "goldfish_tty env base input arrived" and up: "gtty_base s = base" "base \<noteq> 0"
    and n: "n = consumed base (trace s)"
  shows "fst (goldfish_tstc env s) = int (arrived (length (trace s)) - n) \<and>
     mem (snd (goldfish_tstc env s)) = mem s \<and> consumed base (trace (snd (goldfish_tstc env s))) = n \<and>
     (if n < arrived (length (trace s))
      then fst (goldfish_getc env buf s) = uint (input n) \<and> consumed base (trace (snd (goldfish_getc env buf s))) = Suc n
      else fst (goldfish_getc env buf s) = - 1 \<and> consumed base (trace (snd (goldfish_getc env buf s))) = n)"
proof -
  obtain v s1 where t: "goldfish_tstc env s = (int (tty_avail base arrived (trace s)), s1)"
      "trace s1 = trace s @ [Rd (base + 4) v]" "mem s1 = mem s"
    using goldfish_tstc_up [OF dev up] by blast
  have "if n < arrived (length (trace s))
      then fst (goldfish_getc env buf s) = uint (input n) \<and> consumed base (trace (snd (goldfish_getc env buf s))) = Suc n
      else fst (goldfish_getc env buf s) = - 1 \<and> consumed base (trace (snd (goldfish_getc env buf s))) = n"
  proof (cases "n < arrived (length (trace s))")
    case True
    then have "0 < tty_avail base arrived (trace s)" by (simp add: tty_avail_def n)
    from goldfish_getc_up [OF dev up this, of buf] True show ?thesis by (auto simp: n consumed_def)
  next
    case False
    then have "tty_avail base arrived (trace s) = 0" by (simp add: tty_avail_def n)
    from goldfish_getc_empty [OF dev up this, of buf] False show ?thesis by (auto simp: n)
  qed
  then show ?thesis using t by (simp add: tty_avail_def n consumed_def)
qed

theorem serial_input_fifo_witness:
  "fst (goldfish_tstc (uart_env 0xff012000 (\<lambda>k. of_nat k + 65) (\<lambda>_. 2)) (tty_boot\<lparr>gtty_base := 0xff012000\<rparr>)) = 2 \<and>
   fst (goldfish_getc (uart_env 0xff012000 (\<lambda>k. of_nat k + 65) (\<lambda>_. 2)) 0x200 (tty_boot\<lparr>gtty_base := 0xff012000\<rparr>)) = 65"
  using serial_input_fifo [OF goldfish_tty_uart_env, of "\<lambda>_. 2" "tty_boot\<lparr>gtty_base := 0xff012000\<rparr>" "0xff012000"
     0 "\<lambda>k. of_nat k + 65" "0x200"]
  by (auto simp: mono_def tty_boot_def consumed_def)

end
