(* ===== verification/Uart_Asm.thy ===== *)
theory Uart_Asm
  imports Startup Serial
begin

text \<open>
  The debugging output in assembly, \<^verbatim>\<open>drivers/goldfish_uart.S\<close>: \<open>printascii\<close>, \<open>printch\<close>, and \<open>printhex8\<close>, \<open>printhex4\<close> and \<open>printhex2\<close>. A store to
  the address in \<open>r3\<close> is a write to the UART; the value of the system control register and the address of \<open>hexbuf\<close> are arguments. The two labels of
  \<open>printascii\<close> are two functions. The UART is the one of the serial driver, \<open>goldfish_tty\<close>.
\<close>

section \<open>The routines\<close>

text \<open>The macro \<open>addruart\<close>: the register block of UART 2, by the MMU bit of the system control register.\<close>

definition addruart :: "u32 \<Rightarrow> u32" where
  "addruart ctrl = (if ctrl AND 1 = 0 then IO_START + GOLDFISH_TTY2_BASE else IO_BASE + GOLDFISH_TTY2_BASE)"

definition senduart :: "env \<Rightarrow> 'a arm_scheme \<Rightarrow> 'a arm_scheme" where
  "senduart env s = (if reg 3 s \<noteq> 0 then writel env (reg 1 s) (reg 3 s) s else s)"

lemma writel_regs [simp]: "arm_regs (writel env v a s) = arm_regs s" "arm_cpsr (writel env v a s) = arm_cpsr s" "arm_pc (writel env v a s) = arm_pc s"
  by (simp_all add: writel_def Let_def)

lemma senduart_regs [simp]: "arm_regs (senduart env s) = arm_regs s" "arm_cpsr (senduart env s) = arm_cpsr s"
  by (simp_all add: senduart_def)

text \<open>The code at the first label of \<open>printascii\<close>: a newline is followed by a carriage return.\<close>

function uart_put :: "env \<Rightarrow> 'a arm_scheme \<Rightarrow> 'a arm_scheme" where
  "uart_put env s =
     (let s = senduart env s
      in if reg 1 s = 10 then uart_put env (run [MOV_imm 1 13] s) else s)"
  by pat_completeness auto

termination
  by (relation "measure (\<lambda>(env, s). if reg 1 s = 10 then 1 else 0)") (simp_all add: reg_lo set_reg_lo)

declare uart_put.simps [simp del]

lemma uart_put_r0: "arm_regs (uart_put env s) 0x10 0 = arm_regs s 0x10 0"
  by (induction env s rule: uart_put.induct) (subst uart_put.simps, simp add: reg_lo set_reg_lo Let_def)

text \<open>The code at the second label: the next character, until the null pointer or the null character.\<close>

function printascii_loop :: "env \<Rightarrow> 'a arm_scheme \<Rightarrow> 'a arm_scheme" where
  "printascii_loop env s =
     (if reg 0 s = 0 then s
      else let s = run [LDRB_post 1 0] s
           in if reg 1 s = 0 then s else printascii_loop env (uart_put env s))"
  by pat_completeness auto

termination
proof (relation "measure (\<lambda>(env, s). unat (- reg 0 s))")
  fix env :: env and s t :: "'a arm_scheme" assume "reg 0 s \<noteq> 0" and t: "t = run [LDRB_post 1 0] s"
  then have "unat (- reg 0 s - 1) < unat (- reg 0 s)" by (intro measure_unat) simp
  moreover have "- (reg 0 s + 1) = - reg 0 s - 1" by simp
  moreover have "reg 0 (uart_put env t) = reg 0 s + 1" by (simp add: t reg_lo uart_put_r0 set_reg_lo Let_def)
  ultimately show "((env, uart_put env t), env, s) \<in> measure (\<lambda>(env, s). unat (- reg 0 s))" by (simp only: in_measure split)
qed simp

declare printascii_loop.simps [simp del]

definition printascii :: "env \<Rightarrow> u32 \<Rightarrow> 'a arm_scheme \<Rightarrow> 'a arm_scheme" where
  "printascii env ctrl s =
     (let s = printascii_loop env (run [LDR_const 3 (addruart ctrl)] s) in s\<lparr>arm_pc := reg 14 s\<rparr>)"

text \<open>\<open>printch\<close> enters the code of \<open>printascii\<close> at its first label, with no string to go on with.\<close>

definition printch :: "env \<Rightarrow> u32 \<Rightarrow> 'a arm_scheme \<Rightarrow> 'a arm_scheme" where
  "printch env ctrl s =
     (let s = run [LDR_const 3 (addruart ctrl), MOV 1 0, MOV_imm 0 0] s;
          s = printascii_loop env (uart_put env s)
      in s\<lparr>arm_pc := reg 14 s\<rparr>)"

text \<open>The loop that converts a number to hexadecimal digits, from the last to the first.\<close>

definition hex_step :: "'a arm_scheme \<Rightarrow> 'a arm_scheme" where
  "hex_step s =
     (let s = run [AND_imm 1 0 15, MOV_lsr 0 0 4] s;
          s = (if sint (reg 1 s) < 10 then run [ADD_imm 1 1 48] s else run [ADD_imm 1 1 (97 - 10)] s)
      in run [STRB_pre 1 3] s)"

lemma hex_step_regs:
  "reg 3 (hex_step s) = reg 3 s - 1" "reg 2 (hex_step s) = reg 2 s"
  by (simp_all add: hex_step_def reg_lo set_reg_lo Let_def)

lemma gap_back: "(x :: u32) - 1 \<noteq> e \<Longrightarrow> unat (x - e - 2) < unat (x - e - 1)"
  using count_down [of "x - e"] by (auto simp: algebra_simps)

function hex_loop :: "'a arm_scheme \<Rightarrow> 'a arm_scheme" where
  "hex_loop s = (let s = hex_step s in if reg 3 s \<noteq> reg 2 s then hex_loop s else s)"
  by pat_completeness auto

termination
  by (relation "measure (\<lambda>s. unat (reg 3 s - reg 2 s - 1))") (simp_all add: hex_step_regs gap_back Let_def)

declare hex_loop.simps [simp del]

definition printhex :: "env \<Rightarrow> u32 \<Rightarrow> u32 \<Rightarrow> 'a arm_scheme \<Rightarrow> 'a arm_scheme" where
  "printhex env ctrl hexbuf s =
     (let s = run [LDR_const 2 hexbuf, ADD 3 2 1, MOV_imm 1 0, STRB 1 3] s;
          s = hex_loop s
      in printascii env ctrl (run [MOV 0 2] s))"

definition printhex8 :: "env \<Rightarrow> u32 \<Rightarrow> u32 \<Rightarrow> 'a arm_scheme \<Rightarrow> 'a arm_scheme" where
  "printhex8 env ctrl hexbuf s = printhex env ctrl hexbuf (run [MOV_imm 1 8] s)"

definition printhex4 :: "env \<Rightarrow> u32 \<Rightarrow> u32 \<Rightarrow> 'a arm_scheme \<Rightarrow> 'a arm_scheme" where
  "printhex4 env ctrl hexbuf s = printhex env ctrl hexbuf (run [MOV_imm 1 4] s)"

definition printhex2 :: "env \<Rightarrow> u32 \<Rightarrow> u32 \<Rightarrow> 'a arm_scheme \<Rightarrow> 'a arm_scheme" where
  "printhex2 env ctrl hexbuf s = printhex env ctrl hexbuf (run [MOV_imm 1 2] s)"

lemma getbaseaddr_addruart: "getbaseaddr s = addruart (sctlr s)"
  by (simp add: getbaseaddr_def addruart_def)

section \<open>Characters and strings\<close>

definition uart_out :: "u32 \<Rightarrow> u32 \<Rightarrow> io list" where
  "uart_out base c = (if c = 10 then [Wr base 10, Wr base 13] else [Wr base c])"

lemma tty_put: "goldfish_tty env base input arrived \<Longrightarrow> writel env v base s = s\<lparr>trace := trace s @ [Wr base v]\<rparr>"
  using goldfish_tty_quiet [of env base input arrived base v "trace s" "mem s"] by (simp add: writel_def Let_def)

lemma uart_put_run:
  assumes dev: "goldfish_tty env base input arrived" "base \<noteq> 0" and u: "u = arm_regs s 0x10" "u 3 = base"
  shows "uart_put env s = s\<lparr>trace := trace s @ uart_out base (u 1),
     arm_regs := (arm_regs s)(0x10 := u(1 := if u 1 = 10 then 13 else u 1))\<rparr>"
proof -
  have send: "senduart env t = t\<lparr>trace := trace t @ [Wr base (arm_regs t 0x10 1)]\<rparr>" if "arm_regs t 0x10 3 = base" for t :: "'a arm_scheme"
    using that dev by (simp add: senduart_def reg_lo tty_put)
  show ?thesis
  proof (cases "u 1 = 10")
    case True
    then show ?thesis using u by (subst uart_put.simps, subst uart_put.simps)
      (simp add: send reg_lo set_reg_lo bank_upd_def Let_def uart_out_def)
  next
    case False
    then show ?thesis using u by (subst uart_put.simps) (simp add: send reg_lo Let_def uart_out_def)
  qed
qed

lemma ucast_byte_eq: "(ucast (b :: u8) :: u32) = x \<Longrightarrow> b = ucast x"
  by (drule arg_cong [where f = "ucast :: u32 \<Rightarrow> u8"]) simp

lemma printascii_loop_run:
  assumes dev: "goldfish_tty env base input arrived" "base \<noteq> 0"
  shows "u = arm_regs s 0x10 \<Longrightarrow> u 3 = base \<Longrightarrow> cstring (mem s) (u 0) bs \<Longrightarrow> u 0 = 0 \<longrightarrow> bs = [] \<Longrightarrow> unat (u 0) + length bs \<le> 2 ^ 32 \<Longrightarrow>
    \<exists>r. printascii_loop env s = s\<lparr>trace := trace s @ concat (map (\<lambda>b. uart_out base (ucast b)) bs), arm_regs := (arm_regs s)(0x10 := r)\<rparr> \<and>
      (\<forall>k \<ge> 4. r k = u k)"
proof (induction bs arbitrary: s u)
  case Nil
  then show ?case
    by (intro exI [of _ "if u 0 = 0 then u else u(0 := u 0 + 1, 1 := 0)"], subst printascii_loop.simps)
      (simp add: reg_lo set_reg_lo bank_upd_def Let_def)
next
  case (Cons b bs)
  let ?u = "u(0 := u 0 + 1, 1 := if b = 10 then 13 else ucast b)"
  let ?s = "s\<lparr>trace := trace s @ uart_out base (ucast b), arm_regs := (arm_regs s)(0x10 := ?u)\<rparr>"
  have b: "(ucast b :: u32) = 10 \<longleftrightarrow> b = 10" "(ucast b :: u32) \<noteq> 0" "u 0 \<noteq> 0"
    using Cons.prems(3,4) by (auto dest: ucast_byte_eq)
  define t where "t = run [LDRB_post 1 0] s"
  have t: "t = s\<lparr>arm_regs := (arm_regs s)(0x10 := u(0 := u 0 + 1, 1 := ucast b))\<rparr>"
    using Cons.prems(1,3) by (simp add: t_def reg_lo set_reg_lo bank_upd_def Let_def)
  have "uart_put env t = ?s"
    using uart_put_run [OF dev refl, of t] Cons.prems(2) b(1) unfolding t by (simp del: fun_upd_apply add: fun_upd_same fun_upd_other)
  moreover have "reg 0 s \<noteq> 0" "reg 1 t \<noteq> 0" using b(2,3) Cons.prems(1) by (simp_all add: t reg_lo)
  then have "printascii_loop env s = printascii_loop env (uart_put env t)"
    using printascii_loop.simps [of env s] by (simp only: t_def [symmetric] Let_def if_False)
  ultimately have step: "printascii_loop env s = printascii_loop env ?s" by simp
  have "?u 0 = 0 \<longrightarrow> bs = []" "unat (?u 0) + length bs \<le> 2 ^ 32"
  proof -
    show "?u 0 = 0 \<longrightarrow> bs = []" using Cons.prems(5) unat_m1 by (auto simp: eq_neg_iff_add_eq_0 [symmetric])
    show "unat (?u 0) + length bs \<le> 2 ^ 32"
    proof (cases "unat (u 0) < 4294967295")
      case True
      then show ?thesis using Cons.prems(5) unat_add_u32 [of "u 0" 1] by simp
    next
      case False
      then have "u 0 = - 1" using unat_lt_u32 [of "u 0"] unat_m1 by (intro word_unat_eq_iff [THEN iffD2]) simp
      then show ?thesis using Cons.prems(5) unat_m1 by simp
    qed
  qed
  moreover have "?u = arm_regs ?s 0x10" "?u 3 = base" "cstring (mem ?s) (?u 0) bs" using Cons.prems(2,3) by simp_all
  ultimately obtain r where r: "printascii_loop env ?s = ?s\<lparr>trace := trace ?s @ concat (map (\<lambda>b. uart_out base (ucast b)) bs),
      arm_regs := (arm_regs ?s)(0x10 := r)\<rparr>" "\<forall>k \<ge> 4. r k = ?u k" using Cons.IH [of ?u ?s] by blast
  then show ?case unfolding step by (intro exI [of _ r]) (simp del: fun_upd_apply add: fun_upd_same fun_upd_other)
qed

lemma printascii_run:
  assumes dev: "goldfish_tty env (addruart ctrl) input arrived"
    and str: "cstring (mem s) (reg 0 s) bs" "reg 0 s = 0 \<longrightarrow> bs = []" "unat (reg 0 s) + length bs \<le> 2 ^ 32"
    and s': "s' = printascii env ctrl s"
  shows "trace s' = trace s @ concat (map (\<lambda>b. uart_out (addruart ctrl) (ucast b)) bs)" "mem s' = mem s"
    "arm_pc s' = reg 14 s" "4 \<le> k \<Longrightarrow> reg k s' = reg k s" "arm_cpsr s' = arm_cpsr s"
proof -
  let ?t = "run [LDR_const 3 (addruart ctrl)] s"
  have t: "?t = s\<lparr>arm_regs := (arm_regs s)(0x10 := (arm_regs s 0x10)(3 := addruart ctrl))\<rparr>" by (simp add: set_reg_lo bank_upd_def)
  have "addruart ctrl \<noteq> 0" by (simp add: addruart_def)
  then obtain r where r: "printascii_loop env ?t = ?t\<lparr>trace := trace ?t @ concat (map (\<lambda>b. uart_out (addruart ctrl) (ucast b)) bs),
      arm_regs := (arm_regs ?t)(0x10 := r)\<rparr>" "\<forall>k \<ge> 4. r k = arm_regs ?t 0x10 k"
    using printascii_loop_run [OF dev _ refl, of ?t bs] str unfolding t by (simp add: reg_lo) blast
  let ?p = "s\<lparr>trace := trace s @ concat (map (\<lambda>b. uart_out (addruart ctrl) (ucast b)) bs), arm_regs := (arm_regs s)(0x10 := r)\<rparr>"
  have p: "printascii_loop env ?t = ?p" unfolding r(1) unfolding t by simp
  have regs: "reg k ?p = reg k s" if "4 \<le> k" for k using r(2) that unfolding t by (simp add: reg_def)
  have "s' = ?p\<lparr>arm_pc := reg 14 s\<rparr>" using regs [of 14] by (simp only: s' printascii_def Let_def p)
  then show "trace s' = trace s @ concat (map (\<lambda>b. uart_out (addruart ctrl) (ucast b)) bs)" "mem s' = mem s"
    "arm_pc s' = reg 14 s" "4 \<le> k \<Longrightarrow> reg k s' = reg k s" "arm_cpsr s' = arm_cpsr s"
    using regs [of k] by (simp_all add: reg_def)
qed

text \<open>\<open>printch\<close> sends one character, and a newline with its carriage return.\<close>

lemma printch_run:
  assumes dev: "goldfish_tty env (addruart ctrl) input arrived"
  shows "trace (printch env ctrl s) = trace s @ uart_out (addruart ctrl) (reg 0 s)" "mem (printch env ctrl s) = mem s"
    "arm_pc (printch env ctrl s) = reg 14 s"
proof -
  let ?u = "(arm_regs s 0x10)(3 := addruart ctrl, 1 := arm_regs s 0x10 0, 0 := 0)"
  let ?t = "run [LDR_const 3 (addruart ctrl), MOV 1 0, MOV_imm 0 0] s"
  have t: "?t = s\<lparr>arm_regs := (arm_regs s)(0x10 := ?u)\<rparr>" by (simp add: reg_lo set_reg_lo bank_upd_def)
  have "addruart ctrl \<noteq> 0" by (simp add: addruart_def)
  then have "uart_put env ?t = s\<lparr>trace := trace s @ uart_out (addruart ctrl) (reg 0 s),
      arm_regs := (arm_regs s)(0x10 := ?u(1 := if reg 0 s = 10 then 13 else reg 0 s))\<rparr>"
    using uart_put_run [OF dev _ refl, of ?t] unfolding t by (simp add: reg_lo)
  then show "trace (printch env ctrl s) = trace s @ uart_out (addruart ctrl) (reg 0 s)" "mem (printch env ctrl s) = mem s"
    "arm_pc (printch env ctrl s) = reg 14 s"
    by (simp_all add: printch_def Let_def printascii_loop.simps reg_lo del: run_simps) (simp add: reg_def)
qed

section \<open>Hexadecimal numbers\<close>

definition hex_char :: "u32 \<Rightarrow> u32" where
  "hex_char v = (let d = v AND 15 in if d < 10 then d + 48 else d + 87)"

text \<open>The digits of a number, the last one the least significant, and the number that digits denote.\<close>

primrec hex_str :: "nat \<Rightarrow> u32 \<Rightarrow> u8 list" where
  "hex_str 0 v = []"
| "hex_str (Suc n) v = hex_str n (drop_bit 4 v) @ [ucast (hex_char v)]"

definition hex_val :: "u8 \<Rightarrow> nat" where
  "hex_val c = (if c < 58 then unat c - 48 else unat c - 87)"

definition hex_chars :: "u8 set" where
  "hex_chars = {48..57} \<union> {97..102}"

lemma unat_and_15: "unat (v AND 15 :: u32) = unat v mod 16"
proof -
  have "v AND 15 = take_bit 4 v" by (simp add: take_bit_eq_mask mask_eq_exp_minus_1)
  then show ?thesis by (simp add: take_bit_eq_mod unat_mod)
qed

lemma hex_char_facts:
  "sint (v AND 15) < 10 \<longleftrightarrow> v AND 15 < (10 :: u32)"
  "ucast (hex_char v) \<in> hex_chars" "hex_val (ucast (hex_char v)) = unat v mod 16" "ucast (ucast (hex_char v) :: u8) = hex_char v"
proof -
  define d where "d = v AND 15"
  have ud: "unat d = unat v mod 16" by (simp add: d_def unat_and_15)
  then have "unat d < 16" by simp
  moreover have "{..< 16 :: nat} = {0, 1, 2, 3, 4, 5, 6, 7, 8, 9, 10, 11, 12, 13, 14, 15}" by (simp add: lessThan_nat_numeral) auto
  ultimately have "unat d \<in> {0, 1, 2, 3, 4, 5, 6, 7, 8, 9, 10, 11, 12, 13, 14, 15}" by blast
  moreover have "of_nat (unat d) = d" by simp
  ultimately have d: "d \<in> {0, 1, 2, 3, 4, 5, 6, 7, 8, 9, 10, 11, 12, 13, 14, 15}" by (elim insertE; simp)
  have "(sint d < 10 \<longleftrightarrow> d < 10) \<and> ucast (if d < 10 then d + 48 else d + 87) \<in> hex_chars \<and>
      hex_val (ucast (if d < 10 then d + 48 else d + 87)) = unat d \<and>
      ucast (ucast (if d < 10 then d + 48 else d + 87) :: u8) = (if d < 10 then d + 48 else d + 87)"
    using d by (elim insertE; simp add: hex_chars_def hex_val_def)
  then show "sint (v AND 15) < 10 \<longleftrightarrow> v AND 15 < (10 :: u32)" "ucast (hex_char v) \<in> hex_chars" "hex_val (ucast (hex_char v)) = unat v mod 16"
    "ucast (ucast (hex_char v) :: u8) = hex_char v"
    unfolding hex_char_def Let_def d_def [symmetric] ud [symmetric] by blast+
qed

lemma hex_str_facts: "length (hex_str n v) = n" "set (hex_str n v) \<subseteq> hex_chars"
  by (induction n arbitrary: v) (simp_all add: hex_char_facts(2))

lemma hex_str_value: "foldl (\<lambda>x c. 16 * x + hex_val c) 0 (hex_str n v) = unat v mod 16 ^ n"
proof (induction n arbitrary: v)
  case (Suc n)
  have "unat (drop_bit 4 v) = unat v div 16" by (simp add: drop_bit_eq_div unat_div)
  then show ?case using Suc [of "drop_bit 4 v"] by (simp add: hex_char_facts(3) mod_mult2_eq)
qed simp

lemma hex_step_run:
  assumes "u = arm_regs s 0x10"
  shows "hex_step s = s\<lparr>mem := (mem s)(u 3 - 1 := ucast (hex_char (u 0))),
    arm_regs := (arm_regs s)(0x10 := u(0 := drop_bit 4 (u 0), 1 := hex_char (u 0), 3 := u 3 - 1))\<rparr>"
  using assms by (simp add: hex_step_def hex_char_def reg_lo set_reg_lo bank_upd_def Let_def hex_char_facts(1) fun_upd_twist)

lemma hex_loop_run:
  "u = arm_regs s 0x10 \<Longrightarrow> unat (u 3) = unat (u 2) + Suc n \<Longrightarrow>
   \<exists>r m. hex_loop s = s\<lparr>mem := m, arm_regs := (arm_regs s)(0x10 := r)\<rparr> \<and> bytes_at m (u 2) (hex_str (Suc n) (u 0)) \<and>
     (\<forall>a. a \<notin> area (u 2) (Suc n) \<longrightarrow> m a = mem s a) \<and> r 2 = u 2 \<and> (\<forall>k \<ge> 4. r k = u k)"
proof (induction n arbitrary: s u)
  case 0
  then have "u 3 - u 2 = 1" using word_diff [of "u 3" "u 2" 1] by simp
  then have e: "u 3 - 1 = u 2" by (simp add: algebra_simps)
  have "hex_loop s = hex_step s" by (subst hex_loop.simps) (simp add: hex_step_run [OF 0(1)] reg_lo Let_def e)
  then show ?case unfolding hex_step_run [OF 0(1)] e
    by (intro exI [of _ "u(0 := drop_bit 4 (u 0), 1 := hex_char (u 0), 3 := u 2)"] exI [of _ "(mem s)(u 2 := ucast (hex_char (u 0)))"])
      (simp add: area_def del: fun_upd_apply, simp)
next
  case (Suc n)
  let ?m = "(mem s)(u 3 - 1 := ucast (hex_char (u 0)))"
  let ?u = "u(0 := drop_bit 4 (u 0), 1 := hex_char (u 0), 3 := u 3 - 1)"
  let ?s = "s\<lparr>mem := ?m, arm_regs := (arm_regs s)(0x10 := ?u)\<rparr>"
  have d: "u 3 = u 2 + of_nat (Suc (Suc n))" using word_diff [OF Suc.prems(2)] by (simp add: algebra_simps)
  have lt: "Suc (Suc n) < 2 ^ 32" using Suc.prems(2) unat_lt_u32 [of "u 3"] by simp
  have un: "unat (u 3 - 1) = unat (u 2) + Suc n" using Suc.prems(2) unat_minus_one [of "u 3"] by (cases "u 3 = 0") simp_all
  then have "hex_loop s = hex_loop ?s" using hex_step_run [OF Suc.prems(1)]
    by (subst hex_loop.simps) (auto simp: Let_def reg_lo)
  moreover have "?u = arm_regs ?s 0x10" "unat (?u 3) = unat (?u 2) + Suc n" using un by simp_all
  from Suc.IH [OF this] obtain r m where r: "hex_loop ?s = ?s\<lparr>mem := m, arm_regs := (arm_regs ?s)(0x10 := r)\<rparr>"
    "bytes_at m (?u 2) (hex_str (Suc n) (?u 0))" "\<forall>a. a \<notin> area (?u 2) (Suc n) \<longrightarrow> m a = mem ?s a" "r 2 = ?u 2" "\<forall>k \<ge> 4. r k = ?u k"
    by blast
  moreover have "u 3 - 1 = u 2 + of_nat (Suc n)" unfolding d by simp
  moreover have "u 2 + of_nat (Suc n) \<notin> area (u 2) (Suc n)" using lt by (simp add: area_def unat_of_nat take_bit_eq_mod del: of_nat_Suc)
  moreover have "area (u 2) (Suc n) \<subseteq> area (u 2) (Suc (Suc n))" by (auto simp: area_def)
  moreover have "u 2 + of_nat (Suc n) \<in> area (u 2) (Suc (Suc n))" using lt by (intro area_offset) simp_all
  ultimately have e: "hex_loop s = ?s\<lparr>mem := m, arm_regs := (arm_regs ?s)(0x10 := r)\<rparr>" "m (u 2 + of_nat (Suc n)) = ucast (hex_char (u 0))"
    "\<forall>a. a \<notin> area (u 2) (Suc (Suc n)) \<longrightarrow> m a = mem s a" by (simp_all only: fun_upd_same) (auto simp del: of_nat_Suc)
  have "bytes_at m (u 2) (hex_str (Suc (Suc n)) (u 0))"
    using r(2) e(2) by (simp del: of_nat_Suc hex_str.simps add: hex_str.simps(2) [of "Suc n"] bytes_at_append hex_str_facts(1))
  moreover have "?s\<lparr>mem := m, arm_regs := (arm_regs ?s)(0x10 := r)\<rparr> = s\<lparr>mem := m, arm_regs := (arm_regs s)(0x10 := r)\<rparr>" by simp
  ultimately show ?case using e(1,3) r(4,5)
    by (intro exI [of _ r] exI [of _ m]) (simp del: fun_upd_apply hex_str.simps add: fun_upd_same fun_upd_other)
qed

lemma hex_char_not_special: "c \<in> hex_chars \<Longrightarrow> c \<noteq> 0 \<and> c \<noteq> 10"
  by (auto simp: hex_chars_def)

lemma hex_str_out: "concat (map (\<lambda>b. uart_out base (ucast b)) (hex_str n v)) = map (\<lambda>c. Wr base (ucast c)) (hex_str n v)"
proof -
  have "uart_out base (ucast b) = [Wr base (ucast b)]" if "b \<in> set (hex_str n v)" for b
    using that hex_str_facts(2) [of n v] hex_char_not_special [of b] ucast_byte_eq [of b 10] by (auto simp: uart_out_def)
  then have "map (\<lambda>b. uart_out base (ucast b)) (hex_str n v) = map (\<lambda>b. [Wr base (ucast b)]) (hex_str n v)"
    by (intro map_cong refl)
  moreover have "concat (map (\<lambda>b. [Wr base (ucast b)]) bs) = map (\<lambda>c. Wr base (ucast c)) bs" for bs :: "u8 list" by (induction bs) simp_all
  ultimately show ?thesis by (simp only:)
qed

lemma printhex_run:
  assumes dev: "goldfish_tty env (addruart ctrl) input arrived" and n: "reg 1 s = of_nat n" "0 < n" "n \<le> 15"
    and buf: "hexbuf \<noteq> 0" "unat hexbuf + 16 \<le> 2 ^ 32" and s': "s' = printhex env ctrl hexbuf s"
  shows "trace s' = trace s @ map (\<lambda>c. Wr (addruart ctrl) (ucast c)) (hex_str n (reg 0 s))"
    "a \<notin> area hexbuf (Suc n) \<Longrightarrow> mem s' a = mem s a" "arm_pc s' = reg 14 s" "4 \<le> k \<Longrightarrow> reg k s' = reg k s"
proof -
  define t where "t = run [LDR_const 2 hexbuf, ADD 3 2 1, MOV_imm 1 0, STRB 1 3] s"
  let ?u = "(arm_regs s 0x10)(2 := hexbuf, 3 := hexbuf + of_nat n, 1 := 0)"
  have t: "t = s\<lparr>mem := (mem s)(hexbuf + of_nat n := 0), arm_regs := (arm_regs s)(0x10 := ?u)\<rparr>"
    using n(1) by (simp add: t_def reg_lo set_reg_lo bank_upd_def)
  have "unat (of_nat n :: u32) = n" using n(3) by (simp add: unat_of_nat take_bit_eq_mod)
  then have "unat (hexbuf + of_nat n) = unat hexbuf + Suc (n - 1)" using n(2,3) buf(2) unat_add_u32 [of hexbuf "of_nat n"] by simp
  then obtain r m where h: "hex_loop t = t\<lparr>mem := m, arm_regs := (arm_regs t)(0x10 := r)\<rparr>" "bytes_at m hexbuf (hex_str n (reg 0 s))"
    "\<forall>a. a \<notin> area hexbuf n \<longrightarrow> m a = mem t a" "r 2 = hexbuf" "\<forall>k \<ge> 4. r k = arm_regs s 0x10 k"
    using hex_loop_run [OF refl, of t "n - 1"] n(2) unfolding t by (simp del: fun_upd_apply hex_str.simps add: fun_upd_same fun_upd_other reg_lo) blast
  define w where "w = run [MOV 0 2] (hex_loop t)"
  have w: "w = s\<lparr>mem := m, arm_regs := (arm_regs s)(0x10 := r(0 := hexbuf))\<rparr>"
    unfolding w_def h(1) unfolding t using h(4) by (simp add: reg_lo set_reg_lo bank_upd_def)
  have "hexbuf + of_nat n \<notin> area hexbuf n" using n(3) by (simp add: area_def unat_of_nat take_bit_eq_mod)
  then have "m (hexbuf + of_nat n) = 0" using h(3) by (simp add: t)
  then have str: "cstring (mem w) (reg 0 w) (hex_str n (reg 0 s))"
    using h(2) hex_str_facts [of n "reg 0 s"] hex_char_not_special by (auto simp: w reg_lo cstring_bytes bytes_at_append)
  have len: "reg 0 w = 0 \<longrightarrow> hex_str n (reg 0 s) = []" "unat (reg 0 w) + length (hex_str n (reg 0 s)) \<le> 2 ^ 32"
    using buf n(3) by (simp_all add: w reg_lo hex_str_facts(1))
  have e: "s' = printascii env ctrl w" by (simp only: s' printhex_def Let_def t_def w_def)
  note p = printascii_run [OF dev str len e]
  have regs: "reg k w = reg k s" if "4 \<le> k" for k using h(5) that by (simp add: w reg_def)
  show "trace s' = trace s @ map (\<lambda>c. Wr (addruart ctrl) (ucast c)) (hex_str n (reg 0 s))" using p(1) by (simp add: hex_str_out w)
  show "arm_pc s' = reg 14 s" "4 \<le> k \<Longrightarrow> reg k s' = reg k s" using p(3,4) regs [of 14] regs [of k] by simp_all
  show "mem s' a = mem s a" if a: "a \<notin> area hexbuf (Suc n)"
  proof -
    have "hexbuf + of_nat n \<in> area hexbuf (Suc n)" using n(3) by (intro area_offset) simp_all
    then have "a \<notin> area hexbuf n" "a \<noteq> hexbuf + of_nat n" using a by (auto simp: area_def)
    then show ?thesis using h(3) p(2) by (simp add: w t)
  qed
qed

section \<open>Properties\<close>

text \<open>C34: \<open>printhex8\<close>, \<open>printhex4\<close> and \<open>printhex2\<close> print the number in \<open>r0\<close>, modulo \<open>2 ^ 32\<close>, \<open>2 ^ 16\<close> and \<open>2 ^ 8\<close>, as eight, four or two lower-case
  hexadecimal digits: read back, what was sent to the UART is that number. Nothing else is sent, only the buffer is written,
  \<open>r4\<close> to \<open>r14\<close> are kept, and the routine returns to its caller.\<close>

theorem uart_printhex:
  assumes dev: "goldfish_tty env (addruart ctrl) input arrived" and buf: "hexbuf \<noteq> 0" "unat hexbuf + 16 \<le> 2 ^ 32"
    and f: "(n, s') \<in> {(8, printhex8 env ctrl hexbuf s), (4, printhex4 env ctrl hexbuf s), (2, printhex2 env ctrl hexbuf s)}"
  shows "\<exists>ds. trace s' = trace s @ map (\<lambda>c. Wr (addruart ctrl) (ucast c)) ds \<and> length ds = n \<and>
      set ds \<subseteq> {48..57} \<union> {97..102} \<and> foldl (\<lambda>x c. 16 * x + hex_val c) 0 ds = unat (reg 0 s) mod 16 ^ n \<and>
    (\<forall>a. a \<notin> area hexbuf (Suc n) \<longrightarrow> mem s' a = mem s a) \<and> (\<forall>k \<ge> 4. reg k s' = reg k s) \<and> arm_pc s' = reg 14 s"
proof -
  define t where "t = run [MOV_imm 1 (of_nat n)] s"
  have t: "reg 1 t = of_nat n" "reg 0 t = reg 0 s" "trace t = trace s" "mem t = mem s" "\<And>k. 4 \<le> k \<Longrightarrow> reg k t = reg k s"
    by (simp_all add: t_def reg_lo set_reg_lo) (simp add: reg_def)
  have s': "s' = printhex env ctrl hexbuf t" using f by (auto simp: t_def printhex8_def printhex4_def printhex2_def)
  have n: "0 < n" "n \<le> 15" using f by auto
  note p = printhex_run [OF dev t(1) n buf s']
  show ?thesis
    using p(1-4) t hex_str_facts [of n "reg 0 s"] hex_str_value [of n "reg 0 s"]
    by (intro exI [of _ "hex_str n (reg 0 s)"]) (simp add: hex_chars_def)
qed

theorem uart_printhex_witness:
  "\<exists>ds. trace (printhex4 (uart_env 0xff012000 (\<lambda>_. 0) (\<lambda>_. 0)) 0 0x10800 (demo_thread\<lparr>arm_regs := \<lambda>b n. 0xCAFE\<rparr>)) =
     map (\<lambda>c. Wr 0xff012000 (ucast c)) ds \<and> length ds = 4 \<and> foldl (\<lambda>x c. 16 * x + hex_val c) 0 ds = 0xCAFE"
proof -
  have base: "addruart 0 = 0xff012000" by (simp add: addruart_def)
  have "goldfish_tty (uart_env 0xff012000 (\<lambda>_. 0) (\<lambda>_. 0)) (addruart 0) (\<lambda>_. 0) (\<lambda>_. 0)"
    unfolding base by (rule goldfish_tty_uart_env) (simp_all add: mono_def)
  from uart_printhex [OF this, of "0x10800" 4 _ "demo_thread\<lparr>arm_regs := \<lambda>b n. 0xCAFE\<rparr>"] show ?thesis
    by (auto simp: base demo_thread_def reg_lo)
qed

end
