(* ===== verification/Syscalls.thy ===== *)
theory Syscalls
  imports Serial
begin

text \<open>
  The system call stubs for the C library, \<^verbatim>\<open>drivers/syscalls.c\<close> and \<^verbatim>\<open>drivers/syscalls_cs3.c\<close>. Their
  state is \<open>errno\<close> and the static \<open>heap_end\<close>; the linker symbols \<open>_ebss\<close>, \<open>__cs3_heap_start\<close> and
  \<open>__cs3_heap_end\<close> and the addresses of string literals are arguments. \<open>_write\<close> and \<open>_read\<close>, which are
  the same in both files, go through the serial console. \<open>_read\<close> blocks: its result is \<open>None\<close> when no
  input ever arrives. The leading underscore of the names becomes the prefix \<open>sys\<close>.
\<close>

section \<open>The code\<close>

text \<open>The values of \<open>errno\<close> the stubs use.\<close>

datatype errno_val = E_NONE | E_BADF | E_NOMEM | E_AGAIN | E_INVAL | E_MLINK | E_NOENT | E_CHILD | E_NOSYS

record sys_st = tty_st +
  errno :: errno_val
  heap_end :: u32

record stat =
  st_mode :: u32

definition STDIN_FILENO :: int where [simp]: "STDIN_FILENO = 0"
definition STDOUT_FILENO :: int where [simp]: "STDOUT_FILENO = 1"
definition STDERR_FILENO :: int where [simp]: "STDERR_FILENO = 2"
definition S_IFCHR :: u32 where [simp]: "S_IFCHR = 8192"
definition STACK_BUFFER_SIZE :: u32 where [simp]: "STACK_BUFFER_SIZE = 65536"

text \<open>The loop \<open>for (n = 0; n < len; n++) drv->putc(*ptr++);\<close>.\<close>

fun sys_write_loop :: "'a sys_st_scheme serial_device \<Rightarrow> u32 \<Rightarrow> nat \<Rightarrow> 'a sys_st_scheme \<Rightarrow> 'a sys_st_scheme" where
  "sys_write_loop drv ptr 0 s = s"
| "sys_write_loop drv ptr (Suc n) s = sys_write_loop drv (ptr + 1) n (sd_putc drv (mem s ptr) s)"

definition sys_write :: "env \<Rightarrow> u32 \<Rightarrow> int \<Rightarrow> u32 \<Rightarrow> int \<Rightarrow> 'a sys_st_scheme \<Rightarrow> int \<times> 'a sys_st_scheme" where
  "sys_write env buf file ptr len s =
     (let drv = default_serial_console env buf
      in if file = STDOUT_FILENO then (len, sys_write_loop drv ptr (nat len) s)
         else if file = STDERR_FILENO then (len, sys_write_loop drv ptr (nat len) s)
         else (- 1, s\<lparr>errno := E_BADF\<rparr>))"

text \<open>The loop \<open>while (len1 <= 0) len1 = drv->tstc();\<close>.\<close>

partial_function (option) sys_read_wait ::
  "'a sys_st_scheme serial_device \<Rightarrow> int \<Rightarrow> 'a sys_st_scheme \<Rightarrow> (int \<times> 'a sys_st_scheme) option" where
  "sys_read_wait drv len1 s =
     (if len1 \<le> 0 then sys_read_wait drv (fst (sd_tstc drv s)) (snd (sd_tstc drv s)) else Some (len1, s))"

text \<open>The loop \<open>for (n = 0; n < len1; n++) { c = drv->getc(); *ptr++ = c; num++; }\<close>.\<close>

fun sys_read_loop :: "'a sys_st_scheme serial_device \<Rightarrow> u32 \<Rightarrow> nat \<Rightarrow> int \<Rightarrow> 'a sys_st_scheme \<Rightarrow> int \<times> 'a sys_st_scheme" where
  "sys_read_loop drv ptr 0 num s = (num, s)"
| "sys_read_loop drv ptr (Suc n) num s =
     (let (c, s) = sd_getc drv s
      in sys_read_loop drv (ptr + 1) n (num + 1) (s\<lparr>mem := (mem s)(ptr := word_of_int c)\<rparr>))"

definition sys_read ::
  "env \<Rightarrow> u32 \<Rightarrow> int \<Rightarrow> u32 \<Rightarrow> int \<Rightarrow> 'a sys_st_scheme \<Rightarrow> (int \<times> 'a sys_st_scheme) option" where
  "sys_read env buf file ptr len s =
     (let drv = default_serial_console env buf;
          (len1, s) = sd_tstc drv s
      in case sys_read_wait drv len1 s of
           None \<Rightarrow> None
         | Some (len1, s) \<Rightarrow>
             if len1 \<noteq> 0
             then let len1 = (if len < len1 then len else len1)
                  in if file = STDIN_FILENO then Some (sys_read_loop drv ptr (nat len1) 0 s)
                     else Some (- 1, s\<lparr>errno := E_BADF\<rparr>)
             else Some (- 1, s))"

text \<open>\<open>_sbrk\<close> of \<^verbatim>\<open>syscalls.c\<close>, which never fails, and of \<^verbatim>\<open>syscalls_cs3.c\<close>; \<open>msg\<close> is the address of the
  message.\<close>

definition sys_sbrk :: "u32 \<Rightarrow> u32 \<Rightarrow> 'a sys_st_scheme \<Rightarrow> u32 \<times> 'a sys_st_scheme" where
  "sys_sbrk ebss incr s =
     (let s = (if heap_end s = 0 then s\<lparr>heap_end := ebss\<rparr> else s);
          prev_heap_end = heap_end s
      in (prev_heap_end, s\<lparr>heap_end := heap_end s + incr\<rparr>))"

definition sys_sbrk_cs3 ::
  "env \<Rightarrow> u32 \<Rightarrow> u32 \<Rightarrow> u32 \<Rightarrow> u32 \<Rightarrow> u32 \<Rightarrow> 'a sys_st_scheme \<Rightarrow> u32 \<times> 'a sys_st_scheme" where
  "sys_sbrk_cs3 env buf cs3_heap_start cs3_heap_end msg incr s =
     (let s = (if heap_end s = 0 then s\<lparr>heap_end := cs3_heap_start\<rparr> else s);
          prev_heap_end = heap_end s
      in if cs3_heap_end < heap_end s + STACK_BUFFER_SIZE + incr
         then let s = s\<lparr>errno := E_NOMEM\<rparr>;
                  (n, s) = sys_write env buf STDERR_FILENO msg 16 s
              in (0, s)
         else (prev_heap_end, s\<lparr>heap_end := heap_end s + incr\<rparr>))"

text \<open>\<open>_init\<close> of \<^verbatim>\<open>syscalls_cs3.c\<close>.\<close>

definition sys_init :: "env \<Rightarrow> u32 \<Rightarrow> 'a sys_st_scheme \<Rightarrow> 'a sys_st_scheme" where
  "sys_init env buf s = snd (sd_start (default_serial_console env buf) s)"

text \<open>\<open>_exit\<close> prints the word exit and then spins; this is the state in which it spins.\<close>

definition sys_exit :: "env \<Rightarrow> u32 \<Rightarrow> u32 \<Rightarrow> int \<Rightarrow> 'a sys_st_scheme \<Rightarrow> 'a sys_st_scheme" where
  "sys_exit env buf lit status s = snd (sys_write env buf 1 lit 4 s)"

definition sys_isatty :: "int \<Rightarrow> 'a sys_st_scheme \<Rightarrow> int \<times> 'a sys_st_scheme" where
  "sys_isatty file s =
     (if file = STDOUT_FILENO \<or> file = STDERR_FILENO \<or> file = STDIN_FILENO then (1, s)
      else (0, s\<lparr>errno := E_BADF\<rparr>))"

definition sys_fstat :: "int \<Rightarrow> stat \<Rightarrow> int \<times> stat" where
  "sys_fstat file st = (0, st\<lparr>st_mode := S_IFCHR\<rparr>)"

definition sys_stat :: "u32 \<Rightarrow> stat \<Rightarrow> int \<times> stat" where
  "sys_stat filepath st = (0, st\<lparr>st_mode := S_IFCHR\<rparr>)"

text \<open>The calls that always fail, by the value they put into \<open>errno\<close>.\<close>

definition sys_fail :: "errno_val \<Rightarrow> 'a sys_st_scheme \<Rightarrow> int \<times> 'a sys_st_scheme" where
  "sys_fail e s = (- 1, s\<lparr>errno := e\<rparr>)"

definition sys_open :: "'a sys_st_scheme \<Rightarrow> int \<times> 'a sys_st_scheme" where
  "sys_open s = sys_fail E_NOSYS s"

definition sys_execve :: "'a sys_st_scheme \<Rightarrow> int \<times> 'a sys_st_scheme" where
  "sys_execve s = sys_fail E_NOMEM s"

definition sys_fork :: "'a sys_st_scheme \<Rightarrow> int \<times> 'a sys_st_scheme" where
  "sys_fork s = sys_fail E_AGAIN s"

definition sys_kill :: "'a sys_st_scheme \<Rightarrow> int \<times> 'a sys_st_scheme" where
  "sys_kill s = sys_fail E_INVAL s"

definition sys_link :: "'a sys_st_scheme \<Rightarrow> int \<times> 'a sys_st_scheme" where
  "sys_link s = sys_fail E_MLINK s"

definition sys_unlink :: "'a sys_st_scheme \<Rightarrow> int \<times> 'a sys_st_scheme" where
  "sys_unlink s = sys_fail E_NOENT s"

definition sys_wait :: "'a sys_st_scheme \<Rightarrow> int \<times> 'a sys_st_scheme" where
  "sys_wait s = sys_fail E_CHILD s"

definition sys_close :: int where "sys_close = - 1"
definition sys_getpid :: int where "sys_getpid = 1"
definition sys_lseek :: int where "sys_lseek = 0"
definition sys_times :: int where "sys_times = - 1"

section \<open>Writing\<close>

lemma drv_simps [simp]:
  "sd_putc (default_serial_console env buf) = goldfish_putc env"
  "sd_getc (default_serial_console env buf) = goldfish_getc env buf"
  "sd_tstc (default_serial_console env buf) = goldfish_tstc env"
  "sd_start (default_serial_console env buf) = goldfish_init env"
  by (simp_all add: default_serial_console_def goldfish_drv_def)

lemma errno_bus [simp]:
  "errno (writel env v a s) = errno s" "errno (snd (readl env a s)) = errno s" "errno (printf f xs s) = errno s"
  "heap_end (writel env v a s) = heap_end s" "heap_end (snd (readl env a s)) = heap_end s"
  "heap_end (printf f xs s) = heap_end s"
  by (simp_all add: writel_def readl_def printf_def Let_def)

lemma errno_putc [simp]: "errno (goldfish_putc env c s) = errno s" "heap_end (goldfish_putc env c s) = heap_end s"
  by (simp_all add: goldfish_putc_def tty_base_def goldfish_init_def Let_def)

lemma errno_write_loop [simp]:
  "errno (sys_write_loop (default_serial_console env buf) ptr n s) = errno s"
  "heap_end (sys_write_loop (default_serial_console env buf) ptr n s) = heap_end s"
  by (induction n arbitrary: ptr s) simp_all

lemma write_loop_fold:
  assumes "tty_up env base s" and "bytes_at (mem s) ptr bs"
  shows "sys_write_loop (default_serial_console env buf) ptr (length bs) s = fold (goldfish_putc env) bs s"
  using assms
proof (induction bs arbitrary: ptr s)
  case (Cons b bs)
  then show ?case using Cons.IH [OF gfc.putc_up [OF Cons.prems(1)], of b "ptr + 1"] by (simp add: gfc.putc_ram)
qed simp

lemma tty_out_visible: "concat (map (tty_out base) bs) = map (\<lambda>b. Wr (base + GOLDFISH_TTY_PUT_CHAR) (ucast b)) (filter (\<lambda>b. b \<noteq> 0) bs)"
  by (induction bs) (simp_all add: tty_out_def)

lemma write_loop_trace:
  assumes up: "tty_up env base s" and bs: "bytes_at (mem s) ptr bs"
  shows "trace (sys_write_loop (default_serial_console env buf) ptr (length bs) s) =
      trace s @ map (\<lambda>b. Wr (base + GOLDFISH_TTY_PUT_CHAR) (ucast b)) (filter (\<lambda>b. b \<noteq> 0) bs)"
    and "mem (sys_write_loop (default_serial_console env buf) ptr (length bs) s) = mem s"
  using gfc.put_all [OF up, of bs] by (simp_all add: write_loop_fold [OF up bs] tty_out_visible)

section \<open>Reading\<close>

lemma read_wait_up:
  fixes s :: "'a sys_st_scheme"
  assumes dev: "goldfish_tty env base input arrived"
    and later: "consumed base (trace s) < arrived m"
  shows "gtty_base s = base \<Longrightarrow> base \<noteq> 0 \<Longrightarrow> consumed base (trace s) = n \<Longrightarrow> len1 \<le> int (tty_avail base arrived (trace s)) \<Longrightarrow>
    \<exists>k s'. sys_read_wait (default_serial_console env buf) len1 s = Some (int k, s') \<and> 0 < k \<and>
      k \<le> tty_avail base arrived (trace s') \<and> consumed base (trace s') = n \<and> mem s' = mem s \<and> gtty_base s' = base"
  using later
proof (induction "m - length (trace s)" arbitrary: s len1 rule: less_induct)
  case less
  show ?case
  proof (cases "len1 \<le> 0")
    case False
    then have "sys_read_wait (default_serial_console env buf) len1 s = Some (int (nat len1), s)"
      by (subst sys_read_wait.simps) simp
    then show ?thesis using False less.prems by (intro exI [of _ "nat len1"] exI [of _ s]) simp
  next
    case True
    obtain v s1 where t: "goldfish_tstc env s = (int (tty_avail base arrived (trace s)), s1)"
        "trace s1 = trace s @ [Rd (base + 4) v]" "mem s1 = mem s" "gtty_base s1 = base"
      using goldfish_tstc_up [OF dev less.prems(1,2)] by blast
    have step: "sys_read_wait (default_serial_console env buf) len1 s =
        sys_read_wait (default_serial_console env buf) (int (tty_avail base arrived (trace s))) s1"
      using True t(1) by (subst sys_read_wait.simps) simp
    have c: "consumed base (trace s1) = n" using t(2) less.prems(3) by (simp add: consumed_def)
    have mono: "mono arrived" using dev by (simp add: goldfish_tty_def)
    have av: "tty_avail base arrived (trace s) \<le> tty_avail base arrived (trace s1)"
      using c less.prems(3) t(2) monoD [OF mono, of "length (trace s)" "length (trace s1)"]
      by (simp add: tty_avail_def diff_le_mono)
    show ?thesis
    proof (cases "m \<le> length (trace s)")
      case True
      then have "0 < tty_avail base arrived (trace s)"
        using less.prems(3,5) monoD [OF mono True] by (simp add: tty_avail_def)
      then have "sys_read_wait (default_serial_console env buf) len1 s = Some (int (tty_avail base arrived (trace s)), s1)"
        unfolding step by (subst sys_read_wait.simps) simp
      then show ?thesis using \<open>0 < tty_avail base arrived (trace s)\<close> av c t(3,4)
        by (intro exI [of _ "tty_avail base arrived (trace s)"] exI [of _ s1]) simp
    next
      case False
      have "m - length (trace s1) < m - length (trace s)" using False t(2) by simp
      from less.hyps [OF this t(4) less.prems(2) c] av less.prems(3,5) c t(3) show ?thesis
        unfolding step by auto
    qed
  qed
qed

lemma read_loop_up:
  fixes s :: "'a sys_st_scheme"
  assumes dev: "goldfish_tty env base input arrived"
  shows "gtty_base s = base \<Longrightarrow> base \<noteq> 0 \<Longrightarrow> consumed base (trace s) = n \<Longrightarrow>
    k \<le> tty_avail base arrived (trace s) \<Longrightarrow> (\<forall>j < k. ptr + of_nat j \<noteq> buf) \<Longrightarrow> k < 4294967296 \<Longrightarrow>
    \<exists>s'. sys_read_loop (default_serial_console env buf) ptr k num s = (num + int k, s') \<and>
      consumed base (trace s') = n + k \<and> bytes_at (mem s') ptr (map input [n ..< n + k]) \<and>
      (\<forall>a. a \<noteq> buf \<longrightarrow> (\<forall>j < k. a \<noteq> ptr + of_nat j) \<longrightarrow> mem s' a = mem s a)"
proof (induction k arbitrary: s n ptr num)
  case 0
  then show ?case by simp
next
  case (Suc k)
  have av: "0 < tty_avail base arrived (trace s)" using Suc.prems(4) by simp
  obtain v s1 where g: "goldfish_getc env buf s = (uint (input n), s1)"
      "trace s1 = trace s @ [Rd (base + 4) v, Wr (base + 0x10) buf, Wr (base + 0x14) 1, Wr (base + 8) 3]"
      "mem s1 = (mem s)(buf := input n)" "gtty_base s1 = base"
    using goldfish_getc_up [OF dev Suc.prems(1,2) av, of buf] Suc.prems(3) by blast
  let ?s = "s1\<lparr>mem := (mem s1)(ptr := input n)\<rparr>"
  have c: "consumed base (trace ?s) = Suc n" using g(2) Suc.prems(3) by (simp add: consumed_def)
  have mono: "mono arrived" using dev by (simp add: goldfish_tty_def)
  have "arrived (length (trace s)) \<le> arrived (length (trace ?s))" using g(2) by (intro monoD [OF mono]) simp
  then have av': "k \<le> tty_avail base arrived (trace ?s)" using Suc.prems(3,4) c by (simp add: tty_avail_def)
  have sep: "\<forall>j < k. ptr + 1 + of_nat j \<noteq> buf" using Suc.prems(5) by (auto simp: add.assoc dest: spec [of _ "Suc _"])
  obtain s' where s': "sys_read_loop (default_serial_console env buf) (ptr + 1) k (num + 1) ?s = (num + 1 + int k, s')"
      "consumed base (trace s') = Suc n + k" "bytes_at (mem s') (ptr + 1) (map input [Suc n ..< Suc n + k])"
      "\<forall>a. a \<noteq> buf \<longrightarrow> (\<forall>j < k. a \<noteq> ptr + 1 + of_nat j) \<longrightarrow> mem s' a = mem ?s a"
    using Suc.IH [of ?s "Suc n" "ptr + 1" "num + 1", OF _ Suc.prems(2) c av' sep] Suc.prems(6) g(4) by auto
  have ne: "ptr \<noteq> ptr + 1 + of_nat j" if "j < k" for j
  proof
    assume "ptr = ptr + 1 + of_nat j"
    then have "of_nat (Suc j) = (0 :: u32)" by (simp add: add.assoc)
    then have "unat (of_nat (Suc j) :: u32) = 0" by simp
    then show False using that Suc.prems(6) by (simp only: unat_of_nat) simp
  qed
  have "mem s' ptr = input n" using s'(4) ne Suc.prems(5) by auto
  moreover have "[n ..< n + Suc k] = n # [Suc n ..< Suc n + k]" by (simp add: upt_conv_Cons del: upt_Suc)
  ultimately have b: "bytes_at (mem s') ptr (map input [n ..< n + Suc k])"
    using s'(3) by (simp del: upt_Suc)
  have fr: "mem s' a = mem s a" if "a \<noteq> buf" "\<forall>j < Suc k. a \<noteq> ptr + of_nat j" for a
  proof -
    have "a \<noteq> ptr" using that(2) by (auto dest: spec [of _ 0])
    moreover have "\<forall>j < k. a \<noteq> ptr + 1 + of_nat j"
      using that(2) by (auto simp: add.assoc dest: spec [of _ "Suc _"])
    ultimately show ?thesis using s'(4) that(1) g(3) by simp
  qed
  show ?case using s'(1,2) b fr g(1) by (intro exI [of _ s']) simp
qed

section \<open>The heap\<close>

text \<open>A sequence of requests, with the addresses returned.\<close>

fun brk_seq :: "(u32 \<Rightarrow> 's \<Rightarrow> u32 \<times> 's) \<Rightarrow> u32 list \<Rightarrow> 's \<Rightarrow> u32 list \<times> 's" where
  "brk_seq brk [] s = ([], s)"
| "brk_seq brk (n # ns) s =
     (let (a, s) = brk n s; (as, s) = brk_seq brk ns s in (a # as, s))"

text \<open>What \<open>malloc\<close> relies on: while there is room, a request returns the old end of the heap and moves
  the end by the size.\<close>

locale program_break =
  fixes brk :: "u32 \<Rightarrow> 's \<Rightarrow> u32 \<times> 's" and brk_end :: "'s \<Rightarrow> u32" and limit :: nat
  assumes brk_ok: "0 < unat (brk_end s) \<Longrightarrow> unat (brk_end s) + unat n \<le> limit \<Longrightarrow>
      fst (brk n s) = brk_end s \<and> unat (brk_end (snd (brk n s))) = unat (brk_end s) + unat n"
begin

lemma brk_blocks:
  "0 < unat (brk_end s) \<Longrightarrow> unat (brk_end s) + sum_list (map unat ns) \<le> limit \<Longrightarrow>
   map unat (fst (brk_seq brk ns s)) =
     map (\<lambda>i. unat (brk_end s) + sum_list (map unat (take i ns))) [0 ..< length ns] \<and>
   unat (brk_end (snd (brk_seq brk ns s))) = unat (brk_end s) + sum_list (map unat ns)"
proof (induction ns arbitrary: s)
  case (Cons n ns)
  let ?s = "snd (brk n s)"
  have s: "fst (brk n s) = brk_end s" "unat (brk_end ?s) = unat (brk_end s) + unat n"
    using brk_ok [of s n] Cons.prems by simp_all
  have "map (\<lambda>i. unat (brk_end s) + sum_list (map unat (take i (n # ns)))) [0 ..< Suc (length ns)]
      = unat (brk_end s) # map (\<lambda>i. unat (brk_end ?s) + sum_list (map unat (take i ns))) [0 ..< length ns]"
    using s(2) by (simp add: map_upt_Suc del: upt_Suc)
  with Cons.IH [of ?s] Cons.prems s show ?case by (simp add: split_beta del: upt_Suc)
qed simp

end

definition heap_top :: "u32 \<Rightarrow> 'a sys_st_scheme \<Rightarrow> u32" where
  "heap_top start s = (if heap_end s = 0 then start else heap_end s)"

interpretation bare: program_break "sys_sbrk ebss" "heap_top ebss" "4294967295" for ebss :: u32
proof unfold_locales
  fix s :: "'a sys_st_scheme" and n :: u32
  assume a: "0 < unat (heap_top ebss s)" "unat (heap_top ebss s) + unat n \<le> 4294967295"
  then have "unat (heap_top ebss s + n) = unat (heap_top ebss s) + unat n" by (simp add: word_nat)
  moreover from this a(1) have "heap_top ebss s + n \<noteq> 0" by (auto simp: word_eq_0_unat)
  ultimately show "fst (sys_sbrk ebss n s) = heap_top ebss s \<and>
      unat (heap_top ebss (snd (sys_sbrk ebss n s))) = unat (heap_top ebss s) + unat n"
    by (auto simp: sys_sbrk_def heap_top_def Let_def split: if_splits)
qed

lemma sbrk_cs3_cases:
  assumes "unat (heap_top start s) + 65536 + unat n < 4294967296"
  shows "sys_sbrk_cs3 env buf start lim msg n s =
     (if unat lim < unat (heap_top start s) + 65536 + unat n
      then (0, snd (sys_write env buf 2 msg 16 (s\<lparr>heap_end := heap_top start s, errno := E_NOMEM\<rparr>)))
      else (heap_top start s, s\<lparr>heap_end := heap_top start s + n\<rparr>))"
proof -
  have "unat (heap_top start s + 65536) = unat (heap_top start s) + 65536"
    using assms unat_add_u32 [of "heap_top start s" 65536] by simp
  then have "unat (heap_top start s + 65536 + n) = unat (heap_top start s) + 65536 + unat n"
    using assms unat_add_u32 [of "heap_top start s + 65536" n] by simp
  then show ?thesis
    by (auto simp: sys_sbrk_cs3_def heap_top_def Let_def word_less_nat_alt split_beta split: if_splits)
qed

interpretation cs3: program_break "sys_sbrk_cs3 env buf start lim msg" "heap_top start" "unat lim - 65536"
  for env :: env and buf start lim msg :: u32
proof unfold_locales
  fix s :: "'a sys_st_scheme" and n :: u32
  assume a: "0 < unat (heap_top start s)" "unat (heap_top start s) + unat n \<le> unat lim - 65536"
  then have le: "unat (heap_top start s) + 65536 + unat n \<le> unat lim" by simp
  then have lt: "unat (heap_top start s) + 65536 + unat n < 4294967296" using unat_lt_u32 [of lim] by simp
  then have "unat (heap_top start s + n) = unat (heap_top start s) + unat n" by (simp add: word_nat)
  moreover from this a(1) have "heap_top start s + n \<noteq> 0" by (auto simp: word_eq_0_unat)
  ultimately show "fst (sys_sbrk_cs3 env buf start lim msg n s) = heap_top start s \<and>
      unat (heap_top start (snd (sys_sbrk_cs3 env buf start lim msg n s))) = unat (heap_top start s) + unat n"
    using sbrk_cs3_cases [OF lt] le by (simp add: heap_top_def [of _ "s\<lparr>heap_end := _\<rparr>"])
qed

section \<open>Properties\<close>

definition sys_boot :: sys_st where
  "sys_boot = tty_st.extend tty_boot \<lparr>errno = E_NONE, heap_end = 0\<rparr>"

lemma sys_boot_simps [simp]:
  "trace sys_boot = []" "gtty_base sys_boot = 0" "sctlr sys_boot = 0" "errno sys_boot = E_NONE" "heap_end sys_boot = 0"
  "mem sys_boot = (\<lambda>_. 0)(0x100 := 0x48, 0x101 := 0x69)"
  by (simp_all add: sys_boot_def tty_st.extend_def tty_boot_def)

text \<open>C35: \<open>_write\<close> to standard output or standard error sends the non-zero bytes of the buffer to the
  console, in order, after bringing the console up on first use; it leaves memory alone and returns
  \<open>len\<close>, so zero bytes are counted although they are not sent. On any other descriptor it returns -1 with
  \<open>EBADF\<close> and sends nothing.\<close>

theorem sys_write_output:
  assumes dev: "goldfish_tty env base input arrived" and base: "base = base_of s"
    and bs: "bytes_at (mem s) ptr bs" and len: "len = int (length bs)"
  shows "if file = STDOUT_FILENO \<or> file = STDERR_FILENO
     then \<exists>s'. sys_write env buf file ptr len s = (len, s') \<and> mem s' = mem s \<and> errno s' = errno s \<and>
            trace s' = trace s @ (if bs = [] then [] else boot_events s) @
              map (\<lambda>b. Wr (base + GOLDFISH_TTY_PUT_CHAR) (ucast b)) (filter (\<lambda>b. b \<noteq> 0) bs)
     else sys_write env buf file ptr len s = (- 1, s\<lparr>errno := E_BADF\<rparr>)"
proof -
  let ?s' = "sys_write_loop (default_serial_console env buf) ptr (length bs) s"
  have "mem ?s' = mem s \<and> trace ?s' = trace s @ (if bs = [] then [] else boot_events s) @
      map (\<lambda>b. Wr (base + GOLDFISH_TTY_PUT_CHAR) (ucast b)) (filter (\<lambda>b. b \<noteq> 0) bs)"
  proof (cases bs)
    case Nil
    then show ?thesis by simp
  next
    case (Cons b cs)
    note first = putc_first [OF dev [unfolded base], of b]
    have "bytes_at (mem (goldfish_putc env b s)) (ptr + 1) cs" using bs Cons first(3) by simp
    from write_loop_trace [OF first(1) this, of buf] show ?thesis
      using first(2,3) bs Cons base by (simp add: tty_out_def)
  qed
  then show ?thesis using len by (simp add: sys_write_def)
qed

theorem sys_write_output_witness:
  "\<exists>s'. sys_write (uart_env 0xff012000 (\<lambda>_. 0) (\<lambda>_. 0)) 0x200 1 0x100 3 sys_boot = (3, s') \<and>
     trace s' = boot_events sys_boot @ [Wr 0xff012000 0x48, Wr 0xff012000 0x69]"
  using sys_write_output [OF goldfish_tty_uart_env, of "\<lambda>_. 0" "0xff012000" sys_boot "0x100" "[0x48, 0x69, 0]" 3 1 "\<lambda>_. 0" "0x200"]
  by (simp add: mono_def base_of_def getbaseaddr_def) blast

text \<open>C36: \<open>_read\<close> returns as soon as input has arrived. If the input holds, at some time, more bytes than
  were taken so far, then the call ends; on descriptor 0 it returns a number of bytes between 1 and
  \<open>len\<close>, not necessarily \<open>len\<close>, and stores exactly the next bytes of the input stream at \<open>ptr\<close>, changing
  no other memory than its own one-byte buffer; on any other descriptor it returns -1 with \<open>EBADF\<close>, also
  only after input has arrived, and takes nothing.\<close>

theorem sys_read_blocking:
  assumes dev: "goldfish_tty env base input arrived" and up: "gtty_base s = base" "base \<noteq> 0"
    and n: "n = consumed base (trace s)" and later: "n < arrived m"
    and len: "0 < len" "len < 2 ^ 31" and sep: "\<forall>j < nat len. ptr + of_nat j \<noteq> buf"
  shows "if file = STDIN_FILENO
     then \<exists>k s'. sys_read env buf file ptr len s = Some (int k, s') \<and> 0 < k \<and> int k \<le> len \<and>
            bytes_at (mem s') ptr (map input [n ..< n + k]) \<and> consumed base (trace s') = n + k \<and>
            (\<forall>a. a \<noteq> buf \<longrightarrow> (\<forall>j < k. a \<noteq> ptr + of_nat j) \<longrightarrow> mem s' a = mem s a)
     else \<exists>s'. sys_read env buf file ptr len s = Some (- 1, s') \<and> errno s' = E_BADF \<and>
            consumed base (trace s') = n \<and> mem s' = mem s"
proof -
  let ?drv = "default_serial_console env buf :: 'a sys_st_scheme serial_device"
  obtain v s1 where t: "goldfish_tstc env s = (int (tty_avail base arrived (trace s)), s1)"
      "trace s1 = trace s @ [Rd (base + 4) v]" "mem s1 = mem s" "gtty_base s1 = base"
    using goldfish_tstc_up [OF dev up] by blast
  have c1: "consumed base (trace s1) = n" using t(2) n by (simp add: consumed_def)
  have mono: "mono arrived" using dev by (simp add: goldfish_tty_def)
  have "tty_avail base arrived (trace s) \<le> tty_avail base arrived (trace s1)"
    using c1 n t(2) monoD [OF mono, of "length (trace s)" "length (trace s1)"] by (simp add: tty_avail_def diff_le_mono)
  then obtain k s2 where w: "sys_read_wait ?drv (int (tty_avail base arrived (trace s))) s1 = Some (int k, s2)" "0 < k"
      "k \<le> tty_avail base arrived (trace s2)" "consumed base (trace s2) = n" "mem s2 = mem s" "gtty_base s2 = base"
    using read_wait_up [OF dev _ t(4) up(2) c1, of m "int (tty_avail base arrived (trace s))" buf] later c1 t(3) by auto
  let ?k = "min (nat len) k"
  have l: "(if len < int k then len else int k) = int ?k" using len by auto
  have "?k \<le> tty_avail base arrived (trace s2)" "\<forall>j < ?k. ptr + of_nat j \<noteq> buf" "?k < 4294967296"
    using w(3) sep len by auto
  from read_loop_up [OF dev w(6) up(2) w(4) this, of 0] obtain s3 where
    s3: "sys_read_loop ?drv ptr ?k 0 s2 = (int ?k, s3)" "consumed base (trace s3) = n + ?k"
      "bytes_at (mem s3) ptr (map input [n ..< n + ?k])"
      "\<forall>a. a \<noteq> buf \<longrightarrow> (\<forall>j < ?k. a \<noteq> ptr + of_nat j) \<longrightarrow> mem s3 a = mem s2 a" by auto
  have r: "sys_read env buf file ptr len s =
      (if file = STDIN_FILENO then Some (int ?k, s3) else Some (- 1, s2\<lparr>errno := E_BADF\<rparr>))"
    using t(1) w(1,2) s3(1) unfolding sys_read_def by (simp add: l del: of_nat_min)
  show ?thesis
  proof (cases "file = STDIN_FILENO")
    case True
    then have "sys_read env buf file ptr len s = Some (int ?k, s3)" using r by (simp del: of_nat_min)
    moreover have "0 < ?k" "int ?k \<le> len" using w(2) len by auto
    ultimately have "\<exists>k s'. sys_read env buf file ptr len s = Some (int k, s') \<and> 0 < k \<and> int k \<le> len \<and>
            bytes_at (mem s') ptr (map input [n ..< n + k]) \<and> consumed base (trace s') = n + k \<and>
            (\<forall>a. a \<noteq> buf \<longrightarrow> (\<forall>j < k. a \<noteq> ptr + of_nat j) \<longrightarrow> mem s' a = mem s a)"
      using s3(2-4) unfolding w(5) by blast
    then show ?thesis unfolding if_P [OF True] .
  next
    case False
    then show ?thesis using r w(4,5) by simp
  qed
qed

theorem sys_read_blocking_witness:
  "\<exists>k s'. sys_read (uart_env 0xff012000 (\<lambda>k. of_nat k + 65) (\<lambda>t. if t < 5 then 0 else 2)) 0x900 0 0x300 8
       (sys_boot\<lparr>gtty_base := 0xff012000\<rparr>) = Some (int k, s') \<and> 0 < k \<and> int k \<le> 8 \<and> mem s' 0x300 = 65"
proof -
  let ?arr = "\<lambda>t. if t < 5 then 0 else 2 :: nat" and ?in = "\<lambda>k. of_nat k + 65 :: u8"
  have dev: "goldfish_tty (uart_env 0xff012000 ?in ?arr) 0xff012000 ?in ?arr"
    by (rule goldfish_tty_uart_env) (auto simp: mono_def)
  have sep: "\<forall>j < nat 8. 0x300 + of_nat j \<noteq> (0x900 :: u32)"
  proof (intro allI impI notI)
    fix j assume j: "j < nat 8" "0x300 + of_nat j = (0x900 :: u32)"
    then have "(of_nat j :: u32) = 0x900 - 0x300" by (metis add_diff_cancel_left')
    then have "unat (of_nat j :: u32) = 0x600" by simp
    then show False using j(1) by (simp add: unat_of_nat take_bit_eq_mod)
  qed
  obtain k s' where "sys_read (uart_env 0xff012000 ?in ?arr) 0x900 0 0x300 8 (sys_boot\<lparr>gtty_base := 0xff012000\<rparr>) = Some (int k, s')"
    "0 < k" "int k \<le> 8" "bytes_at (mem s') 0x300 (map ?in [0 ..< 0 + k])"
    using sys_read_blocking [OF dev, of "sys_boot\<lparr>gtty_base := 0xff012000\<rparr>" 0 5 8 "0x300" "0x900" 0] sep
    by (auto simp: consumed_def)
  moreover have "map ?in [0 ..< 0 + k] = 65 # map ?in [1 ..< k]" using \<open>0 < k\<close> by (simp add: upt_conv_Cons)
  ultimately show ?thesis by auto
qed

text \<open>Consecutive heap requests get consecutive areas, with both versions of \<open>_sbrk\<close>. For a list of
  sizes that fits below the top of the address space (in the CS3 version: 64 KiB below the end of the
  heap), the \<open>i\<close>th address returned is the start of the heap plus the sizes of the requests before it;
  so the areas are disjoint and without gaps.\<close>

lemma sbrk_blocks:
  fixes s :: "'a sys_st_scheme"
  assumes base: "base = unat (heap_top start s)" "0 < base"
  shows "(base + sum_list (map unat ns) < 2 ^ 32 \<longrightarrow>
      map unat (fst (brk_seq (sys_sbrk start) ns s)) =
        map (\<lambda>i. base + sum_list (map unat (take i ns))) [0 ..< length ns]) \<and>
    (base + sum_list (map unat ns) + 2 ^ 16 \<le> unat lim \<longrightarrow>
      map unat (fst (brk_seq (sys_sbrk_cs3 env buf start lim msg) ns s)) =
        map (\<lambda>i. base + sum_list (map unat (take i ns))) [0 ..< length ns])"
  using bare.brk_blocks [of start s ns] cs3.brk_blocks [of start s ns lim env buf msg] base by auto

lemma sbrk_blocks_example:
  "map unat (fst (brk_seq (sys_sbrk 0x10000) [16, 32, 8] sys_boot)) = [65536, 65552, 65584]"
proof -
  have "[0 ..< length [16, 32, 8 :: u32]] = [0, 1, 2]" by (simp add: upt_rec)
  then show ?thesis
    using sbrk_blocks [of 65536 "0x10000" sys_boot "[16, 32, 8]"] by (simp add: heap_top_def)
qed

text \<open>C38: \<open>_sbrk\<close> of the CS3 version keeps the heap 64 KiB below its end, as long as the sum it tests
  does not wrap. A request that does not fit leaves the end of the heap where it was, sets
  \<open>errno\<close> to \<open>ENOMEM\<close>, and returns a null pointer.\<close>

theorem sbrk_cs3_limit:
  assumes nowrap: "unat (heap_top start s) + 2 ^ 16 + unat n < 2 ^ 32"
    and r: "sys_sbrk_cs3 env buf start lim msg n s = (a, s')"
  shows "(if unat (heap_top start s) + 2 ^ 16 + unat n \<le> unat lim
      then a = heap_top start s \<and> heap_end s' = heap_top start s + n \<and> unat (heap_end s') + 2 ^ 16 \<le> unat lim
      else a = 0 \<and> heap_end s' = heap_top start s \<and> errno s' = E_NOMEM)"
proof -
  have "unat (heap_top start s + n) = unat (heap_top start s) + unat n" using nowrap by (simp add: word_nat)
  then show ?thesis using r sbrk_cs3_cases [of start s n env buf lim msg] nowrap
    by (auto simp: sys_write_def Let_def split: if_splits)
qed

theorem sbrk_cs3_limit_witness:
  "fst (sys_sbrk_cs3 (uart_env 0xff012000 (\<lambda>_. 0) (\<lambda>_. 0)) 0x900 0x10000 0x30000 0x100 0x20000 sys_boot) = 0"
  using sbrk_cs3_limit [of "0x10000" sys_boot "0x20000" "uart_env 0xff012000 (\<lambda>_. 0) (\<lambda>_. 0)" "0x900" "0x30000" "0x100",
      OF _ prod.collapse [symmetric]]
  by (simp add: heap_top_def)

end
