(* ===== verification/Syscalls_Cs3.thy ===== *)
theory Syscalls_Cs3
  imports Syscalls
begin

text \<open>
  The stubs of \<^verbatim>\<open>drivers/syscalls_cs3.c\<close> that \<^verbatim>\<open>drivers/syscalls.c\<close> defines as well, translated from their own
  source and proved equal to the definitions of \<open>Syscalls\<close>; the stubs that only the CS3 file has, and its \<open>_sbrk\<close>,
  are in \<open>Syscalls\<close>.
\<close>


section \<open>The code\<close>

text \<open>The loops count \<open>n\<close> up to \<open>len\<close>.\<close>

function cs3_write_loop :: "'a sys_st_scheme serial_device \<Rightarrow> u32 \<Rightarrow> int \<Rightarrow> int \<Rightarrow> 'a sys_st_scheme \<Rightarrow> 'a sys_st_scheme" where
  "cs3_write_loop drv ptr n len s =
     (if n < len then cs3_write_loop drv (ptr + 1) (n + 1) len (sd_putc drv (mem s ptr) s) else s)"
  by pat_completeness auto

termination by (relation "measure (\<lambda>(drv, ptr, n, len, s). nat (len - n))") auto

definition cs3_write :: "env \<Rightarrow> u32 \<Rightarrow> int \<Rightarrow> u32 \<Rightarrow> int \<Rightarrow> 'a sys_st_scheme \<Rightarrow> int \<times> 'a sys_st_scheme" where
  "cs3_write env buf file ptr len s =
     (let drv = default_serial_console env buf
      in if file = STDOUT_FILENO then (len, cs3_write_loop drv ptr 0 len s)
         else if file = STDERR_FILENO then (len, cs3_write_loop drv ptr 0 len s)
         else (- 1, s\<lparr>errno := E_BADF\<rparr>))"

function cs3_read_loop ::
  "'a sys_st_scheme serial_device \<Rightarrow> u32 \<Rightarrow> int \<Rightarrow> int \<Rightarrow> int \<Rightarrow> 'a sys_st_scheme \<Rightarrow> int \<times> 'a sys_st_scheme" where
  "cs3_read_loop drv ptr n len1 num s =
     (if n < len1
      then let (c, s) = sd_getc drv s
           in cs3_read_loop drv (ptr + 1) (n + 1) len1 (num + 1) (s\<lparr>mem := (mem s)(ptr := word_of_int c)\<rparr>)
      else (num, s))"
  by pat_completeness auto

termination by (relation "measure (\<lambda>(drv, ptr, n, len1, num, s). nat (len1 - n))") auto

text \<open>The loop \<open>while (len1 <= 0) len1 = drv->tstc();\<close>.\<close>

partial_function (option) cs3_read_wait ::
  "'a sys_st_scheme serial_device \<Rightarrow> int \<Rightarrow> 'a sys_st_scheme \<Rightarrow> (int \<times> 'a sys_st_scheme) option" where
  "cs3_read_wait drv len1 s =
     (if len1 \<le> 0 then let (len1, s) = sd_tstc drv s in cs3_read_wait drv len1 s else Some (len1, s))"

text \<open>Behind the wait loop follow the test of \<open>len1\<close>, the clamping, and the two cases of the switch.\<close>

definition cs3_read ::
  "env \<Rightarrow> u32 \<Rightarrow> int \<Rightarrow> u32 \<Rightarrow> int \<Rightarrow> 'a sys_st_scheme \<Rightarrow> (int \<times> 'a sys_st_scheme) option" where
  "cs3_read env buf file ptr len s =
     (let num = - 1;
          drv = default_serial_console env buf;
          (len1, s) = sd_tstc drv s
      in Option.bind (cs3_read_wait drv len1 s) (\<lambda>(len1, s).
           if len1 \<noteq> 0
           then let len1 = (if len1 > len then len else len1); num = 0
                in if file = STDIN_FILENO then Some (cs3_read_loop drv ptr 0 len1 num s)
                   else Some (- 1, s\<lparr>errno := E_BADF\<rparr>)
           else Some (num, s)))"

text \<open>\<open>_exit\<close> prints the word exit and then spins; this is the state in which it spins.\<close>

definition cs3_exit :: "env \<Rightarrow> u32 \<Rightarrow> u32 \<Rightarrow> int \<Rightarrow> 'a sys_st_scheme \<Rightarrow> 'a sys_st_scheme" where
  "cs3_exit env buf lit status s = (let (n, s) = cs3_write env buf 1 lit 4 s in s)"

definition cs3_close :: "int \<Rightarrow> 'a sys_st_scheme \<Rightarrow> int \<times> 'a sys_st_scheme" where
  "cs3_close file s = (- 1, s)"

definition cs3_execve :: "u32 \<Rightarrow> u32 \<Rightarrow> u32 \<Rightarrow> 'a sys_st_scheme \<Rightarrow> int \<times> 'a sys_st_scheme" where
  "cs3_execve name argv envp s = (- 1, s\<lparr>errno := E_NOMEM\<rparr>)"

definition cs3_fork :: "'a sys_st_scheme \<Rightarrow> int \<times> 'a sys_st_scheme" where
  "cs3_fork s = (- 1, s\<lparr>errno := E_AGAIN\<rparr>)"

definition cs3_fstat :: "int \<Rightarrow> stat \<Rightarrow> int \<times> stat" where
  "cs3_fstat file st = (0, st\<lparr>st_mode := S_IFCHR\<rparr>)"

definition cs3_getpid :: "'a sys_st_scheme \<Rightarrow> int \<times> 'a sys_st_scheme" where
  "cs3_getpid s = (1, s)"

definition cs3_isatty :: "int \<Rightarrow> 'a sys_st_scheme \<Rightarrow> int \<times> 'a sys_st_scheme" where
  "cs3_isatty file s =
     (if file \<in> {STDOUT_FILENO, STDERR_FILENO, STDIN_FILENO} then (1, s) else (0, s\<lparr>errno := E_BADF\<rparr>))"

definition cs3_kill :: "int \<Rightarrow> int \<Rightarrow> 'a sys_st_scheme \<Rightarrow> int \<times> 'a sys_st_scheme" where
  "cs3_kill pid sig s = (- 1, s\<lparr>errno := E_INVAL\<rparr>)"

definition cs3_link :: "u32 \<Rightarrow> u32 \<Rightarrow> 'a sys_st_scheme \<Rightarrow> int \<times> 'a sys_st_scheme" where
  "cs3_link old new s = (- 1, s\<lparr>errno := E_MLINK\<rparr>)"

definition cs3_lseek :: "int \<Rightarrow> int \<Rightarrow> int \<Rightarrow> 'a sys_st_scheme \<Rightarrow> int \<times> 'a sys_st_scheme" where
  "cs3_lseek file ptr dir s = (0, s)"

definition cs3_stat :: "u32 \<Rightarrow> stat \<Rightarrow> int \<times> stat" where
  "cs3_stat filepath st = (0, st\<lparr>st_mode := S_IFCHR\<rparr>)"

definition cs3_unlink :: "u32 \<Rightarrow> 'a sys_st_scheme \<Rightarrow> int \<times> 'a sys_st_scheme" where
  "cs3_unlink name s = (- 1, s\<lparr>errno := E_NOENT\<rparr>)"

definition cs3_wait :: "u32 \<Rightarrow> 'a sys_st_scheme \<Rightarrow> int \<times> 'a sys_st_scheme" where
  "cs3_wait status s = (- 1, s\<lparr>errno := E_CHILD\<rparr>)"

section \<open>The loops of the two files\<close>

declare cs3_write_loop.simps [simp del] cs3_read_loop.simps [simp del]

lemma cs3_write_loop_eq: "cs3_write_loop drv ptr n len s = sys_write_loop drv ptr (nat (len - n)) s"
proof (induction "nat (len - n)" arbitrary: n ptr s)
  case 0
  then show ?case by (subst cs3_write_loop.simps) simp
next
  case (Suc k)
  then have "nat (len - n) = Suc (nat (len - (n + 1)))" "k = nat (len - (n + 1))" "n < len" by linarith+
  then show ?case using Suc.hyps(1) [of "n + 1"] by (subst cs3_write_loop.simps) simp
qed

lemma cs3_read_loop_eq: "cs3_read_loop drv ptr n len1 num s = sys_read_loop drv ptr (nat (len1 - n)) num s"
proof (induction "nat (len1 - n)" arbitrary: n ptr num s)
  case 0
  then show ?case by (subst cs3_read_loop.simps) simp
next
  case (Suc k)
  then have "nat (len1 - n) = Suc (nat (len1 - (n + 1)))" "k = nat (len1 - (n + 1))" "n < len1" by linarith+
  then show ?case using Suc.hyps(1) [of "n + 1"] by (subst cs3_read_loop.simps) (simp add: split_beta)
qed

lemma cs3_read_wait_ends: "cs3_read_wait drv len1 s = Some r \<Longrightarrow> sys_read_wait drv len1 s = Some r"
proof (rule cs3_read_wait.raw_induct [where P = "\<lambda>drv len1 s r. sys_read_wait drv len1 s = Some r"])
  fix w drv len1 s r
  assume "\<And>drv len1 s r. w drv len1 s = Some r \<Longrightarrow> sys_read_wait drv len1 s = Some r"
    and "(if len1 \<le> 0 then let (len1, s) = sd_tstc drv s in w drv len1 s else Some (len1, s)) = Some r"
  then show "sys_read_wait drv len1 s = Some r" by (subst sys_read_wait.simps) (auto simp: split_beta split: if_splits)
qed

lemma sys_read_wait_ends: "sys_read_wait drv len1 s = Some r \<Longrightarrow> cs3_read_wait drv len1 s = Some r"
proof (rule sys_read_wait.raw_induct [where P = "\<lambda>drv len1 s r. cs3_read_wait drv len1 s = Some r"])
  fix w drv len1 s r
  assume "\<And>drv len1 s r. w drv len1 s = Some r \<Longrightarrow> cs3_read_wait drv len1 s = Some r"
    and "(if len1 \<le> 0 then w drv (fst (sd_tstc drv s)) (snd (sd_tstc drv s)) else Some (len1, s)) = Some r"
  then show "cs3_read_wait drv len1 s = Some r" by (subst cs3_read_wait.simps) (auto simp: split_beta split: if_splits)
qed

lemma cs3_read_wait_eq: "cs3_read_wait drv len1 s = sys_read_wait drv len1 s"
  using cs3_read_wait_ends sys_read_wait_ends by (metis not_None_eq)

lemma cs3_write_eq: "cs3_write env buf file ptr len s = sys_write env buf file ptr len s"
  by (simp add: cs3_write_def sys_write_def cs3_write_loop_eq Let_def)

text \<open>The stubs of \<^verbatim>\<open>syscalls_cs3.c\<close> and of \<^verbatim>\<open>syscalls.c\<close> are interchangeable: with the same arguments in the same state, each call that
  both files define, other than \<open>_sbrk\<close>, returns the same value and leaves the same state, or never returns in both. The
  two versions of \<open>_sbrk\<close> agree while the request leaves 64 KiB below the end of the heap and the heap starts at the same address.\<close>

lemma stubs_agree:
  fixes s :: "'a sys_st_scheme"
  shows "cs3_write env buf file ptr len s = sys_write env buf file ptr len s \<and>
    cs3_read env buf file ptr len s = sys_read env buf file ptr len s \<and>
    cs3_exit env buf lit status s = sys_exit env buf lit status s \<and>
    cs3_isatty file s = sys_isatty file s \<and> cs3_fstat file st = sys_fstat file st \<and> cs3_stat ptr st = sys_stat ptr st \<and>
    cs3_close file s = (sys_close, s) \<and> cs3_getpid s = (sys_getpid, s) \<and> cs3_lseek file ofs dir s = (sys_lseek, s) \<and>
    cs3_execve name argv envp s = sys_execve s \<and> cs3_fork s = sys_fork s \<and> cs3_kill pid sig s = sys_kill s \<and>
    cs3_link old new s = sys_link s \<and> cs3_unlink name s = sys_unlink s \<and> cs3_wait ptr s = sys_wait s \<and>
    (unat (heap_top start s) + 65536 + unat incr \<le> unat lim \<longrightarrow>
       sys_sbrk_cs3 env buf start lim msg incr s = sys_sbrk start incr s)"
proof (intro conjI impI)
  show "cs3_write env buf file ptr len s = sys_write env buf file ptr len s" by (rule cs3_write_eq)
  show "cs3_read env buf file ptr len s = sys_read env buf file ptr len s"
    by (simp add: cs3_read_def sys_read_def cs3_read_wait_eq cs3_read_loop_eq Let_def split_beta split: option.split)
  assume "unat (heap_top start s) + 65536 + unat incr \<le> unat lim"
  moreover from this have "unat (heap_top start s) + 65536 + unat incr < 4294967296" using unat_lt_u32 [of lim] by simp
  ultimately show "sys_sbrk_cs3 env buf start lim msg incr s = sys_sbrk start incr s"
    by (simp add: sbrk_cs3_cases sys_sbrk_def heap_top_def Let_def)
qed (simp_all add: cs3_exit_def sys_exit_def cs3_write_eq split_beta cs3_isatty_def sys_isatty_def cs3_fstat_def sys_fstat_def
    cs3_stat_def sys_stat_def cs3_close_def sys_close_def cs3_getpid_def sys_getpid_def cs3_lseek_def sys_lseek_def
    cs3_execve_def sys_execve_def cs3_fork_def sys_fork_def cs3_kill_def sys_kill_def cs3_link_def sys_link_def
    cs3_unlink_def sys_unlink_def cs3_wait_def sys_wait_def sys_fail_def)

lemma stubs_agree_example:
  "sys_sbrk_cs3 (uart_env 0xff012000 (\<lambda>_. 0) (\<lambda>_. 0)) 0x200 0x10000 0x80000 0x300 64 sys_boot = sys_sbrk 0x10000 64 sys_boot"
  using stubs_agree [where env = "uart_env 0xff012000 (\<lambda>_. 0) (\<lambda>_. 0)" and buf = "0x200" and start = "0x10000" and lim = "0x80000"
      and msg = "0x300" and incr = 64 and s = sys_boot]
  by (simp add: heap_top_def)

end
