(* ===== verification/Timer_Race.thy ===== *)
theory Timer_Race
  imports Timer
begin

text \<open>
  The interrupt handlers of c07e3 and c08e1 call \<open>get_ticks\<close>, and the main program of c07e3 spends its time in \<open>__udelay\<close>; both end in \<open>get_timer_masked\<close> of
  \<^verbatim>\<open>drivers/timer.c\<close>, which reads and writes \<open>timestamp\<close> and \<open>lastdec\<close> with interrupts enabled. Here \<open>get_timer_masked\<close> is cut into steps with
  one access to the device or to one of the two variables each, in the order of the source (C leaves the order of the two reads
  in \<open>timestamp += now - lastdec\<close> open; here \<open>lastdec\<close> is read first), and a handler runs between two of them. The device is the one that \<^verbatim>\<open>include/timer.h\<close>
  describes: a read of the low register latches the high one.
\<close>

section \<open>Reading the time stamp in steps\<close>

datatype tpoint = T_low | T_high | T_test | T_diff | T_roll | T_load | T_store | T_last | T_ret | T_done

record read_st = timer_st +
  r_lo :: u32
  r_now :: u32
  r_diff :: u32
  r_ts :: u32
  r_result :: u32
  tpt :: tpoint

definition timer_micro :: "env \<Rightarrow> read_st \<Rightarrow> read_st" where
  "timer_micro env s =
     (case tpt s of
        T_low \<Rightarrow> (let (lo, s) = readl env (IO_ADDRESS GOLDFISH_TIMER_BASE + TIMER_TIME_LOW) s in s\<lparr>r_lo := lo, tpt := T_high\<rparr>)
      | T_high \<Rightarrow> (let (hi, s) = readl env (IO_ADDRESS GOLDFISH_TIMER_BASE + TIMER_TIME_HIGH) s
                  in s\<lparr>r_now := push_bit 12 hi + drop_bit 20 (r_lo s), tpt := T_test\<rparr>)
      | T_test \<Rightarrow> s\<lparr>tpt := if lastdec s \<le> r_now s then T_diff else T_roll\<rparr>
      | T_diff \<Rightarrow> s\<lparr>r_diff := r_now s - lastdec s, tpt := T_load\<rparr>
      | T_roll \<Rightarrow> s\<lparr>r_diff := r_now s + TIMER_LOAD_VAL - lastdec s, tpt := T_load\<rparr>
      | T_load \<Rightarrow> s\<lparr>r_ts := timestamp s, tpt := T_store\<rparr>
      | T_store \<Rightarrow> s\<lparr>timestamp := r_ts s + r_diff s, tpt := T_last\<rparr>
      | T_last \<Rightarrow> s\<lparr>lastdec := r_now s, tpt := T_ret\<rparr>
      | T_ret \<Rightarrow> s\<lparr>r_result := timestamp s, tpt := T_done\<rparr>
      | T_done \<Rightarrow> s)"

fun timer_steps :: "nat \<Rightarrow> env \<Rightarrow> read_st \<Rightarrow> read_st" where
  "timer_steps 0 env s = s"
| "timer_steps (Suc n) env s = timer_steps n env (timer_micro env s)"

text \<open>What eight steps do, one after the other.\<close>

lemma timer_micro_simps:
  "tpt s = T_low \<Longrightarrow> timer_micro env s = s\<lparr>trace := trace s @ [Rd 0xff003000 (env_read env (trace s) 0xff003000)],
     r_lo := env_read env (trace s) 0xff003000, tpt := T_high\<rparr>"
  "tpt s = T_high \<Longrightarrow> timer_micro env s = s\<lparr>trace := trace s @ [Rd 0xff003004 (env_read env (trace s) 0xff003004)],
     r_now := push_bit 12 (env_read env (trace s) 0xff003004) + drop_bit 20 (r_lo s), tpt := T_test\<rparr>"
  "tpt s = T_test \<Longrightarrow> timer_micro env s = s\<lparr>tpt := if lastdec s \<le> r_now s then T_diff else T_roll\<rparr>"
  "tpt s = T_diff \<Longrightarrow> timer_micro env s = s\<lparr>r_diff := r_now s - lastdec s, tpt := T_load\<rparr>"
  "tpt s = T_roll \<Longrightarrow> timer_micro env s = s\<lparr>r_diff := r_now s + TIMER_LOAD_VAL - lastdec s, tpt := T_load\<rparr>"
  "tpt s = T_load \<Longrightarrow> timer_micro env s = s\<lparr>r_ts := timestamp s, tpt := T_store\<rparr>"
  "tpt s = T_store \<Longrightarrow> timer_micro env s = s\<lparr>timestamp := r_ts s + r_diff s, tpt := T_last\<rparr>"
  "tpt s = T_last \<Longrightarrow> timer_micro env s = s\<lparr>lastdec := r_now s, tpt := T_ret\<rparr>"
  "tpt s = T_ret \<Longrightarrow> timer_micro env s = s\<lparr>r_result := timestamp s, tpt := T_done\<rparr>"
  "tpt s = T_done \<Longrightarrow> timer_micro env s = s"
  by (simp_all add: timer_micro_def readl_def Let_def)

lemma timer_steps_add: "timer_steps (m + n) env s = timer_steps n env (timer_steps m env s)"
  by (induction m arbitrary: s) simp_all

lemma timer_steps_done [simp]: "tpt s = T_done \<Longrightarrow> timer_steps n env s = s"
  by (induction n) (simp_all add: timer_micro_simps)

text \<open>From the test on, the device is not read any more.\<close>

lemma timer_steps_test:
  assumes "tpt s = T_test"
  shows "timer_steps 6 env s = s\<lparr>r_diff := r_now s + (if lastdec s \<le> r_now s then 0 else TIMER_LOAD_VAL) - lastdec s, r_ts := timestamp s,
    timestamp := timestamp s + (r_now s + (if lastdec s \<le> r_now s then 0 else TIMER_LOAD_VAL) - lastdec s), lastdec := r_now s,
    r_result := timestamp s + (r_now s + (if lastdec s \<le> r_now s then 0 else TIMER_LOAD_VAL) - lastdec s), tpt := T_done\<rparr>"
  using assms by (cases "lastdec s \<le> r_now s") (simp_all add: eval_nat_numeral timer_micro_simps)

section \<open>The device between two reads\<close>

definition low_read :: "io \<Rightarrow> bool" where
  "low_read e \<longleftrightarrow> (\<exists>v. e = Rd (IO_ADDRESS GOLDFISH_TIMER_BASE + TIMER_TIME_LOW) v)"

text \<open>The number of accesses before the last read of the low register.\<close>

definition latched :: "io list \<Rightarrow> nat" where
  "latched h = length (dropWhile (\<lambda>e. \<not> low_read e) (rev h)) - 1"

definition latching_timer :: "env \<Rightarrow> (nat \<Rightarrow> nat) \<Rightarrow> bool" where
  "latching_timer env ns \<longleftrightarrow>
     (\<forall>h. env_read env h (IO_ADDRESS GOLDFISH_TIMER_BASE + TIMER_TIME_LOW) = of_nat (ns (length h))) \<and>
     (\<forall>h. (\<exists>e \<in> set h. low_read e) \<longrightarrow>
        env_read env h (IO_ADDRESS GOLDFISH_TIMER_BASE + TIMER_TIME_HIGH) = of_nat (ns (latched h) div 2 ^ 32))"

lemma latched_low [simp]: "latched (h @ [Rd 0xff003000 v]) = length h"
  by (simp add: latched_def low_read_def)

lemma latched_other: "\<not> low_read e \<Longrightarrow> latched (h @ [e]) = latched h"
  by (simp add: latched_def)

lemma latching_timer_goldfish: "latching_timer env ns \<Longrightarrow> goldfish_timer env ns"
  unfolding latching_timer_def goldfish_timer_def by (auto simp: low_read_def)

lemma latched_ticks:
  assumes h: "h' = h @ [Rd 0xff003000 v, Rd 0xff003004 w] @ u" and u: "\<forall>e \<in> set u. \<not> low_read e"
  shows "latched h' = length h"
proof -
  have "dropWhile (\<lambda>e. \<not> low_read e) (rev u @ [Rd 0xff003004 w] @ [Rd 0xff003000 v] @ rev h) = [Rd 0xff003000 v] @ rev h"
    using u by (subst dropWhile_append2) (auto simp: low_read_def)
  then show ?thesis by (simp add: latched_def h)
qed

lemma ticks_high: "ticks ns i div 4096 = ns i div 2 ^ 32"
  by (simp add: ticks_def div_mult2_eq [symmetric])

lemma now_of_halves:
  "push_bit 12 (of_nat (ns j div 2 ^ 32)) + drop_bit 20 (of_nat (ns i)) = (of_nat (4096 * (ticks ns j div 4096) + ticks ns i mod 4096) :: u32)"
proof -
  have "ns i mod 4294967296 div 1048576 = ticks ns i mod 4096"
    using mod_mult2_eq [of "ns i" 1048576 4096] by (simp add: ticks_def)
  then have "drop_bit 20 (of_nat (ns i)) = (of_nat (ticks ns i mod 4096) :: u32)"
    by (simp add: drop_bit_of_nat_u32 del: drop_bit_eq_div)
  moreover have "push_bit 12 (of_nat (ns j div 2 ^ 32)) = (of_nat (4096 * (ticks ns j div 4096)) :: u32)"
    by (simp add: ticks_high push_bit_eq_mult)
  ultimately show ?thesis by simp
qed

text \<open>What one reading of the time stamp by an interrupt handler does to the two variables, when the tick counter has not passed \<open>2 ^ 32\<close>.\<close>

definition stamp_at :: "u32 \<Rightarrow> io list \<Rightarrow> 'a timer_st_scheme \<Rightarrow> 'a timer_st_scheme" where
  "stamp_at n h s = s\<lparr>trace := h, timestamp := timestamp s + (n - lastdec s), lastdec := n\<rparr>"

lemma get_ticks_stamp:
  assumes dev: "goldfish_timer env ns" and n: "n = of_nat (ticks ns (length (trace s)))" and l: "lastdec s \<le> n"
  shows "\<exists>v w. snd (get_ticks env s) = stamp_at n (trace s @ [Rd 0xff003000 v, Rd 0xff003004 w]) s"
proof -
  have now: "fst (get_millisecond env s) = n" using get_millisecond_simps(1) [OF dev, of s] by (simp add: n)
  obtain v w where "snd (get_millisecond env s) = s\<lparr>trace := trace s @ [Rd 0xff003000 v, Rd 0xff003004 w]\<rparr>"
    by (simp add: get_millisecond_def readl_def Let_def)
  then show ?thesis using now l
    by (intro exI [of _ v] exI [of _ w]) (simp add: get_ticks_def get_timer_def get_timer_masked_def split_beta Let_def stamp_at_def)
qed

lemma stamp_at_simps [simp]:
  "timestamp (stamp_at n h s) = timestamp s + (n - lastdec s)" "lastdec (stamp_at n h s) = n" "trace (stamp_at n h s) = h"
  "tpt (stamp_at n h r) = tpt r" "r_lo (stamp_at n h r) = r_lo r" "r_now (stamp_at n h r) = r_now r" "r_diff (stamp_at n h r) = r_diff r"
  "r_ts (stamp_at n h r) = r_ts r"
  by (simp_all add: stamp_at_def)

text \<open>The distance of the two variables: it stays the same when no time is lost and none counted twice.\<close>

definition stamp_offset :: "'a timer_st_scheme \<Rightarrow> u32" where
  "stamp_offset s = timestamp s - lastdec s"

lemma race_from_test:
  assumes t: "tpt s = T_test" and s': "s' = timer_steps (6 + i) env s"
  shows "tpt s' = T_done" "lastdec s' = r_now s"
    "stamp_offset s' = stamp_offset s - (if r_now s < lastdec s then 1 else 0)" "r_result s' = timestamp s'"
  unfolding s' timer_steps_add by (auto simp: timer_steps_test [OF t] stamp_offset_def TIMER_LOAD_VAL_def not_less)

text \<open>The rest of the function from each of its points.\<close>

lemma steps_from_ret: "tpt u = T_ret \<Longrightarrow> timer_steps (Suc n) env u = u\<lparr>r_result := timestamp u, tpt := T_done\<rparr>"
  by (simp add: timer_micro_simps)

lemma steps_from_last:
  "tpt u = T_last \<Longrightarrow> timer_steps (Suc (Suc n)) env u = u\<lparr>lastdec := r_now u, r_result := timestamp u, tpt := T_done\<rparr>"
  by (simp add: timer_micro_simps)

lemma steps_from_store:
  "tpt u = T_store \<Longrightarrow> timer_steps (Suc (Suc (Suc n))) env u =
     u\<lparr>timestamp := r_ts u + r_diff u, lastdec := r_now u, r_result := r_ts u + r_diff u, tpt := T_done\<rparr>"
  by (subst timer_steps.simps) (simp add: timer_micro_simps steps_from_last del: timer_steps.simps)

lemma steps_from_load:
  "tpt u = T_load \<Longrightarrow> timer_steps (Suc (Suc (Suc (Suc n)))) env u =
     u\<lparr>r_ts := timestamp u, timestamp := timestamp u + r_diff u, lastdec := r_now u, r_result := timestamp u + r_diff u, tpt := T_done\<rparr>"
  by (subst timer_steps.simps) (simp add: timer_micro_simps steps_from_store del: timer_steps.simps)

lemma steps_from_diff:
  "tpt u = T_diff \<Longrightarrow> timer_steps (Suc (Suc (Suc (Suc (Suc n))))) env u =
     u\<lparr>r_diff := r_now u - lastdec u, r_ts := timestamp u, timestamp := timestamp u + (r_now u - lastdec u), lastdec := r_now u,
       r_result := timestamp u + (r_now u - lastdec u), tpt := T_done\<rparr>"
  by (subst timer_steps.simps) (simp add: timer_micro_simps steps_from_load del: timer_steps.simps)

lemma eight: "8 = Suc (Suc (Suc (Suc (Suc (Suc (Suc (Suc 0)))))))"
  by simp

lemmas steps_from = steps_from_diff steps_from_load steps_from_store steps_from_last steps_from_ret

lemma race_after_test:
  assumes t: "tpt s = T_test" and le: "lastdec s \<le> r_now s" and j: "j \<le> 6" and s': "s' = timer_steps 8 env (stamp_at n h (timer_steps j env s))"
  shows "tpt s' = T_done \<and> lastdec s' = (if 5 \<le> j then n else r_now s) \<and>
    stamp_offset s' = stamp_offset s + (if j = 2 \<or> j = 4 then n - lastdec s else if j = 0 \<and> r_now s < n then - 1 else 0) \<and>
    (j < 6 \<longrightarrow> r_result s' = timestamp s')"
proof -
  note e = timer_micro_simps t le
  consider "j = 0" | "j = 1" | "j = 2" | "j = 3" | "j = 4" | "j = 5" | "j = 6" using j by linarith
  then show ?thesis
  proof cases
    case 1
    then have s'': "s' = timer_steps 8 env (stamp_at n h s)" by (simp add: s')
    show ?thesis unfolding s'' using race_from_test [OF _ refl, of "stamp_at n h s" 2 env] t 1 by (auto simp: stamp_offset_def)
  next
    case 2
    have "timer_steps (Suc 0) env s = s\<lparr>tpt := T_diff\<rparr>" by (simp add: e)
    then show ?thesis unfolding s' 2 eight One_nat_def by (simp add: steps_from stamp_offset_def del: timer_steps.simps)
  next
    case 3
    have "timer_steps (Suc (Suc 0)) env s = s\<lparr>r_diff := r_now s - lastdec s, tpt := T_load\<rparr>" by (simp add: e)
    then show ?thesis unfolding s' 3 eight numeral_2_eq_2 by (simp add: steps_from stamp_offset_def del: timer_steps.simps)
  next
    case 4
    have "timer_steps (Suc (Suc (Suc 0))) env s = s\<lparr>r_diff := r_now s - lastdec s, r_ts := timestamp s, tpt := T_store\<rparr>" by (simp add: e)
    then show ?thesis unfolding s' 4 eight numeral_3_eq_3 by (simp add: steps_from stamp_offset_def del: timer_steps.simps)
  next
    case 5
    have "timer_steps (Suc (Suc (Suc (Suc 0)))) env s = s\<lparr>r_diff := r_now s - lastdec s, r_ts := timestamp s,
        timestamp := timestamp s + (r_now s - lastdec s), tpt := T_last\<rparr>" by (simp add: e)
    moreover have "j = Suc (Suc (Suc (Suc 0)))" using 5 by simp
    ultimately show ?thesis unfolding s' eight by (simp add: steps_from stamp_offset_def del: timer_steps.simps)
  next
    case 6
    have "timer_steps (Suc (Suc (Suc (Suc (Suc 0))))) env s = s\<lparr>r_diff := r_now s - lastdec s, r_ts := timestamp s,
        timestamp := timestamp s + (r_now s - lastdec s), lastdec := r_now s, tpt := T_ret\<rparr>" by (simp add: e)
    moreover have "j = Suc (Suc (Suc (Suc (Suc 0))))" using 6 by simp
    ultimately show ?thesis unfolding s' eight by (simp add: steps_from stamp_offset_def del: timer_steps.simps)
  next
    case 7
    have "timer_steps (Suc (Suc (Suc (Suc (Suc (Suc 0)))))) env s = s\<lparr>r_diff := r_now s - lastdec s, r_ts := timestamp s,
        timestamp := timestamp s + (r_now s - lastdec s), lastdec := r_now s, r_result := timestamp s + (r_now s - lastdec s), tpt := T_done\<rparr>" by (simp add: e)
    moreover have "j = Suc (Suc (Suc (Suc (Suc (Suc 0)))))" using 7 by simp
    ultimately show ?thesis unfolding s' by (simp add: stamp_offset_def del: timer_steps.simps)
  qed
qed

section \<open>A handler between two steps\<close>

text \<open>What an interrupt handler that calls \<open>get_ticks\<close> once does to the trace and to the two variables: it makes the accesses and prints \<open>t\<close>, calls
  \<open>get_ticks\<close>, and makes the accesses and prints \<open>t'\<close>.\<close>

definition handler_ticks :: "env \<Rightarrow> io list \<Rightarrow> io list \<Rightarrow> 'a timer_st_scheme \<Rightarrow> 'a timer_st_scheme" where
  "handler_ticks env t t' s = (let (tm, s) = get_ticks env (s\<lparr>trace := trace s @ t\<rparr>) in s\<lparr>trace := trace s @ t'\<rparr>)"

lemma handler_ticks_stamp:
  assumes dev: "goldfish_timer env ns" and n: "n = of_nat (ticks ns (length (trace s) + length t))" and l: "lastdec s \<le> n"
  shows "\<exists>v w. handler_ticks env t t' s = stamp_at n ((trace s @ t) @ [Rd 0xff003000 v, Rd 0xff003004 w] @ t') s"
proof -
  let ?s = "s\<lparr>trace := trace s @ t\<rparr>"
  obtain v w where "snd (get_ticks env ?s) = stamp_at n (trace ?s @ [Rd 0xff003000 v, Rd 0xff003004 w]) ?s"
    using get_ticks_stamp [OF dev, of n ?s] n l by auto
  then show ?thesis by (intro exI [of _ v] exI [of _ w]) (simp add: handler_ticks_def split_beta stamp_at_def)
qed

lemma timer_steps_read:
  assumes dev: "goldfish_timer env ns" and t: "tpt s = T_low"
  shows "\<exists>v w. timer_steps 2 env s = s\<lparr>trace := trace s @ [Rd 0xff003000 v, Rd 0xff003004 w], r_lo := v,
    r_now := of_nat (ticks ns (length (trace s))), tpt := T_test\<rparr>"
proof -
  define lo where "lo = env_read env (trace s) 0xff003000"
  define hi where "hi = env_read env (trace s @ [Rd 0xff003000 lo]) 0xff003004"
  have "push_bit 12 hi + drop_bit 20 lo = of_nat (4096 * (ticks ns (length (trace s)) div 4096) + ticks ns (length (trace s)) mod 4096)"
    using dev unfolding goldfish_timer_def lo_def hi_def by (simp only: now_of_halves [symmetric]) simp
  then have now: "push_bit 12 hi + drop_bit 20 lo = of_nat (ticks ns (length (trace s)))" by (simp only: mult_div_mod_eq)
  have "timer_steps (Suc (Suc 0)) env s = s\<lparr>trace := trace s @ [Rd 0xff003000 lo, Rd 0xff003004 hi], r_lo := lo,
    r_now := push_bit 12 hi + drop_bit 20 lo, tpt := T_test\<rparr>"
    using t by (simp add: timer_micro_simps lo_def hi_def)
  then show ?thesis unfolding now numeral_2_eq_2 by blast
qed

lemma stamp_offset_at [simp]: "stamp_offset (stamp_at n h s) = stamp_offset s"
  by (simp add: stamp_offset_def)

text \<open>Before the first read, the function finds the two variables as the handler has left them.\<close>

lemma race_before:
  assumes dev: "goldfish_timer env ns" and t: "tpt s = T_low" and n: "n \<le> of_nat (ticks ns (length h))"
  shows "tpt (timer_steps 8 env (stamp_at n h s)) = T_done \<and>
    lastdec (timer_steps 8 env (stamp_at n h s)) = of_nat (ticks ns (length h)) \<and>
    stamp_offset (timer_steps 8 env (stamp_at n h s)) = stamp_offset s"
proof -
  obtain v w where u: "timer_steps 2 env (stamp_at n h s) = (stamp_at n h s)\<lparr>trace := h @ [Rd 0xff003000 v, Rd 0xff003004 w], r_lo := v,
    r_now := of_nat (ticks ns (length h)), tpt := T_test\<rparr>"
    using timer_steps_read [OF dev, of "stamp_at n h s"] t by auto
  have "timer_steps 8 env (stamp_at n h s) = timer_steps (6 + 0) env (timer_steps 2 env (stamp_at n h s))"
    using timer_steps_add [of 2 6 env "stamp_at n h s"] by simp
  then show ?thesis using race_from_test [of "timer_steps 2 env (stamp_at n h s)" _ 0 env, OF _ refl] n by (auto simp: u stamp_offset_def not_less)
qed

text \<open>Between the two reads, the high half belongs to the handler's reading.\<close>

lemma race_between:
  assumes dev: "latching_timer env ns" and t: "tpt s = T_low" and h: "h = (h0 @ [Rd 0xff003000 v, Rd 0xff003004 w]) @ t'" "\<forall>e \<in> set t'. \<not> low_read e"
    and r: "r = 4096 * (ticks ns (length h0) div 4096) + ticks ns (length (trace s)) mod 4096" and s': "s' = timer_steps 8 env (stamp_at n h (timer_micro env s))"
  shows "tpt s' = T_done \<and> lastdec s' = of_nat r \<and> stamp_offset s' = stamp_offset s - (if of_nat r < n then 1 else 0)"
proof -
  let ?u = "stamp_at n h (timer_micro env s)"
  have u: "timer_micro env s = s\<lparr>trace := trace s @ [Rd 0xff003000 (of_nat (ns (length (trace s))))], r_lo := of_nat (ns (length (trace s))), tpt := T_high\<rparr>"
    using t dev by (simp add: timer_micro_simps latching_timer_def)
  have "latched h = length h0" by (rule latched_ticks [where v = v and w = w and u = t']) (use h in simp_all)
  moreover have "\<exists>e \<in> set h. low_read e" by (simp add: h low_read_def)
  ultimately have "env_read env h 0xff003004 = of_nat (ns (length h0) div 2 ^ 32)" using dev by (simp add: latching_timer_def)
  then have r': "push_bit 12 (env_read env h 0xff003004) + drop_bit 20 (r_lo ?u) = of_nat r"
    by (simp only: r now_of_halves [symmetric]) (simp add: u)
  have "timer_micro env ?u = ?u\<lparr>trace := h @ [Rd 0xff003004 (env_read env h 0xff003004)], r_now := of_nat r, tpt := T_test\<rparr>"
    using r' by (simp add: timer_micro_simps u)
  then have "tpt (timer_micro env ?u) = T_test" "r_now (timer_micro env ?u) = of_nat r" "lastdec (timer_micro env ?u) = n"
    "stamp_offset (timer_micro env ?u) = stamp_offset s"
    by (simp_all add: stamp_offset_def u)
  moreover have "s' = timer_steps (6 + 1) env (timer_micro env ?u)" by (simp add: s' eval_nat_numeral)
  ultimately show ?thesis using race_from_test by metis
qed

lemma steps_quiet:
  "tpt s \<noteq> T_low \<Longrightarrow> tpt s \<noteq> T_high \<Longrightarrow> trace (timer_steps j env s) = trace s \<and> r_now (timer_steps j env s) = r_now s \<and>
     (lastdec (timer_steps j env s) = lastdec s \<or> lastdec (timer_steps j env s) = r_now s)"
proof (induction j arbitrary: s)
  case (Suc j)
  have "tpt (timer_micro env s) \<noteq> T_low" "tpt (timer_micro env s) \<noteq> T_high" "trace (timer_micro env s) = trace s"
    "r_now (timer_micro env s) = r_now s" "lastdec (timer_micro env s) = lastdec s \<or> lastdec (timer_micro env s) = r_now s"
    using Suc.prems by (cases "tpt s"; simp add: timer_micro_simps)+
  then show ?case using Suc.IH [of "timer_micro env s"] by auto
qed simp

text \<open>Without an interruption, the eight steps are the function.\<close>

lemma timer_steps_function:
  assumes t: "tpt s = T_low"
  shows "tpt (timer_steps 8 env s) = T_done" and "r_result (timer_steps 8 env s) = fst (get_timer_masked env s)"
    and "timer_st.truncate (timer_steps 8 env s) = timer_st.truncate (snd (get_timer_masked env s))"
proof -
  define lo where "lo = env_read env (trace s) 0xff003000"
  define hi where "hi = env_read env (trace s @ [Rd 0xff003000 lo]) 0xff003004"
  have ms: "get_millisecond env s = (push_bit 12 hi + drop_bit 20 lo, s\<lparr>trace := trace s @ [Rd 0xff003000 lo, Rd 0xff003004 hi]\<rparr>)"
    by (simp add: get_millisecond_def readl_def Let_def lo_def hi_def)
  define u where "u = timer_steps (Suc (Suc 0)) env s"
  have u: "u = s\<lparr>trace := trace s @ [Rd 0xff003000 lo, Rd 0xff003004 hi], r_lo := lo, r_now := push_bit 12 hi + drop_bit 20 lo, tpt := T_test\<rparr>"
    using t by (simp add: timer_micro_simps lo_def hi_def u_def)
  have "timer_steps 8 env s = timer_steps 6 env u" using timer_steps_add [of 2 6 env s] by (simp add: u_def numeral_2_eq_2)
  moreover have "tpt u = T_test" by (simp add: u)
  ultimately have "timer_steps 8 env s = u\<lparr>r_diff := r_now u + (if lastdec u \<le> r_now u then 0 else TIMER_LOAD_VAL) - lastdec u, r_ts := timestamp u,
    timestamp := timestamp u + (r_now u + (if lastdec u \<le> r_now u then 0 else TIMER_LOAD_VAL) - lastdec u), lastdec := r_now u,
    r_result := timestamp u + (r_now u + (if lastdec u \<le> r_now u then 0 else TIMER_LOAD_VAL) - lastdec u), tpt := T_done\<rparr>"
    using timer_steps_test by metis
  then show "tpt (timer_steps 8 env s) = T_done" "r_result (timer_steps 8 env s) = fst (get_timer_masked env s)"
    "timer_st.truncate (timer_steps 8 env s) = timer_st.truncate (snd (get_timer_masked env s))"
    by (simp_all add: u get_timer_masked_def ms timer_st.truncate_def Let_def)
qed

section \<open>Properties\<close>

definition latch_env :: "(nat \<Rightarrow> nat) \<Rightarrow> env" where
  "latch_env ns = \<lparr>env_read = (\<lambda>h a. if a = 0xff003000 then of_nat (ns (length h)) else if a = 0xff003004 then of_nat (ns (latched h) div 2 ^ 32) else 0),
     env_dma = (\<lambda>h m. m), env_getchar = (\<lambda>h. 0)\<rparr>"

definition read_boot :: read_st where
  "read_boot = \<lparr>trace = [], mem = (\<lambda>_. 0), timestamp = 0, lastdec = 0, r_lo = 0, r_now = 0, r_diff = 0, r_ts = 0, r_result = 0, tpt = T_low\<rparr>"

lemma latching_timer_latch_env: "latching_timer (latch_env ns) ns"
  by (simp add: latching_timer_def latch_env_def)

text \<open>C25: an interrupt in the middle of \<open>get_timer_masked\<close>, while the tick counter is below \<open>2 ^ 32\<close>. Let a handler that reads the time stamp run after \<open>k\<close> of the eight steps of the function. Both
  variables end at the same distance as before, so that the time stamp counts the time that has passed, except in two windows. If the clock has been read but not
  yet compared, one tick is lost. If the difference to the previous reading has been computed and the time stamp not yet read, or the time stamp has been written and
  \<open>lastdec\<close> not, then the whole time from the previous reading to the one in the handler is counted twice, and a delay ends that much
  early. Between the two reads of the clock the result has the high half of the handler's reading, which may be 4096 ticks ahead.\<close>

theorem timer_race:
  assumes dev: "latching_timer env ns" and clk: "steady_clock ns"
    and s: "tpt s = T_low" "lastdec s = of_nat l" "l \<le> n1" "n1 = ticks ns (length (trace s))"
    and k: "k \<le> 8" and s1: "s1 = timer_steps k env s" and t': "\<forall>e \<in> set t'. \<not> low_read e"
    and n2: "n2 = ticks ns (length (trace s1) + length t)"
    and m: "m = (if k = 0 then ticks ns (length (trace s) + length t + 2 + length t') else if k = 1 then 4096 * (n2 div 4096) + n1 mod 4096 else n1)"
    and range: "ticks ns (length (trace s) + length t + length t' + 4) < 2 ^ 32"
    and s3: "s3 = timer_steps 8 env (handler_ticks env t t' s1)"
  shows "tpt s3 = T_done \<and> lastdec s3 = of_nat (if 7 \<le> k then n2 else m) \<and>
    stamp_offset s3 = stamp_offset s + (if k = 4 \<or> k = 6 then of_nat (n2 - l) else if (k = 1 \<or> k = 2) \<and> m < n2 then - 1 else 0)"
proof -
  have gf: "goldfish_timer env ns" by (rule latching_timer_goldfish [OF dev])
  have word_le: "(of_nat i :: u32) \<le> of_nat j \<longleftrightarrow> i \<le> j" "(of_nat i :: u32) < of_nat j \<longleftrightarrow> i < j" if "i < 2 ^ 32" "j < 2 ^ 32" for i j
    using that by (simp_all add: word_le_nat_alt word_less_nat_alt unat_of_nat take_bit_eq_mod)
  have range': "ticks ns i < 2 ^ 32" if "i \<le> length (trace s) + length t + length t' + 4" for i
    using ticks_mono [OF clk that] range by linarith
  have "n1 < 2 ^ 32" unfolding s(4) by (rule range') simp
  then have ln: "lastdec s \<le> of_nat n1" "l < 2 ^ 32" using s(2,3) word_le(1) [of l n1] by simp_all
  consider "k = 0" | "k = 1" | "2 \<le> k" by linarith
  then show ?thesis
  proof cases
    case 1
    then have s1': "s1 = s" by (simp add: s1)
    have n: "n2 < 2 ^ 32" "n1 \<le> n2" unfolding n2 s1' s(4) by (rule range', simp, rule ticks_mono [OF clk], simp)
    have "lastdec s \<le> of_nat n2" using s(2,3) n ln(2) word_le(1) [of l n2] by simp
    then obtain v w where h: "handler_ticks env t t' s1 = stamp_at (of_nat n2) ((trace s @ t) @ [Rd 0xff003000 v, Rd 0xff003004 w] @ t') s"
      using handler_ticks_stamp [OF gf, of "of_nat n2" s t t'] by (auto simp: s1' n2)
    have len: "length ((trace s @ t) @ [Rd 0xff003000 v, Rd 0xff003004 w] @ t') = length (trace s) + length t + 2 + length t'" by simp
    have mm: "m = ticks ns (length (trace s) + length t + 2 + length t')" using m 1 by simp
    have "n2 \<le> m" "m < 2 ^ 32" unfolding mm n2 s1' by (rule ticks_mono [OF clk], simp, rule range', simp)
    then have "(of_nat n2 :: u32) \<le> of_nat m" using word_le(1) n(1) by simp
    then show ?thesis using race_before [OF gf s(1), of "of_nat n2" "(trace s @ t) @ [Rd 0xff003000 v, Rd 0xff003004 w] @ t'", unfolded len, folded mm]
      unfolding s3 h 1 by simp
  next
    case 2
    have s1': "s1 = timer_micro env s" by (simp add: s1 2)
    have f: "length (trace s1) = length (trace s) + 1" "lastdec s1 = lastdec s" "stamp_offset s1 = stamp_offset s"
      by (simp_all add: s1' timer_micro_simps s(1) stamp_offset_def)
    have n: "n2 < 2 ^ 32" "n1 \<le> n2" unfolding n2 f(1) s(4) by (rule range', simp, rule ticks_mono [OF clk], simp)
    have "lastdec s1 \<le> of_nat n2" unfolding f(2) using s(2,3) n ln(2) word_le(1) [of l n2] by simp
    then obtain v w where h: "handler_ticks env t t' s1 = stamp_at (of_nat n2) ((trace s1 @ t) @ [Rd 0xff003000 v, Rd 0xff003004 w] @ t') s1"
      using handler_ticks_stamp [OF gf, of "of_nat n2" s1 t t'] by (auto simp: n2)
    have mm: "m = 4096 * (ticks ns (length (trace s1 @ t)) div 4096) + ticks ns (length (trace s)) mod 4096" by (simp add: m 2 n2 s(4))
    have "n2 div 4096 < 1048576" using n(1) by (simp add: div_less_iff_less_mult)
    then have "m < 2 ^ 32" using mm unfolding n2 by simp
    then have w: "((of_nat m :: u32) < of_nat n2) = (m < n2)" using word_le(2) n(1) by simp
    have "s3 = timer_steps 8 env (stamp_at (of_nat n2) (((trace s1 @ t) @ [Rd 0xff003000 v, Rd 0xff003004 w]) @ t') (timer_micro env s))"
      unfolding s3 h by (simp only: append_assoc s1')
    from race_between [OF dev s(1) refl t' mm this] show ?thesis using w by (simp add: 2)
  next
    case 3
    obtain v w where u: "timer_steps 2 env s = s\<lparr>trace := trace s @ [Rd 0xff003000 v, Rd 0xff003004 w], r_lo := v, r_now := of_nat n1, tpt := T_test\<rparr>"
      using timer_steps_read [OF gf s(1)] by (auto simp: s(4))
    define u where "u = timer_steps 2 env s"
    have f: "tpt u = T_test" "r_now u = of_nat n1" "lastdec u = of_nat l" "stamp_offset u = stamp_offset s"
      by (simp_all add: u_def u s(2) stamp_offset_def)
    define j where "j = k - 2"
    then have j: "k = 2 + j" "j \<le> 6" using 3 k by simp_all
    have s1': "s1 = timer_steps j env u" by (simp only: s1 j(1) timer_steps_add u_def)
    have q: "trace s1 = trace u" "lastdec s1 = of_nat l \<or> lastdec s1 = of_nat n1" using steps_quiet [of u j env] f by (simp_all add: s1')
    have len: "length (trace s1) = length (trace s) + 2" by (simp add: q(1) u_def u)
    have n: "n2 < 2 ^ 32" "n1 \<le> n2" unfolding n2 len s(4) by (rule range', simp, rule ticks_mono [OF clk], simp)
    have "lastdec s1 \<le> of_nat n2" using q(2) s(3) n ln(2) word_le(1) [of l n2] word_le(1) [of n1 n2] \<open>n1 < 2 ^ 32\<close> by auto
    then obtain v w where h: "handler_ticks env t t' s1 = stamp_at (of_nat n2) ((trace s1 @ t) @ [Rd 0xff003000 v, Rd 0xff003004 w] @ t') s1"
      using handler_ticks_stamp [OF gf, of "of_nat n2" s1 t t'] by (auto simp: n2)
    have le: "lastdec u \<le> r_now u" using ln(1) f s(2) by simp
    have w: "(of_nat n2 - of_nat l :: u32) = of_nat (n2 - l)" "((of_nat n1 :: u32) < of_nat n2) = (n1 < n2)"
      using s(3) n word_le(2) \<open>n1 < 2 ^ 32\<close> by simp_all
    have mn: "m = n1" using m 3 by simp
    have "s3 = timer_steps 8 env (stamp_at (of_nat n2) ((trace s1 @ t) @ [Rd 0xff003000 v, Rd 0xff003004 w] @ t') (timer_steps j env u))"
      unfolding s3 h by (simp only: s1')
    from race_after_test [OF f(1) le j(2) this] show ?thesis using w mn by (simp add: f j(1))
  qed
qed

theorem timer_race_witness:
  "let s = timer_steps 8 (latch_env (\<lambda>i. 2 ^ 19 * i)) (handler_ticks (latch_env (\<lambda>i. 2 ^ 19 * i)) (replicate 8 (Printf ''.'' [])) []
     (timer_steps 4 (latch_env (\<lambda>i. 2 ^ 19 * i)) read_boot))
   in lastdec s = 0 \<and> timestamp s = 5"
proof -
  define ns where "ns = (\<lambda>i :: nat. 2 ^ 19 * i)"
  define s1 where "s1 = timer_steps 4 (latch_env ns) read_boot"
  define s3 where "s3 = timer_steps 8 (latch_env ns) (handler_ticks (latch_env ns) (replicate 8 (Printf ''.'' [])) [] s1)"
  have clk: "steady_clock ns" by (simp add: steady_clock_def ns_def)
  have boot: "trace read_boot = []" "tpt read_boot = T_low" "lastdec read_boot = of_nat 0" "timestamp read_boot = 0" by (simp_all add: read_boot_def)
  obtain v w where "timer_steps 2 (latch_env ns) read_boot = read_boot\<lparr>trace := trace read_boot @ [Rd 0xff003000 v, Rd 0xff003004 w], r_lo := v,
      r_now := of_nat (ticks ns (length (trace read_boot))), tpt := T_test\<rparr>"
    using timer_steps_read [OF latching_timer_goldfish [OF latching_timer_latch_env] boot(2)] by blast
  then have len: "length (trace s1) = 2"
    using timer_steps_add [of 2 2 "latch_env ns" read_boot] steps_quiet [of "timer_steps 2 (latch_env ns) read_boot" 2 "latch_env ns"]
    by (simp add: s1_def boot)
  have n2: "5 = ticks ns (length (trace s1) + length (replicate 8 (Printf ''.'' [])))" by (simp add: len ticks_def ns_def)
  have n1: "0 = ticks ns (length (trace read_boot))" by (simp add: boot ticks_def ns_def)
  have "lastdec s3 = of_nat 0 \<and> stamp_offset s3 = stamp_offset read_boot + of_nat (5 - 0)"
    using timer_race [OF latching_timer_latch_env clk boot(2,3) _ n1 _ s1_def _ n2 refl _ s3_def] by (simp add: boot(1) ticks_def ns_def)
  then show ?thesis unfolding Let_def ns_def [symmetric] s1_def [symmetric] s3_def [symmetric] by (auto simp: stamp_offset_def boot)
qed

end
