(* ===== verification/C05.thy ===== *)
theory C05
  imports Serial
begin

text \<open>
  The programs of chapter 5: the string functions \<open>strlen\<close> and \<open>strcpy\<close> and the \<open>main\<close> functions of
  \<^verbatim>\<open>c05/c05e1/c05e1.c\<close> and \<^verbatim>\<open>c05/c05e2/c05e2.c\<close>. The loops run over memory and are partial: a string
  without an end makes them run on. The second program drives the serial console: it prints its
  argument and then echoes the input until it reads the character \<open>q\<close>. The build of chapter 5 has no
  debug messages, which in the model of the driver are \<open>Printf\<close> events: the statements below are about
  the characters on the wire only.
\<close>

section \<open>The code\<close>

text \<open>The loop \<open>for (sc = s; *sc != '\0'; ++sc);\<close>; the result is the final \<open>sc\<close>.\<close>

partial_function (option) strlen_loop :: "memory \<Rightarrow> u32 \<Rightarrow> u32 option" where
  "strlen_loop m sc = (if m sc \<noteq> 0 then strlen_loop m (sc + 1) else Some sc)"

definition strlen :: "memory \<Rightarrow> u32 \<Rightarrow> int option" where
  "strlen m s = (case strlen_loop m s of None \<Rightarrow> None | Some sc \<Rightarrow> Some (sint (sc - s)))"

text \<open>The loop \<open>while((*dst++ = *src++) != '\0');\<close>.\<close>

partial_function (option) strcpy_loop :: "u32 \<Rightarrow> u32 \<Rightarrow> memory \<Rightarrow> memory option" where
  "strcpy_loop dst src m =
     (if m src \<noteq> 0 then strcpy_loop (dst + 1) (src + 1) (m(dst := m src)) else Some (m(dst := m src)))"

definition strcpy :: "u32 \<Rightarrow> u32 \<Rightarrow> memory \<Rightarrow> (u32 \<times> memory) option" where
  "strcpy dst src m =
     (if dst = 0 then Some (0, m)
      else if src = 0 then Some (0, m)
      else case strcpy_loop dst src m of None \<Rightarrow> None | Some m \<Rightarrow> Some (dst, m))"

text \<open>\<open>main\<close> of c05e1: the lengths of the arguments are computed and overwritten.\<close>

fun c05e1_args :: "memory \<Rightarrow> u32 list \<Rightarrow> int \<Rightarrow> int option" where
  "c05e1_args m [] len = Some len"
| "c05e1_args m (a # argv) len = (case strlen m a of None \<Rightarrow> None | Some len \<Rightarrow> c05e1_args m argv len)"

definition c05e1_main :: "memory \<Rightarrow> u32 list \<Rightarrow> u32 \<Rightarrow> int option" where
  "c05e1_main m argv uart_name =
     (case c05e1_args m argv 0 of None \<Rightarrow> None | Some len \<Rightarrow> strlen m uart_name)"

text \<open>The echo loop of \<open>main\<close> of c05e2.\<close>

partial_function (option) c05e2_loop ::
  "'a tty_st_scheme serial_device \<Rightarrow> 'a tty_st_scheme \<Rightarrow> 'a tty_st_scheme option" where
  "c05e2_loop drv s =
     (let (n, s) = sd_tstc drv s
      in if n \<noteq> 0
         then let (c, s) = sd_getc drv s;
                  s = sd_putc drv (word_of_int c) s
              in if c = 113 then Some s else c05e2_loop drv s
         else c05e2_loop drv s)"

text \<open>\<open>main\<close> of c05e2; \<open>name\<close> is the address of the name field of the driver structure.\<close>

definition c05e2_main ::
  "env \<Rightarrow> u32 \<Rightarrow> u32 \<Rightarrow> u32 \<Rightarrow> u32 list \<Rightarrow> 'a tty_st_scheme \<Rightarrow> (int \<times> 'a tty_st_scheme) option" where
  "c05e2_main env buf name uart_name argv s =
     (let drv = default_serial_console env buf;
          (r, s) = sd_start drv s
      in case strlen (mem s) uart_name of
           None \<Rightarrow> None
         | Some len \<Rightarrow>
       (case (if len < 16
              then (case strcpy name uart_name (mem s) of
                      None \<Rightarrow> None | Some (p, m) \<Rightarrow> Some (s\<lparr>mem := m\<rparr>))
              else Some s) of
          None \<Rightarrow> None
        | Some s \<Rightarrow>
       (case (if length argv = 1 then sd_puts drv (argv ! 0) s else Some s) of
          None \<Rightarrow> None
        | Some s \<Rightarrow>
       (case c05e2_loop drv s of None \<Rightarrow> None | Some s \<Rightarrow> Some (1, s)))))"

section \<open>Strings\<close>

lemma strlen_loop_end: "cstring m s bs \<Longrightarrow> strlen_loop m s = Some (s + of_nat (length bs))"
  by (induction bs arbitrary: s) (auto simp: strlen_loop.simps [of m] algebra_simps)

lemma strlen_cstring:
  assumes "cstring m s bs" "length bs < 2147483648"
  shows "strlen m s = Some (int (length bs))"
proof -
  have "sint (of_nat (length bs) :: u32) = int (length bs)"
    using sint_word_of_int_u32 [of "int (length bs)"] assms(2) by simp
  then show ?thesis using strlen_loop_end [OF assms(1)] by (simp add: strlen_def)
qed

text \<open>A destination of \<open>n\<close> bytes that no byte of the source from \<open>src\<close> on falls into.\<close>

definition apart :: "nat \<Rightarrow> u32 \<Rightarrow> u32 \<Rightarrow> bool" where
  "apart n dst src \<longleftrightarrow> (\<forall>i < n. \<forall>j < n. dst + of_nat i \<noteq> src + of_nat j)"

lemma apart_Suc: "apart (Suc n) dst src \<Longrightarrow> apart n (dst + 1) (src + 1)"
  unfolding apart_def
proof (intro allI impI)
  fix i j assume a: "\<forall>i < Suc n. \<forall>j < Suc n. dst + of_nat i \<noteq> src + of_nat j" and "i < n" "j < n"
  then have "dst + of_nat (Suc i) \<noteq> src + of_nat (Suc j)" by blast
  then show "dst + 1 + of_nat i \<noteq> src + 1 + of_nat j" by (simp add: add.assoc)
qed

lemma cstring_frame:
  "cstring m a bs \<Longrightarrow> (\<And>j. j \<le> length bs \<Longrightarrow> d \<noteq> a + of_nat j) \<Longrightarrow> cstring (m(d := v)) a bs"
proof (induction bs arbitrary: a)
  case Nil
  then show ?case using Nil.prems(2) [of 0] by simp
next
  case (Cons b bs)
  have "d \<noteq> a + 1 + of_nat j" if "j \<le> length bs" for j
    using Cons.prems(2) [of "Suc j"] that by (simp add: add.assoc)
  then show ?case using Cons.IH [of "a + 1"] Cons.prems(1) Cons.prems(2) [of 0] by simp
qed

lemma strcpy_loop_copies:
  "cstring m src bs \<Longrightarrow> apart (Suc (length bs)) dst src \<Longrightarrow> length bs < 4294967295 \<Longrightarrow>
   \<exists>m'. strcpy_loop dst src m = Some m' \<and> cstring m' dst bs \<and>
     (\<forall>a. (\<forall>i \<le> length bs. a \<noteq> dst + of_nat i) \<longrightarrow> m' a = m a)"
proof (induction bs arbitrary: dst src m)
  case Nil
  then show ?case by (subst strcpy_loop.simps) (auto dest: spec [of _ 0])
next
  case (Cons b bs)
  let ?m = "m(dst := b)"
  have src: "cstring m (src + 1) bs" "m src = b" "b \<noteq> 0" using Cons.prems(1) by simp_all
  have "dst \<noteq> src + 1 + of_nat j" if "j \<le> length bs" for j
  proof -
    have "0 < Suc (length (b # bs))" "Suc j < Suc (length (b # bs))" using that by simp_all
    then have "dst + of_nat 0 \<noteq> src + of_nat (Suc j)" using Cons.prems(2) unfolding apart_def by blast
    then show ?thesis by (simp add: add.assoc)
  qed
  then have cs: "cstring ?m (src + 1) bs" by (intro cstring_frame [OF src(1)])
  have lt: "length bs < 4294967295" using Cons.prems(3) by simp
  obtain m' where m': "strcpy_loop (dst + 1) (src + 1) ?m = Some m'" "cstring m' (dst + 1) bs"
      "\<forall>a. (\<forall>i \<le> length bs. a \<noteq> dst + 1 + of_nat i) \<longrightarrow> m' a = ?m a"
    using Cons.IH [OF cs apart_Suc [OF Cons.prems(2) [simplified length_Cons]] lt] by blast
  have "dst \<noteq> dst + 1 + of_nat i" if "i \<le> length bs" for i
    using of_nat_inj_u32 [of "Suc i" 0] that Cons.prems(3) by (simp add: add.assoc)
  then have d: "m' dst = b" using m'(3) by auto
  have "m' a = m a" if "\<forall>i \<le> length (b # bs). a \<noteq> dst + of_nat i" for a
  proof -
    have "a \<noteq> dst" using that by (auto dest: spec [of _ 0])
    moreover have "\<forall>i \<le> length bs. a \<noteq> dst + 1 + of_nat i"
      using that by (auto simp: add.assoc dest: spec [of _ "Suc _"])
    ultimately show ?thesis using m'(3) by simp
  qed
  then show ?case using m'(1,2) d src by (subst strcpy_loop.simps) auto
qed

section \<open>The echo loop\<close>

text \<open>The characters on the wire.\<close>

definition sent :: "u32 \<Rightarrow> io list \<Rightarrow> u32 list" where
  "sent base h = concat (map (\<lambda>e. case e of Wr a v \<Rightarrow> if a = base + GOLDFISH_TTY_PUT_CHAR then [v] else [] | _ \<Rightarrow> []) h)"

lemma sent_append [simp]: "sent base (h @ t) = sent base h @ sent base t"
  by (simp add: sent_def)

lemma drv_fields [simp]:
  "sd_tstc (default_serial_console env buf) = goldfish_tstc env"
  "sd_getc (default_serial_console env buf) = goldfish_getc env buf"
  "sd_putc (default_serial_console env buf) = goldfish_putc env"
  "sd_puts (default_serial_console env buf) = default_serial_puts env"
  "sd_start (default_serial_console env buf) = goldfish_init env"
  by (simp_all add: default_serial_console_def goldfish_drv_def)

text \<open>One character is taken and echoed.\<close>

lemma echo_one:
  assumes dev: "goldfish_tty env base input arrived" and up: "gtty_base s = base" "base \<noteq> 0"
    and av: "0 < tty_avail base arrived (trace s)" and n: "n = consumed base (trace s)"
  shows "\<exists>s'. c05e2_loop (default_serial_console env buf) s =
       (if input n = 113 then Some s' else c05e2_loop (default_serial_console env buf) s') \<and>
     gtty_base s' = base \<and> consumed base (trace s') = Suc n \<and> length (trace s) \<le> length (trace s') \<and>
     (\<forall>a. a \<noteq> buf \<longrightarrow> mem s' a = mem s a) \<and> sent base (trace s') = sent base (trace s) @ (if input n = 0 then [] else [ucast (input n)])"
proof -
  obtain v s1 where t: "goldfish_tstc env s = (int (tty_avail base arrived (trace s)), s1)"
      "trace s1 = trace s @ [Rd (base + 4) v]" "gtty_base s1 = base" "mem s1 = mem s"
    using goldfish_tstc_up [OF dev up] by blast
  have mono: "mono arrived" using dev by (simp add: goldfish_tty_def)
  have c1: "consumed base (trace s1) = n" using t(2) n by (simp add: consumed_def)
  have "arrived (length (trace s)) \<le> arrived (length (trace s1))" using t(2) by (intro monoD [OF mono]) simp
  then have "0 < tty_avail base arrived (trace s1)" using av c1 n by (simp add: tty_avail_def)
  then obtain w s2 where g: "goldfish_getc env buf s1 = (uint (input n), s2)" "gtty_base s2 = base"
      "trace s2 = trace s1 @ [Rd (base + 4) w, Wr (base + 0x10) buf, Wr (base + 0x14) 1, Wr (base + 8) 3]"
      "mem s2 = (mem s1)(buf := input n)"
    using goldfish_getc_up [OF dev t(3) up(2), of buf] c1 by blast
  have up2: "tty_up env base s2" using g(2) up(2) dev by (auto simp: tty_up_def)
  let ?s3 = "goldfish_putc env (input n) s2"
  have tr: "trace ?s3 = trace s2 @ tty_out base (input n)" by (rule gfc.putc_tr [OF up2])
  have q: "uint (input n) = 113 \<longleftrightarrow> input n = 113" by (simp add: word_uint_eq_iff)
  have "c05e2_loop (default_serial_console env buf) s =
       (if input n = 113 then Some ?s3 else c05e2_loop (default_serial_console env buf) ?s3)"
    using t(1) g(1) av by (subst c05e2_loop.simps) (simp add: q)
  moreover have "gtty_base ?s3 = base" using gfc.putc_up [OF up2] by (simp add: tty_up_def)
  moreover have "consumed base (trace ?s3) = Suc n" using tr g(3) c1 by (simp add: consumed_def tty_out_def)
  moreover have "mem ?s3 = mem s2" by (rule gfc.putc_ram [OF up2])
  ultimately show ?thesis using tr g(3,4) t(2,4)
    by (intro exI [of _ ?s3]) (simp add: sent_def tty_out_def)
qed

lemma echo_idle:
  assumes dev: "goldfish_tty env base input arrived" and up: "gtty_base s = base" "base \<noteq> 0"
    and av: "tty_avail base arrived (trace s) = 0"
  shows "\<exists>s'. c05e2_loop (default_serial_console env buf) s = c05e2_loop (default_serial_console env buf) s' \<and>
     gtty_base s' = base \<and> consumed base (trace s') = consumed base (trace s) \<and>
     length (trace s') = Suc (length (trace s)) \<and> mem s' = mem s \<and> sent base (trace s') = sent base (trace s)"
proof -
  obtain v s1 where t: "goldfish_tstc env s = (0, s1)" "trace s1 = trace s @ [Rd (base + 4) v]" "gtty_base s1 = base" "mem s1 = mem s"
    using goldfish_tstc_up [OF dev up] av by auto
  then show ?thesis
    by (intro exI [of _ s1]) (subst c05e2_loop.simps, simp add: consumed_def sent_def)
qed

text \<open>The loop ends: either the input stream gets shorter or the waiting time.\<close>

lemma echo_until_q:
  fixes s :: "'a tty_st_scheme"
  assumes dev: "goldfish_tty env base input arrived" and nz: "base \<noteq> 0"
    and q: "input k = 113" "\<forall>j < k. input j \<noteq> 113" and arr: "k < arrived m"
  shows "gtty_base s = base \<Longrightarrow> consumed base (trace s) \<le> k \<Longrightarrow> n = consumed base (trace s) \<Longrightarrow>
    \<exists>s'. c05e2_loop (default_serial_console env buf) s = Some s' \<and> consumed base (trace s') = Suc k \<and>
      (\<forall>a. a \<noteq> buf \<longrightarrow> mem s' a = mem s a) \<and> sent base (trace s') = sent base (trace s) @ map ucast (filter (\<lambda>c. c \<noteq> 0) (map input [n ..< Suc k]))"
proof (induction "(Suc k - consumed base (trace s), m - length (trace s))" arbitrary: s n
    rule: wf_induct_rule [OF wf_lex_prod [OF wf_less_than wf_less_than]])
  case (1 s)
  show ?case
  proof (cases "tty_avail base arrived (trace s) = 0")
    case True
    have mono: "mono arrived" using dev by (simp add: goldfish_tty_def)
    have lt: "length (trace s) < m"
    proof (rule ccontr)
      assume "\<not> length (trace s) < m"
      then have "arrived m \<le> arrived (length (trace s))" by (intro monoD [OF mono]) simp
      then show False using True arr 1(3) by (simp add: tty_avail_def)
    qed
    obtain s1 where s1: "c05e2_loop (default_serial_console env buf) s = c05e2_loop (default_serial_console env buf) s1"
      "gtty_base s1 = base" "consumed base (trace s1) = consumed base (trace s)"
      "length (trace s1) = Suc (length (trace s))" "mem s1 = mem s" "sent base (trace s1) = sent base (trace s)"
      using echo_idle [OF dev 1(2) nz True] by blast
    have "((Suc k - consumed base (trace s1), m - length (trace s1)), (Suc k - consumed base (trace s), m - length (trace s)))
        \<in> less_than <*lex*> less_than" using s1(3,4) lt by simp
    from 1(1) [OF this s1(2), of n] 1(3,4) s1 show ?thesis by simp
  next
    case False
    obtain s1 where s1: "c05e2_loop (default_serial_console env buf) s =
         (if input n = 113 then Some s1 else c05e2_loop (default_serial_console env buf) s1)"
      "gtty_base s1 = base" "consumed base (trace s1) = Suc n" "\<forall>a. a \<noteq> buf \<longrightarrow> mem s1 a = mem s a"
      "sent base (trace s1) = sent base (trace s) @ (if input n = 0 then [] else [ucast (input n)])"
      using echo_one [OF dev 1(2) nz _ 1(4)] False by blast
    show ?thesis
    proof (cases "n = k")
      case True
      then show ?thesis using s1 q by (intro exI [of _ s1]) simp
    next
      case ne: False
      then have less: "n < k" using 1(3,4) by simp
      have "((Suc k - consumed base (trace s1), m - length (trace s1)), (Suc k - consumed base (trace s), m - length (trace s)))
        \<in> less_than <*lex*> less_than" using s1(3) less 1(4) by (simp add: Suc_diff_le)
      from 1(1) [OF this s1(2) _ s1(3) [symmetric]] less s1(3) obtain s' where
        s': "c05e2_loop (default_serial_console env buf) s1 = Some s'" "consumed base (trace s') = Suc k" "\<forall>a. a \<noteq> buf \<longrightarrow> mem s' a = mem s1 a"
        "sent base (trace s') = sent base (trace s1) @ map ucast (filter (\<lambda>c. c \<noteq> 0) (map input [Suc n ..< Suc k]))"
        by auto
      have "[n ..< Suc k] = n # [Suc n ..< Suc k]" using less by (simp add: upt_conv_Cons del: upt_Suc)
      then show ?thesis using s' s1 q(2) less by (intro exI [of _ s']) (simp del: upt_Suc)
    qed
  qed
qed

section \<open>The program\<close>

lemma goldfish_init_simps:
  assumes "goldfish_tty env (getbaseaddr s) input arrived"
  shows "gtty_base (snd (goldfish_init env s)) = getbaseaddr s"
    and "mem (snd (goldfish_init env s)) = mem s"
    and "consumed (getbaseaddr s) (trace (snd (goldfish_init env s))) = consumed (getbaseaddr s) (trace s)"
    and "sent (getbaseaddr s) (trace (snd (goldfish_init env s))) = sent (getbaseaddr s) (trace s)"
proof -
  show "gtty_base (snd (goldfish_init env s)) = getbaseaddr s"
    by (simp add: goldfish_init_def Let_def)
  show "mem (snd (goldfish_init env s)) = mem s"
    using goldfish_tty_quiet [OF assms, of "0xff012008" 1
        "trace s @ [Printf ''goldfish_init(), gtty.base=%x\<newline>'' [uint (getbaseaddr s)]]" "mem s"]
    by (simp add: goldfish_init_def Let_def)
  show "consumed (getbaseaddr s) (trace (snd (goldfish_init env s))) = consumed (getbaseaddr s) (trace s)"
    by (simp add: goldfish_init_def Let_def consumed_def)
  show "sent (getbaseaddr s) (trace (snd (goldfish_init env s))) = sent (getbaseaddr s) (trace s)"
    by (simp add: goldfish_init_def Let_def sent_def getbaseaddr_def)
qed

lemma cstring_agree:
  "cstring m a bs \<Longrightarrow> (\<And>j. j \<le> length bs \<Longrightarrow> m' (a + of_nat j) = m (a + of_nat j)) \<Longrightarrow> cstring m' a bs"
proof (induction bs arbitrary: a)
  case Nil
  then show ?case using Nil.prems(2) [of 0] by simp
next
  case (Cons b bs)
  have "m' (a + 1 + of_nat j) = m (a + 1 + of_nat j)" if "j \<le> length bs" for j
    using Cons.prems(2) [of "Suc j"] that by (simp add: add.assoc)
  then show ?case using Cons.IH [of "a + 1"] Cons.prems(1) Cons.prems(2) [of 0] by simp
qed

lemma strcpy_cstring:
  assumes "cstring m src bs" "apart (Suc (length bs)) dst src" "length bs < 4294967295" "dst \<noteq> 0" "src \<noteq> 0"
  shows "\<exists>m'. strcpy dst src m = Some (dst, m') \<and> cstring m' dst bs \<and>
     (\<forall>a. (\<forall>i \<le> length bs. a \<noteq> dst + of_nat i) \<longrightarrow> m' a = m a)"
  using strcpy_loop_copies [OF assms(1-3)] assms(4,5) by (auto simp: strcpy_def)

section \<open>Properties\<close>

text \<open>The string functions of chapter 5. \<open>strlen\<close> returns the length of a zero-terminated string;
  \<open>strcpy\<close> to a place apart from the source copies the string with its terminator, changes no other
  byte, and returns the destination. With a null pointer \<open>strcpy\<close> returns null and copies nothing.\<close>

lemma string_functions:
  assumes str: "cstring m src bs" "length bs < 2 ^ 31" and ap: "apart (Suc (length bs)) dst src"
  shows "strlen m src = Some (int (length bs)) \<and>
    (if dst = 0 \<or> src = 0 then strcpy dst src m = Some (0, m)
     else \<exists>m'. strcpy dst src m = Some (dst, m') \<and> cstring m' dst bs \<and> strlen m' dst = Some (int (length bs)) \<and>
       (\<forall>a. (\<forall>i \<le> length bs. a \<noteq> dst + of_nat i) \<longrightarrow> m' a = m a))"
  using strlen_cstring [of m src bs] strlen_cstring [of _ dst bs] strcpy_cstring [of m src bs dst] assms
  by (auto simp: strcpy_def)

lemma string_functions_example:
  "strlen (\<lambda>a. if a = 0x10 then 72 else if a = 0x11 then 105 else 0) 0x10 = Some 2"
  using string_functions [of "\<lambda>a. if a = 0x10 then 72 else if a = 0x11 then 105 else 0" "0x10" "[72, 105]" "0x20"]
  by (auto simp: apart_def less_Suc_eq numeral_3_eq_3)

text \<open>C39: the program c05e2 ends, and says what it should. Started on the serial console with one
  argument, and given an input stream whose first \<open>q\<close> is at position \<open>k\<close> and arrives some time, \<open>main\<close>
  returns 1; it has taken the input up to and with the \<open>q\<close>, and has put on the wire the argument and
  then the input it took (less the zero bytes), in order and nothing else. The name field of the driver structure then holds the UART name, which
  is shorter than 16 characters, and no other memory has changed but the driver's one-byte buffer. The places of the name, the field, the argument and the buffer
  are assumed not to overlap.\<close>

theorem c05e2_main_echo:
  assumes dev: "goldfish_tty env base input arrived" and base: "base = getbaseaddr s"
    and fresh: "consumed base (trace s) = 0"
    and name: "cstring (mem s) uart_name us" "length us < 16" "name \<noteq> 0" "uart_name \<noteq> 0" "apart (Suc (length us)) name uart_name"
    and arg: "cstring (mem s) a bs" "\<forall>j \<le> length bs. \<forall>i \<le> length us. a + of_nat j \<noteq> name + of_nat i"
    and buf: "\<forall>i \<le> length us. buf \<noteq> name + of_nat i"
    and q: "input k = 113" "\<forall>j < k. input j \<noteq> 113" "k < arrived m"
  shows "\<exists>s'. c05e2_main env buf name uart_name [a] s = Some (1, s') \<and> consumed base (trace s') = Suc k \<and>
     sent base (trace s') = sent base (trace s) @ map ucast bs @
       map ucast (filter (\<lambda>c. c \<noteq> 0) (map input [0 ..< Suc k])) \<and>
     cstring (mem s') name us \<and> (\<forall>x. x \<noteq> buf \<longrightarrow> (\<forall>i \<le> length us. x \<noteq> name + of_nat i) \<longrightarrow> mem s' x = mem s x)"
proof -
  let ?drv = "default_serial_console env buf :: 'a tty_st_scheme serial_device"
  let ?s1 = "snd (goldfish_init env s)"
  note i = goldfish_init_simps [OF dev [unfolded base], folded base]
  have nz: "base \<noteq> 0" using base by (simp add: getbaseaddr_def)
  have len: "strlen (mem ?s1) uart_name = Some (int (length us))"
    using strlen_cstring [OF name(1)] name(2) i(2) by simp
  obtain m' where cp: "strcpy name uart_name (mem ?s1) = Some (name, m')" "cstring m' name us"
      "\<forall>a. (\<forall>i \<le> length us. a \<noteq> name + of_nat i) \<longrightarrow> m' a = mem s a"
    using strcpy_cstring [OF name(1,5) _ name(3,4)] name(2) i(2) by auto
  let ?s2 = "?s1\<lparr>mem := m'\<rparr>"
  have "cstring m' a bs" using arg cp(3) by (intro cstring_agree [OF arg(1)]) blast
  then have str: "cstring (mem ?s2) a bs" by simp
  have up: "tty_up env base ?s2" using i(1) nz dev by (auto simp: tty_up_def)
  obtain s3 where s3: "default_serial_puts env a ?s2 = Some s3" "s3 = fold (goldfish_putc env) bs ?s2"
    using puts_up [OF up str] by blast
  have "0 \<notin> set bs" using arg(1) by (simp add: cstring_bytes)
  then have out: "concat (map (tty_out base) bs) = map (\<lambda>b. Wr base (ucast b)) bs"
    by (induction bs) (simp_all add: tty_out_def)
  have t3: "trace s3 = trace ?s1 @ map (\<lambda>b. Wr base (ucast b)) bs" and u3: "gtty_base s3 = base"
    using gfc.put_all [OF up, of bs] s3(2) out by (simp_all add: tty_up_def)
  have w: "sent base (map (\<lambda>b. Wr base (ucast b)) bs) = map ucast bs"
    "consumed base (trace ?s1 @ map (\<lambda>b. Wr base (ucast b)) bs) = consumed base (trace ?s1)" for bs :: "u8 list"
    by (induction bs) (simp_all add: sent_def consumed_def)
  have c3: "consumed base (trace s3) = 0" and o3: "sent base (trace s3) = sent base (trace s) @ map ucast bs"
    using t3 w i(3,4) fresh by simp_all
  obtain s' where "c05e2_loop ?drv s3 = Some s'" "consumed base (trace s') = Suc k"
     "sent base (trace s') = sent base (trace s3) @ map ucast (filter (\<lambda>c. c \<noteq> 0) (map input [0 ..< Suc k]))"
     and kept: "\<forall>a. a \<noteq> buf \<longrightarrow> mem s' a = mem s3 a"
    using echo_until_q [OF dev nz q u3, of 0 buf] c3 by auto
  moreover have "mem s3 = m'" using gfc.put_all [OF up, of bs] s3(2) by simp
  moreover from this have "cstring (mem s') name us" using kept buf by (intro cstring_agree [OF cp(2)]) (metis (no_types))
  ultimately show ?thesis using len cp(1,3) s3(1) o3 name(2)
    by (intro exI [of _ s']) (simp add: c05e2_main_def split_beta Let_def del: upt_Suc)
qed

theorem c05e2_main_echo_witness:
  "\<exists>s'. c05e2_main (uart_env 0xff012000 (\<lambda>k. if k = 2 then 113 else 65) (\<lambda>_. 9)) 0x900 0x200 0x100 [0x100] tty_boot = Some (1, s') \<and>
     sent 0xff012000 (trace s') = [0x48, 0x69, 65, 65, 113] \<and> cstring (mem s') 0x200 [0x48, 0x69]"
proof -
  let ?in = "\<lambda>k :: nat. if k = 2 then 113 else 65 :: u8"
  have dev: "goldfish_tty (uart_env 0xff012000 ?in (\<lambda>_. 9)) 0xff012000 ?in (\<lambda>_. 9)"
    by (rule goldfish_tty_uart_env) (auto simp: mono_def)
  have u: "[0 ..< Suc 2] = [0, 1, 2]" by (simp add: upt_rec)
  have ap: "apart (Suc (length [0x48, 0x69 :: u8])) 0x200 0x100"
    "\<forall>j \<le> length [0x48, 0x69 :: u8]. \<forall>i \<le> length [0x48, 0x69 :: u8]. (0x100 :: u32) + of_nat j \<noteq> 0x200 + of_nat i"
    "\<forall>i \<le> length [0x48, 0x69 :: u8]. (0x900 :: u32) \<noteq> 0x200 + of_nat i"
    by (auto simp: apart_def less_Suc_eq le_Suc_eq)
  obtain s' where "c05e2_main (uart_env 0xff012000 ?in (\<lambda>_. 9)) 0x900 0x200 0x100 [0x100] tty_boot = Some (1, s')"
    "sent 0xff012000 (trace s') = sent 0xff012000 (trace tty_boot) @ map ucast [0x48, 0x69 :: u8] @
       map ucast (filter (\<lambda>c. c \<noteq> 0) (map ?in [0 ..< Suc 2]))" "cstring (mem s') 0x200 [0x48, 0x69]"
    using c05e2_main_echo [OF dev, where s = tty_boot and uart_name = "0x100" and us = "[0x48, 0x69]"
        and name = "0x200" and a = "0x100" and bs = "[0x48, 0x69]" and k = 2 and buf = "0x900",
        OF _ _ _ _ _ _ ap(1) _ ap(2,3)]
    by (auto simp: tty_boot_def getbaseaddr_def consumed_def simp del: upt_Suc)
  moreover have "sent 0xff012000 (trace tty_boot) = []" by (simp add: tty_boot_def sent_def)
  ultimately show ?thesis unfolding u by simp
qed

end
