(* ===== verification/C06.thy ===== *)
theory C06
  imports Prelude
begin

text \<open>
  The programs \<^verbatim>\<open>c06/c06e1/c06e1.c\<close> and \<^verbatim>\<open>c06/c06e2/c06e2.c\<close>, which exercise the C library. The library itself is not in
  the repository: its functions are an argument, a record of functions on an arbitrary state, and
  the predicate \<open>libc_ok\<close> says what the programs rely on. A call of \<open>getchar\<close> that never returns is \<open>None\<close>.
\<close>


section \<open>The C library\<close>

record 's libc =
  lc_write :: "int \<Rightarrow> string \<Rightarrow> nat \<Rightarrow> 's \<Rightarrow> 's"
  lc_printf :: "string \<Rightarrow> u32 list \<Rightarrow> 's \<Rightarrow> 's"
  lc_getchar :: "'s \<Rightarrow> (int \<times> 's) option"
  lc_putchar :: "int \<Rightarrow> 's \<Rightarrow> 's"
  lc_malloc :: "u32 \<Rightarrow> 's \<Rightarrow> u32 \<times> 's"
  lc_free :: "u32 \<Rightarrow> 's \<Rightarrow> 's"
  lc_fopen :: "string \<Rightarrow> string \<Rightarrow> 's \<Rightarrow> u32 \<times> 's"
  lc_fprintf :: "u32 \<Rightarrow> string \<Rightarrow> u32 list \<Rightarrow> 's \<Rightarrow> 's"
  lc_fclose :: "u32 \<Rightarrow> 's \<Rightarrow> 's"

section \<open>The code\<close>

text \<open>The size \<open>128 + i*16\<close> is computed as an \<open>int\<close>.\<close>

definition c06_size :: "int \<Rightarrow> u32 result" where
  "c06_size i = (if i * 16 < 2147483648 \<and> 128 + i * 16 < 2147483648 then Inr (word_of_int (128 + i * 16)) else Inl Signed_overflow)"

partial_function (option) c06e1_loop :: "'s libc \<Rightarrow> int \<Rightarrow> 's \<Rightarrow> 's result option" where
  "c06e1_loop L i s =
     (case c06_size i of
        Inl e \<Rightarrow> Some (Inl e)
      | Inr n \<Rightarrow>
          (let (buffer, s) = lc_malloc L n s;
               s = lc_printf L ''. buffer=%x\<newline>'' [buffer] s
           in Option.bind (lc_getchar L s) (\<lambda>(c, s).
             let s = lc_putchar L c s;
                 s = (if c \<noteq> 115 then lc_free L buffer s else s)
             in if c = 113 then Some (Inr (lc_printf L ''\<newline>Exit from main()...\<newline>'' [] s))
                else c06e1_loop L (i + 1) s)))"

definition c06e1_main :: "'s libc \<Rightarrow> 's \<Rightarrow> (int \<times> 's) result option" where
  "c06e1_main L s =
     (let s = lc_write L 2 ''Hello, World!\<newline>1'' 15 s
      in map_option (\<lambda>r. rbind r (\<lambda>s. Inr (1, s))) (c06e1_loop L 0 s))"

text \<open>The loop \<open>do { c = getchar(); } while (c == '\n');\<close>.\<close>

partial_function (option) c06e2_getchar :: "'s libc \<Rightarrow> 's \<Rightarrow> (int \<times> 's) option" where
  "c06e2_getchar L s =
     Option.bind (lc_getchar L s) (\<lambda>(c, s). if c = 10 then c06e2_getchar L s else Some (c, s))"

partial_function (option) c06e2_loop :: "'s libc \<Rightarrow> u32 \<Rightarrow> int \<Rightarrow> int \<Rightarrow> 's \<Rightarrow> 's result option" where
  "c06e2_loop L fp c i s =
     (case c06_size i of
        Inl e \<Rightarrow> Some (Inl e)
      | Inr n \<Rightarrow>
          (let (buffer, s) = lc_malloc L n s;
               s = lc_printf L ''. buffer=%x\<newline>'' [buffer] s;
               s = lc_fprintf L fp ''%c. buffer=%x\<newline>'' [word_of_int c, buffer] s
           in Option.bind (c06e2_getchar L s) (\<lambda>(c, s).
             let s = lc_putchar L c s;
                 s = (if c \<noteq> 115 then lc_free L buffer s else s)
             in if c = 113 then Some (Inr (lc_printf L ''\<newline>Exit from main()...\<newline>'' [] s))
                else c06e2_loop L fp c (i + 1) s)))"

definition c06e2_main :: "'s libc \<Rightarrow> 's \<Rightarrow> (int \<times> 's) result option" where
  "c06e2_main L s =
     (let s = lc_write L 2 ''Hello, World!\<newline>1'' 15 s;
          (fp, s) = lc_fopen L ''log.txt'' ''w'' s
      in if fp = 0 then Some (Inr (0, s))
         else map_option (\<lambda>r. rbind r (\<lambda>s. Inr (1, lc_fclose L fp s))) (c06e2_loop L fp 49 0 s))"

section \<open>What the programs rely on\<close>

text \<open>The part of the world that the C library manages: the characters that \<open>getchar\<close> will deliver, the console
  output, the allocated blocks with their sizes, the open streams and the files.\<close>

record world =
  inp :: "int list"
  outp :: "u8 list"
  live :: "u32 \<Rightarrow> u32 option"
  streams :: "u32 \<Rightarrow> string option"
  files :: "string \<Rightarrow> u8 list option"

definition chars :: "string \<Rightarrow> u8 list" where
  "chars = map of_char"

text \<open>The documented behaviour of the functions, seen through \<open>V\<close>, with \<open>fmt\<close> the formatting of \<open>printf\<close>. Nothing is said
  of \<open>free\<close> on an address that is neither null nor allocated, or of \<open>fprintf\<close> and \<open>fclose\<close> on a stream that is not open; \<open>malloc\<close>
  and \<open>fopen\<close> may fail at any time.\<close>

definition libc_ok :: "'s libc \<Rightarrow> ('s \<Rightarrow> world) \<Rightarrow> (string \<Rightarrow> u32 list \<Rightarrow> u8 list) \<Rightarrow> bool" where
  "libc_ok L V fmt \<longleftrightarrow>
     (\<forall>n str s. n \<le> length str \<longrightarrow> V (lc_write L 2 str n s) = (V s)\<lparr>outp := outp (V s) @ chars (take n str)\<rparr>) \<and>
     (\<forall>f xs s. V (lc_printf L f xs s) = (V s)\<lparr>outp := outp (V s) @ fmt f xs\<rparr>) \<and>
     (\<forall>c s. V (lc_putchar L c s) = (V s)\<lparr>outp := outp (V s) @ [word_of_int c]\<rparr>) \<and>
     (\<forall>c cs s. inp (V s) = c # cs \<longrightarrow> (\<exists>s'. lc_getchar L s = Some (c, s') \<and> V s' = (V s)\<lparr>inp := cs\<rparr>)) \<and>
     (\<forall>n s. \<exists>p s'. lc_malloc L n s = (p, s') \<and>
        (p = 0 \<and> V s' = V s \<or> p \<noteq> 0 \<and> live (V s) p = None \<and> V s' = (V s)\<lparr>live := (live (V s))(p := Some n)\<rparr>)) \<and>
     (\<forall>p s. p = 0 \<longrightarrow> V (lc_free L p s) = V s) \<and>
     (\<forall>p s. p \<noteq> 0 \<longrightarrow> live (V s) p \<noteq> None \<longrightarrow> V (lc_free L p s) = (V s)\<lparr>live := (live (V s))(p := None)\<rparr>) \<and>
     (\<forall>name s. \<exists>fp s'. lc_fopen L name ''w'' s = (fp, s') \<and>
        (fp = 0 \<and> V s' = V s \<or> fp \<noteq> 0 \<and> streams (V s) fp = None \<and>
           V s' = (V s)\<lparr>streams := (streams (V s))(fp := Some name), files := (files (V s))(name := Some [])\<rparr>)) \<and>
     (\<forall>fp name d f xs s. streams (V s) fp = Some name \<longrightarrow> files (V s) name = Some d \<longrightarrow>
        V (lc_fprintf L fp f xs s) = (V s)\<lparr>files := (files (V s))(name := Some (d @ fmt f xs))\<rparr>) \<and>
     (\<forall>fp name s. streams (V s) fp = Some name \<longrightarrow> V (lc_fclose L fp s) = (V s)\<lparr>streams := (streams (V s))(fp := None)\<rparr>)"

text \<open>The blocks allocated by the iterations from \<open>i\<close> on, with addresses and characters \<open>pcs\<close>: each new address is null or free at
  that time, and a block stays allocated exactly if the character is \<open>s\<close>.\<close>

fun allocs :: "nat \<Rightarrow> (u32 \<times> int) list \<Rightarrow> (u32 \<Rightarrow> u32 option) \<Rightarrow> (u32 \<Rightarrow> u32 option) \<Rightarrow> bool" where
  "allocs i [] h h' \<longleftrightarrow> h' = h"
| "allocs i ((p, c) # pcs) h h' \<longleftrightarrow>
     (p = 0 \<or> h p = None) \<and> allocs (Suc i) pcs (if c = 115 \<and> p \<noteq> 0 then h(p := Some (of_nat (128 + 16 * i))) else h) h'"

section \<open>The loops\<close>

lemma c06_size_ok: "i < 134217720 \<Longrightarrow> c06_size (int i) = Inr (of_nat (128 + 16 * i))"
  by (simp add: c06_size_def mult.commute)

lemma libc_laws:
  assumes "libc_ok L V fmt"
  shows "n \<le> length str \<Longrightarrow> V (lc_write L 2 str n s) = (V s)\<lparr>outp := outp (V s) @ chars (take n str)\<rparr>"
    and "V (lc_printf L f xs s) = (V s)\<lparr>outp := outp (V s) @ fmt f xs\<rparr>"
    and "V (lc_putchar L c s) = (V s)\<lparr>outp := outp (V s) @ [word_of_int c]\<rparr>"
    and "inp (V s) = c # cs \<Longrightarrow> \<exists>s'. lc_getchar L s = Some (c, s') \<and> V s' = (V s)\<lparr>inp := cs\<rparr>"
    and "\<exists>p s'. lc_malloc L m s = (p, s') \<and>
        (p = 0 \<and> V s' = V s \<or> p \<noteq> 0 \<and> live (V s) p = None \<and> V s' = (V s)\<lparr>live := (live (V s))(p := Some m)\<rparr>)"
    and "V (lc_free L 0 s) = V s"
    and "p \<noteq> 0 \<Longrightarrow> live (V s) p \<noteq> None \<Longrightarrow> V (lc_free L p s) = (V s)\<lparr>live := (live (V s))(p := None)\<rparr>"
    and "\<exists>fp s'. lc_fopen L name ''w'' s = (fp, s') \<and>
        (fp = 0 \<and> V s' = V s \<or> fp \<noteq> 0 \<and> streams (V s) fp = None \<and>
           V s' = (V s)\<lparr>streams := (streams (V s))(fp := Some name), files := (files (V s))(name := Some [])\<rparr>)"
    and "streams (V s) fp = Some name \<Longrightarrow> files (V s) name = Some d \<Longrightarrow>
        V (lc_fprintf L fp f xs s) = (V s)\<lparr>files := (files (V s))(name := Some (d @ fmt f xs))\<rparr>"
    and "streams (V s) fp = Some name \<Longrightarrow> V (lc_fclose L fp s) = (V s)\<lparr>streams := (streams (V s))(fp := None)\<rparr>"
  using assms unfolding libc_ok_def by simp_all

text \<open>What an iteration does with its block once the character \<open>c\<close> is there.\<close>

lemma free_unless_s:
  assumes ok: "libc_ok L V fmt"
    and m: "p = 0 \<and> live (V s) = h \<or> p \<noteq> 0 \<and> h p = None \<and> live (V s) = h(p := Some n)"
  shows "V (if c \<noteq> 115 then lc_free L p s else s) =
    (V s)\<lparr>live := (if c = 115 \<and> p \<noteq> 0 then h(p := Some n) else h)\<rparr>"
  using m libc_laws(6,7) [OF ok] by (auto simp: fun_upd_idem)

lemma c06e1_iteration:
  assumes ok: "libc_ok L V fmt" and c: "inp (V s) = c # cs" and n: "c06_size (int i) = Inr n"
  shows "\<exists>p s'. c06e1_loop L (int i) s =
      (if c = 113 then Some (Inr (lc_printf L ''\<newline>Exit from main()...\<newline>'' [] s')) else c06e1_loop L (int (Suc i)) s') \<and>
    (p = 0 \<or> live (V s) p = None) \<and>
    V s' = (V s)\<lparr>inp := cs, outp := outp (V s) @ fmt ''. buffer=%x\<newline>'' [p] @ [word_of_int c],
      live := (if c = 115 \<and> p \<noteq> 0 then (live (V s))(p := Some n) else live (V s))\<rparr>"
proof -
  obtain p s1 where m: "lc_malloc L n s = (p, s1)"
      "p = 0 \<and> V s1 = V s \<or> p \<noteq> 0 \<and> live (V s) p = None \<and> V s1 = (V s)\<lparr>live := (live (V s))(p := Some n)\<rparr>"
    using libc_laws(5) [OF ok] by blast
  let ?s2 = "lc_printf L ''. buffer=%x\<newline>'' [p] s1"
  have "inp (V ?s2) = c # cs" using m(2) c by (auto simp: libc_laws(2) [OF ok])
  then obtain s3 where g: "lc_getchar L ?s2 = Some (c, s3)" "V s3 = (V ?s2)\<lparr>inp := cs\<rparr>" using libc_laws(4) [OF ok] by blast
  let ?s4 = "lc_putchar L c s3"
  have "p = 0 \<and> live (V ?s4) = live (V s) \<or>
      p \<noteq> 0 \<and> live (V s) p = None \<and> live (V ?s4) = (live (V s))(p := Some n)"
    using m(2) g(2) by (auto simp: libc_laws(2,3) [OF ok])
  note v = free_unless_s [OF ok this, of c]
  show ?thesis
  proof (intro exI conjI)
    show "c06e1_loop L (int i) s =
      (if c = 113 then Some (Inr (lc_printf L ''\<newline>Exit from main()...\<newline>'' [] (if c \<noteq> 115 then lc_free L p ?s4 else ?s4)))
       else c06e1_loop L (int (Suc i)) (if c \<noteq> 115 then lc_free L p ?s4 else ?s4))"
      by (subst c06e1_loop.simps) (simp add: n m(1) g(1) Let_def add.commute)
    show "p = 0 \<or> live (V s) p = None" using m(2) by auto
    show "V (if c \<noteq> 115 then lc_free L p ?s4 else ?s4) = (V s)\<lparr>inp := cs, outp := outp (V s) @ fmt ''. buffer=%x\<newline>'' [p] @ [word_of_int c],
      live := (if c = 115 \<and> p \<noteq> 0 then (live (V s))(p := Some n) else live (V s))\<rparr>"
      unfolding v using m(2) g(2) by (auto simp: libc_laws(2,3) [OF ok])
  qed
qed

lemma c06e1_loop_run:
  assumes ok: "libc_ok L V fmt"
  shows "inp (V s) = cs @ 113 # rest \<Longrightarrow> 113 \<notin> set cs \<Longrightarrow> i + length cs < 134217720 \<Longrightarrow>
    \<exists>ps s' h'. c06e1_loop L (int i) s = Some (Inr s') \<and> length ps = Suc (length cs) \<and>
      V s' = (V s)\<lparr>inp := rest, live := h',
        outp := outp (V s) @ concat (map2 (\<lambda>p c. fmt ''. buffer=%x\<newline>'' [p] @ [word_of_int c]) ps (cs @ [113])) @
          fmt ''\<newline>Exit from main()...\<newline>'' []\<rparr> \<and>
      allocs i (zip ps (cs @ [113])) (live (V s)) h'"
proof (induction cs arbitrary: i s)
  case Nil
  then obtain p s' where "c06e1_loop L (int i) s = Some (Inr (lc_printf L ''\<newline>Exit from main()...\<newline>'' [] s'))"
      "p = 0 \<or> live (V s) p = None"
      "V s' = (V s)\<lparr>inp := rest, outp := outp (V s) @ fmt ''. buffer=%x\<newline>'' [p] @ [word_of_int 113]\<rparr>"
    using c06e1_iteration [OF ok _ c06_size_ok, of s 113 rest i] by auto
  then show ?case
    by (intro exI [of _ "[p]"] exI [of _ "lc_printf L ''\<newline>Exit from main()...\<newline>'' [] s'"] exI [of _ "live (V s)"])
      (simp add: libc_laws(2) [OF ok])
next
  case (Cons c cs)
  let ?h = "\<lambda>p. if c = 115 \<and> p \<noteq> 0 then (live (V s))(p := Some (of_nat (128 + 16 * i))) else live (V s)"
  obtain p s1 where 1: "c06e1_loop L (int i) s = c06e1_loop L (int (Suc i)) s1"
      "p = 0 \<or> live (V s) p = None"
      "V s1 = (V s)\<lparr>inp := cs @ 113 # rest, outp := outp (V s) @ fmt ''. buffer=%x\<newline>'' [p] @ [word_of_int c], live := ?h p\<rparr>"
    using c06e1_iteration [OF ok _ c06_size_ok, of s c "cs @ 113 # rest" i] Cons.prems by auto
  obtain ps s' h' where 2: "c06e1_loop L (int (Suc i)) s1 = Some (Inr s')" "length ps = Suc (length cs)"
      "V s' = (V s1)\<lparr>inp := rest, live := h',
        outp := outp (V s1) @ concat (map2 (\<lambda>p c. fmt ''. buffer=%x\<newline>'' [p] @ [word_of_int c]) ps (cs @ [113])) @
          fmt ''\<newline>Exit from main()...\<newline>'' []\<rparr>"
      "allocs (Suc i) (zip ps (cs @ [113])) (live (V s1)) h'"
    using Cons.IH [of s1 "Suc i"] Cons.prems 1(3) by auto
  show ?case
    by (intro exI [of _ "p # ps"] exI [of _ s'] exI [of _ h']) (use 1 2 in simp)
qed

lemma c06e2_getchar_skips:
  assumes ok: "libc_ok L V fmt" and c: "c \<noteq> 10"
  shows "inp (V s) = ns @ c # cs \<Longrightarrow> \<forall>n \<in> set ns. n = 10 \<Longrightarrow>
    \<exists>s'. c06e2_getchar L s = Some (c, s') \<and> V s' = (V s)\<lparr>inp := cs\<rparr>"
proof (induction ns arbitrary: s)
  case Nil
  then obtain s' where "lc_getchar L s = Some (c, s')" "V s' = (V s)\<lparr>inp := cs\<rparr>"
    using libc_laws(4) [OF ok, of s c cs] by auto
  then show ?case using c by (subst c06e2_getchar.simps) simp
next
  case (Cons n ns)
  then obtain s1 where 1: "lc_getchar L s = Some (10, s1)" "V s1 = (V s)\<lparr>inp := ns @ c # cs\<rparr>"
    using libc_laws(4) [OF ok, of s 10 "ns @ c # cs"] by auto
  then obtain s' where "c06e2_getchar L s1 = Some (c, s')" "V s' = (V s1)\<lparr>inp := cs\<rparr>"
    using Cons.IH [of s1] Cons.prems(2) by auto
  then show ?case using 1 by (subst c06e2_getchar.simps) simp
qed

lemma c06e2_iteration:
  assumes ok: "libc_ok L V fmt" and c: "inp (V s) = ns @ c # cs" "\<forall>n \<in> set ns. n = 10" "c \<noteq> 10"
    and n: "c06_size (int i) = Inr n" and f: "streams (V s) fp = Some name" "files (V s) name = Some d"
  shows "\<exists>p s'. c06e2_loop L fp b (int i) s =
      (if c = 113 then Some (Inr (lc_printf L ''\<newline>Exit from main()...\<newline>'' [] s')) else c06e2_loop L fp c (int (Suc i)) s') \<and>
    (p = 0 \<or> live (V s) p = None) \<and>
    V s' = (V s)\<lparr>inp := cs, outp := outp (V s) @ fmt ''. buffer=%x\<newline>'' [p] @ [word_of_int c],
      live := (if c = 115 \<and> p \<noteq> 0 then (live (V s))(p := Some n) else live (V s)),
      files := (files (V s))(name := Some (d @ fmt ''%c. buffer=%x\<newline>'' [word_of_int b, p]))\<rparr>"
proof -
  obtain p s1 where m: "lc_malloc L n s = (p, s1)"
      "p = 0 \<and> V s1 = V s \<or> p \<noteq> 0 \<and> live (V s) p = None \<and> V s1 = (V s)\<lparr>live := (live (V s))(p := Some n)\<rparr>"
    using libc_laws(5) [OF ok] by blast
  let ?s2 = "lc_fprintf L fp ''%c. buffer=%x\<newline>'' [word_of_int b, p] (lc_printf L ''. buffer=%x\<newline>'' [p] s1)"
  have f2: "V ?s2 = (V s1)\<lparr>outp := outp (V s) @ fmt ''. buffer=%x\<newline>'' [p],
      files := (files (V s))(name := Some (d @ fmt ''%c. buffer=%x\<newline>'' [word_of_int b, p]))\<rparr>"
    using m(2) f by (subst libc_laws(9) [OF ok, of _ fp name d]) (auto simp: libc_laws(2) [OF ok])
  have "inp (V ?s2) = ns @ c # cs" unfolding f2 using m(2) c(1) by auto
  then obtain s3 where g: "c06e2_getchar L ?s2 = Some (c, s3)" "V s3 = (V ?s2)\<lparr>inp := cs\<rparr>"
    using c06e2_getchar_skips [OF ok c(3) _ c(2)] by blast
  let ?s4 = "lc_putchar L c s3"
  have "p = 0 \<and> live (V ?s4) = live (V s) \<or>
      p \<noteq> 0 \<and> live (V s) p = None \<and> live (V ?s4) = (live (V s))(p := Some n)"
    using m(2) by (auto simp: libc_laws(3) [OF ok] g(2) f2)
  note v = free_unless_s [OF ok this, of c]
  show ?thesis
  proof (intro exI conjI)
    show "c06e2_loop L fp b (int i) s =
      (if c = 113 then Some (Inr (lc_printf L ''\<newline>Exit from main()...\<newline>'' [] (if c \<noteq> 115 then lc_free L p ?s4 else ?s4)))
       else c06e2_loop L fp c (int (Suc i)) (if c \<noteq> 115 then lc_free L p ?s4 else ?s4))"
      by (subst c06e2_loop.simps) (simp add: n m(1) g(1) Let_def add.commute)
    show "p = 0 \<or> live (V s) p = None" using m(2) by auto
    show "V (if c \<noteq> 115 then lc_free L p ?s4 else ?s4) = (V s)\<lparr>inp := cs, outp := outp (V s) @ fmt ''. buffer=%x\<newline>'' [p] @ [word_of_int c],
      live := (if c = 115 \<and> p \<noteq> 0 then (live (V s))(p := Some n) else live (V s)),
      files := (files (V s))(name := Some (d @ fmt ''%c. buffer=%x\<newline>'' [word_of_int b, p]))\<rparr>"
      unfolding v using m(2) by (auto simp: libc_laws(3) [OF ok] g(2) f2)
  qed
qed

lemma newlines_first:
  obtains ns c cs' where "cs @ (113 :: int) # rest = ns @ c # cs'" "\<forall>n \<in> set ns. n = 10" "c \<noteq> 10"
    "c = 113 \<and> cs' = rest \<and> filter (\<lambda>c. c \<noteq> 10) cs = [] \<or>
     (\<exists>ds. cs' = ds @ 113 # rest \<and> length ds < length cs \<and> set ds \<subseteq> set cs \<and> c \<in> set cs \<and>
       filter (\<lambda>c. c \<noteq> 10) cs = c # filter (\<lambda>c. c \<noteq> 10) ds)"
proof -
  have "\<exists>ns c cs'. cs @ 113 # rest = ns @ c # cs' \<and> (\<forall>n \<in> set ns. n = 10) \<and> c \<noteq> 10 \<and>
    (c = 113 \<and> cs' = rest \<and> filter (\<lambda>c. c \<noteq> 10) cs = [] \<or>
     (\<exists>ds. cs' = ds @ 113 # rest \<and> length ds < length cs \<and> set ds \<subseteq> set cs \<and> c \<in> set cs \<and>
       filter (\<lambda>c. c \<noteq> 10) cs = c # filter (\<lambda>c. c \<noteq> 10) ds))"
  proof (induction cs)
    case Nil
    show ?case by (rule exI [of _ "[]"]) simp
  next
    case (Cons a cs)
    show ?case
    proof (cases "a = 10")
      case True
      from Cons obtain ns c cs' where 1: "cs @ 113 # rest = ns @ c # cs'" "\<forall>n \<in> set ns. n = 10" "c \<noteq> 10" and 2:
        "c = 113 \<and> cs' = rest \<and> filter (\<lambda>c. c \<noteq> 10) cs = [] \<or>
         (\<exists>ds. cs' = ds @ 113 # rest \<and> length ds < length cs \<and> set ds \<subseteq> set cs \<and> c \<in> set cs \<and>
           filter (\<lambda>c. c \<noteq> 10) cs = c # filter (\<lambda>c. c \<noteq> 10) ds)" by blast
      then show ?thesis using True
        by (intro exI [of _ "10 # ns"] exI [of _ c] exI [of _ cs']) auto
    next
      case False
      then show ?thesis by (intro exI [of _ "[]"] exI [of _ a] exI [of _ "cs @ 113 # rest"]) auto
    qed
  qed
  then show thesis using that by blast
qed

lemma c06e2_loop_run:
  assumes ok: "libc_ok L V fmt"
  shows "inp (V s) = cs @ 113 # rest \<Longrightarrow> 113 \<notin> set cs \<Longrightarrow> i + length cs < 134217720 \<Longrightarrow>
    streams (V s) fp = Some name \<Longrightarrow> files (V s) name = Some d \<Longrightarrow> ds = filter (\<lambda>c. c \<noteq> 10) cs \<Longrightarrow>
    \<exists>ps s' h'. c06e2_loop L fp b (int i) s = Some (Inr s') \<and> length ps = Suc (length ds) \<and>
      V s' = (V s)\<lparr>inp := rest, live := h',
        outp := outp (V s) @ concat (map2 (\<lambda>p c. fmt ''. buffer=%x\<newline>'' [p] @ [word_of_int c]) ps (ds @ [113])) @
          fmt ''\<newline>Exit from main()...\<newline>'' [],
        files := (files (V s))(name := Some (d @ concat (map2 (\<lambda>c p. fmt ''%c. buffer=%x\<newline>'' [word_of_int c, p]) (b # ds) ps)))\<rparr> \<and>
      allocs i (zip ps (ds @ [113])) (live (V s)) h'"
proof (induction "length cs" arbitrary: cs i s b d ds rule: less_induct)
  case less
  obtain ns c cs' where nl: "cs @ 113 # rest = ns @ c # cs'" "\<forall>n \<in> set ns. n = 10" "c \<noteq> 10" and alt:
    "c = 113 \<and> cs' = rest \<and> filter (\<lambda>c. c \<noteq> 10) cs = [] \<or>
     (\<exists>es. cs' = es @ 113 # rest \<and> length es < length cs \<and> set es \<subseteq> set cs \<and> c \<in> set cs \<and>
       filter (\<lambda>c. c \<noteq> 10) cs = c # filter (\<lambda>c. c \<noteq> 10) es)"
    by (rule newlines_first)
  obtain p s1 where 1: "c06e2_loop L fp b (int i) s =
      (if c = 113 then Some (Inr (lc_printf L ''\<newline>Exit from main()...\<newline>'' [] s1)) else c06e2_loop L fp c (int (Suc i)) s1)"
    "p = 0 \<or> live (V s) p = None"
    "V s1 = (V s)\<lparr>inp := cs', outp := outp (V s) @ fmt ''. buffer=%x\<newline>'' [p] @ [word_of_int c],
      live := (if c = 115 \<and> p \<noteq> 0 then (live (V s))(p := Some (of_nat (128 + 16 * i))) else live (V s)),
      files := (files (V s))(name := Some (d @ fmt ''%c. buffer=%x\<newline>'' [word_of_int b, p]))\<rparr>"
    using c06e2_iteration [OF ok _ nl(2,3) c06_size_ok less.prems(4,5), of cs' i b] less.prems(1,3) nl(1) by auto
  from alt show ?case
  proof (elim disjE conjE exE)
    assume "c = 113" "cs' = rest" "filter (\<lambda>c. c \<noteq> 10) cs = []"
    then show ?case using 1 less.prems(6)
      by (intro exI [of _ "[p]"] exI [of _ "lc_printf L ''\<newline>Exit from main()...\<newline>'' [] s1"] exI [of _ "live (V s)"])
        (simp add: libc_laws(2) [OF ok])
  next
    fix es assume es: "cs' = es @ 113 # rest" "length es < length cs" "set es \<subseteq> set cs" "c \<in> set cs"
      "filter (\<lambda>c. c \<noteq> 10) cs = c # filter (\<lambda>c. c \<noteq> 10) es"
    have c: "c \<noteq> 113" using es(4) less.prems(2) by auto
    obtain ps s' h' where 2: "c06e2_loop L fp c (int (Suc i)) s1 = Some (Inr s')" "length ps = Suc (length (filter (\<lambda>c. c \<noteq> 10) es))"
      "V s' = (V s1)\<lparr>inp := rest, live := h',
        outp := outp (V s1) @ concat (map2 (\<lambda>p c. fmt ''. buffer=%x\<newline>'' [p] @ [word_of_int c]) ps (filter (\<lambda>c. c \<noteq> 10) es @ [113])) @
          fmt ''\<newline>Exit from main()...\<newline>'' [],
        files := (files (V s1))(name := Some ((d @ fmt ''%c. buffer=%x\<newline>'' [word_of_int b, p]) @
          concat (map2 (\<lambda>c p. fmt ''%c. buffer=%x\<newline>'' [word_of_int c, p]) (c # filter (\<lambda>c. c \<noteq> 10) es) ps)))\<rparr>"
      "allocs (Suc i) (zip ps (filter (\<lambda>c. c \<noteq> 10) es @ [113])) (live (V s1)) h'"
      using less.hyps [of es s1 "Suc i" "d @ fmt ''%c. buffer=%x\<newline>'' [word_of_int b, p]" "filter (\<lambda>c. c \<noteq> 10) es" c]
        es less.prems(2,3,4) 1(3) by auto
    show ?case
      by (intro exI [of _ "p # ps"] exI [of _ s'] exI [of _ h']) (use 1 2 c es(5) less.prems(6) in simp)
  qed
qed

section \<open>Properties\<close>

lemma hello_world:
  assumes "libc_ok L V fmt"
  shows "V (lc_write L 2 ''Hello, World!\<newline>1'' 15 s) = (V s)\<lparr>outp := outp (V s) @ chars ''Hello, World!\<newline>1''\<rparr>"
  using libc_laws(1) [OF assms, of 15 "''Hello, World!\<newline>1''"] by simp

text \<open>\<open>main\<close> of \<^verbatim>\<open>c06e1.c\<close> runs until the first \<open>q\<close> of the input and then returns 1. It echoes each character after the line with
  the address of the block of that iteration, it never frees a block that is not allocated, and at the end exactly the
  blocks of the iterations that read an \<open>s\<close> are still allocated, with the sizes 128, 144, 160 and so on by iteration. The
  input before the \<open>q\<close> is short enough for the size to fit into an \<open>int\<close>.\<close>

lemma c06e1_main_run:
  assumes ok: "libc_ok L V fmt" and i: "inp (V s) = cs @ 113 # rest" "113 \<notin> set cs" "length cs < 134217720"
  shows "\<exists>ps s' h'. c06e1_main L s = Some (Inr (1, s')) \<and> length ps = Suc (length cs) \<and>
    V s' = (V s)\<lparr>inp := rest, live := h',
      outp := outp (V s) @ chars ''Hello, World!\<newline>1'' @
        concat (map2 (\<lambda>p c. fmt ''. buffer=%x\<newline>'' [p] @ [word_of_int c]) ps (cs @ [113])) @
        fmt ''\<newline>Exit from main()...\<newline>'' []\<rparr> \<and>
    allocs 0 (zip ps (cs @ [113])) (live (V s)) h'"
proof -
  let ?s = "lc_write L 2 ''Hello, World!\<newline>1'' 15 s"
  obtain ps s' h' where "c06e1_loop L (int 0) ?s = Some (Inr s')" "length ps = Suc (length cs)"
      "V s' = (V ?s)\<lparr>inp := rest, live := h',
        outp := outp (V ?s) @ concat (map2 (\<lambda>p c. fmt ''. buffer=%x\<newline>'' [p] @ [word_of_int c]) ps (cs @ [113])) @
          fmt ''\<newline>Exit from main()...\<newline>'' []\<rparr>"
      "allocs 0 (zip ps (cs @ [113])) (live (V ?s)) h'"
    using c06e1_loop_run [OF ok, of ?s cs rest 0] i hello_world [OF ok] by auto
  then show ?thesis using hello_world [OF ok, of s]
    by (intro exI [of _ ps] exI [of _ s'] exI [of _ h']) (simp add: c06e1_main_def)
qed

text \<open>A C library for the examples: two blocks, one stream, and a \<open>printf\<close> that prints the format.\<close>

definition demo_libc :: "world libc" where
  "demo_libc = \<lparr>
     lc_write = (\<lambda>fd str n w. w\<lparr>outp := outp w @ chars (take n str)\<rparr>),
     lc_printf = (\<lambda>f xs w. w\<lparr>outp := outp w @ chars f\<rparr>),
     lc_getchar = (\<lambda>w. case inp w of [] \<Rightarrow> None | c # cs \<Rightarrow> Some (c, w\<lparr>inp := cs\<rparr>)),
     lc_putchar = (\<lambda>c w. w\<lparr>outp := outp w @ [word_of_int c]\<rparr>),
     lc_malloc = (\<lambda>n w. if live w 0x1000 = None then (0x1000, w\<lparr>live := (live w)(0x1000 := Some n)\<rparr>)
       else if live w 0x2000 = None then (0x2000, w\<lparr>live := (live w)(0x2000 := Some n)\<rparr>) else (0, w)),
     lc_free = (\<lambda>p w. if p = 0 then w else w\<lparr>live := (live w)(p := None)\<rparr>),
     lc_fopen = (\<lambda>name mode w. if streams w 0x3000 = None
       then (0x3000, w\<lparr>streams := (streams w)(0x3000 := Some name), files := (files w)(name := Some [])\<rparr>) else (0, w)),
     lc_fprintf = (\<lambda>fp f xs w. case streams w fp of None \<Rightarrow> w
       | Some name \<Rightarrow> w\<lparr>files := (files w)(name := map_option (\<lambda>d. d @ chars f) (files w name))\<rparr>),
     lc_fclose = (\<lambda>fp w. w\<lparr>streams := (streams w)(fp := None)\<rparr>)\<rparr>"

definition demo_world :: world where
  "demo_world = \<lparr>inp = [97, 10, 115, 113, 98], outp = [], live = (\<lambda>_. None), streams = (\<lambda>_. None), files = (\<lambda>_. None)\<rparr>"

lemma demo_libc_ok: "libc_ok demo_libc id (\<lambda>f xs. chars f)"
  by (auto simp: libc_ok_def demo_libc_def)

lemma c06e1_main_run_example:
  "\<exists>ps s' h'. c06e1_main demo_libc demo_world = Some (Inr (1, s')) \<and> length ps = 4 \<and> inp s' = [98] \<and>
     allocs 0 (zip ps [97, 10, 115, 113]) (\<lambda>_. None) h' \<and> live s' = h'"
proof -
  from c06e1_main_run [OF demo_libc_ok, of demo_world "[97, 10, 115]" "[98]"] obtain ps s' h' where
    "c06e1_main demo_libc demo_world = Some (Inr (1, s'))" "length ps = Suc (Suc (Suc (Suc 0)))" "inp s' = [98]" "live s' = h'"
    "allocs 0 (zip ps [97, 10, 115, 113]) (\<lambda>_. None) h'"
    by (auto simp: demo_world_def)
  then show ?thesis by (intro exI [of _ ps] exI [of _ s'] exI [of _ h']) simp
qed

text \<open>\<open>main\<close> of \<^verbatim>\<open>c06e2.c\<close>. If the log file cannot be opened it returns 0 after the greeting. Otherwise it does the same as the
  other program but skips line feeds, and returns 1 with the log file closed; the log has a line for
  each iteration, with the character of the iteration before (the digit 1 in the first) and the address of the block.\<close>

lemma c06e2_main_run:
  assumes ok: "libc_ok L V fmt" and i: "inp (V s) = cs @ 113 # rest" "113 \<notin> set cs" "length cs < 134217720"
    and ds: "ds = filter (\<lambda>c. c \<noteq> 10) cs"
  shows "(\<exists>s'. c06e2_main L s = Some (Inr (0, s')) \<and> V s' = (V s)\<lparr>outp := outp (V s) @ chars ''Hello, World!\<newline>1''\<rparr>) \<or>
    (\<exists>ps s' h' fp. c06e2_main L s = Some (Inr (1, s')) \<and> length ps = Suc (length ds) \<and> streams (V s) fp = None \<and>
      V s' = (V s)\<lparr>inp := rest, live := h',
        outp := outp (V s) @ chars ''Hello, World!\<newline>1'' @
          concat (map2 (\<lambda>p c. fmt ''. buffer=%x\<newline>'' [p] @ [word_of_int c]) ps (ds @ [113])) @
          fmt ''\<newline>Exit from main()...\<newline>'' [],
        files := (files (V s))(''log.txt'' := Some (concat (map2 (\<lambda>c p. fmt ''%c. buffer=%x\<newline>'' [word_of_int c, p]) (49 # ds) ps)))\<rparr> \<and>
      allocs 0 (zip ps (ds @ [113])) (live (V s)) h')"
proof -
  let ?s = "lc_write L 2 ''Hello, World!\<newline>1'' 15 s"
  obtain fp s1 where f: "lc_fopen L ''log.txt'' ''w'' ?s = (fp, s1)" "fp = 0 \<and> V s1 = V ?s \<or> fp \<noteq> 0 \<and> streams (V ?s) fp = None \<and>
      V s1 = (V ?s)\<lparr>streams := (streams (V ?s))(fp := Some ''log.txt''), files := (files (V ?s))(''log.txt'' := Some [])\<rparr>"
    using libc_laws(8) [OF ok] by blast
  from f(2) show ?thesis
  proof (elim disjE conjE)
    assume "fp = 0" "V s1 = V ?s"
    then show ?thesis using f(1) hello_world [OF ok, of s] by (simp add: c06e2_main_def)
  next
    assume fp: "fp \<noteq> 0" "streams (V ?s) fp = None"
      "V s1 = (V ?s)\<lparr>streams := (streams (V ?s))(fp := Some ''log.txt''), files := (files (V ?s))(''log.txt'' := Some [])\<rparr>"
    obtain ps s' h' where r: "c06e2_loop L fp 49 (int 0) s1 = Some (Inr s')" "length ps = Suc (length ds)"
      "V s' = (V s1)\<lparr>inp := rest, live := h',
        outp := outp (V s1) @ concat (map2 (\<lambda>p c. fmt ''. buffer=%x\<newline>'' [p] @ [word_of_int c]) ps (ds @ [113])) @
          fmt ''\<newline>Exit from main()...\<newline>'' [],
        files := (files (V s1))(''log.txt'' := Some ([] @ concat (map2 (\<lambda>c p. fmt ''%c. buffer=%x\<newline>'' [word_of_int c, p]) (49 # ds) ps)))\<rparr>"
      "allocs 0 (zip ps (ds @ [113])) (live (V s1)) h'"
      using c06e2_loop_run [OF ok, of s1 cs rest 0 fp "''log.txt''" "[]" ds 49] i ds fp(3) hello_world [OF ok, of s] by auto
    have "streams (V s') fp = Some ''log.txt''" using r(3) fp(3) by simp
    then have c: "V (lc_fclose L fp s') = (V s')\<lparr>streams := (streams (V s'))(fp := None)\<rparr>" by (rule libc_laws(10) [OF ok])
    show ?thesis
      by (rule disjI2, intro exI [of _ ps] exI [of _ "lc_fclose L fp s'"] exI [of _ h'] exI [of _ fp])
        (use f(1) fp r c hello_world [OF ok, of s] in \<open>simp add: c06e2_main_def fun_upd_idem\<close>)
  qed
qed

lemma demo_log_opens: "c06e2_main demo_libc demo_world \<noteq> Some (Inr (0, s'))"
  by (auto simp: c06e2_main_def demo_libc_def demo_world_def Let_def rbind_eq_Inr)

lemma c06e2_main_run_example:
  "\<exists>ps s' h'. c06e2_main demo_libc demo_world = Some (Inr (1, s')) \<and> length ps = 3 \<and> inp s' = [98] \<and>
      allocs 0 (zip ps [97, 115, 113]) (\<lambda>_. None) h' \<and> live s' = h' \<and> streams s' = (\<lambda>_. None)"
proof -
  from c06e2_main_run [OF demo_libc_ok, of demo_world "[97, 10, 115]" "[98]"] obtain ps s' h' where
    "c06e2_main demo_libc demo_world = Some (Inr (1, s'))" "length ps = Suc (Suc (Suc 0))" "inp s' = [98]" "live s' = h'"
    "allocs 0 (zip ps [97, 115, 113]) (\<lambda>_. None) h'" "streams s' = (\<lambda>_. None)"
    using demo_log_opens by (auto simp: demo_world_def)
  then show ?thesis by (intro exI [of _ ps] exI [of _ s'] exI [of _ h']) simp
qed

end
