(* ===== verification/Date.thy ===== *)
theory Date
  imports Prelude
begin

text \<open>
  Calendar conversions: \<^verbatim>\<open>c07/c07e3/date.c\<close> (\<open>GregorianDay\<close>, \<open>to_tm\<close>, \<open>mktime\<close>) and the BCD
  helpers and \<open>struct rtc_time\<close> of \<^verbatim>\<open>c07/c07e3/rtc.h\<close>. Signed \<open>int\<close> fields are integers, and
  \<open>/\<close> and \<open>%\<close> on them are the truncating \<open>sdiv\<close> and \<open>smod\<close>; the values stay inside the 32-bit
  range for every argument of \<open>to_tm\<close>: the year loop stops at 2038 at the latest. \<open>mktime\<close> works on
  \<open>unsigned int\<close> and is modelled on 32-bit words. The static table \<open>month_days\<close>, which
  \<open>to_tm\<close> changes and restores, is passed in and returned.
  The reference calendar is \<open>epoch_seconds\<close>: the sum of the lengths of the years and months
  before the date, with the Gregorian leap rule.
\<close>

section \<open>The code\<close>

record rtc_time =
  tm_sec :: int
  tm_min :: int
  tm_hour :: int
  tm_mday :: int
  tm_mon :: int
  tm_year :: int
  tm_wday :: int
  tm_yday :: int
  tm_isdst :: int

definition bcd2bin :: "u8 \<Rightarrow> u32" where
  "bcd2bin val = ucast (val AND 0x0f) + ucast (drop_bit 4 val) * 10"

definition bin2bcd :: "u32 \<Rightarrow> u8" where
  "bin2bcd val = ucast (push_bit 4 (val div 10) OR (val mod 10))"

definition FEBRUARY :: int where [simp]: "FEBRUARY = 2"
definition STARTOFTIME :: int where [simp]: "STARTOFTIME = 1970"
definition SECDAY :: int where [simp]: "SECDAY = 86400"

definition leapyear :: "int \<Rightarrow> bool" where
  "leapyear year \<longleftrightarrow> year smod 4 = 0"

definition days_in_year :: "int \<Rightarrow> int" where
  "days_in_year a = (if leapyear a then 366 else 365)"

definition month_days :: "int list" where
  "month_days = [31, 28, 31, 30, 31, 30, 31, 31, 30, 31, 30, 31]"

text \<open>An array access, with the fault of an index outside the array.\<close>

definition array_get :: "'a list \<Rightarrow> int \<Rightarrow> 'a result" where
  "array_get xs i = (if 0 \<le> i \<and> i < int (length xs) then Inr (xs ! nat i) else Inl Out_of_bounds)"

definition GregorianDay :: "rtc_time \<Rightarrow> rtc_time result" where
  "GregorianDay tm =
     (let MonthOffset = [0, 31, 59, 90, 120, 151, 181, 212, 243, 273, 304, 334];
          lastYear = tm_year tm - 1;
          leapsToDate = lastYear sdiv 4 - lastYear sdiv 100 + lastYear sdiv 400;
          day = (if tm_year tm smod 4 = 0 \<and> (tm_year tm smod 100 \<noteq> 0 \<or> tm_year tm smod 400 = 0) \<and>
                    2 < tm_mon tm
                 then 1 else 0)
      in case array_get MonthOffset (tm_mon tm - 1) of
           Inl f \<Rightarrow> Inl f
         | Inr off \<Rightarrow>
             let day = day + (lastYear * 365 + leapsToDate + off + tm_mday tm)
             in Inr (tm\<lparr>tm_wday := day smod 7\<rparr>))"

text \<open>The loop over the years: it returns the year and the days left.\<close>

function to_tm_years :: "int \<Rightarrow> int \<Rightarrow> int \<times> int" where
  "to_tm_years i day =
     (if days_in_year i \<le> day then to_tm_years (i + 1) (day - days_in_year i) else (i, day))"
  by pat_completeness auto
termination
  by (relation "measure (\<lambda>(i, day). nat day)") (auto simp: days_in_year_def split: if_splits)

text \<open>The loop over the months, with the table it reads.\<close>

function to_tm_months :: "int list \<Rightarrow> int \<Rightarrow> int \<Rightarrow> (int \<times> int) result" where
  "to_tm_months mds i day =
     (if 0 \<le> i - 1 \<and> i - 1 < int (length mds)
      then if mds ! nat (i - 1) \<le> day then to_tm_months mds (i + 1) (day - mds ! nat (i - 1))
           else Inr (i, day)
      else Inl Out_of_bounds)"
  by pat_completeness auto
termination
  by (relation "measure (\<lambda>(mds, i, day). nat (int (length mds) + 1 - i))") auto

declare to_tm_years.simps [simp del] to_tm_months.simps [simp del]

definition to_tm :: "int \<Rightarrow> rtc_time \<Rightarrow> int list \<Rightarrow> (rtc_time \<times> int list) result" where
  "to_tm tim tm mds =
     (let day = tim sdiv SECDAY;
          hms = tim smod SECDAY;
          tm = tm\<lparr>tm_hour := hms sdiv 3600, tm_min := hms smod 3600 sdiv 60,
                  tm_sec := hms smod 3600 smod 60\<rparr>;
          (i, day) = to_tm_years STARTOFTIME day;
          tm = tm\<lparr>tm_year := i\<rparr>;
          mds = (if leapyear (tm_year tm) then list_update mds (nat (FEBRUARY - 1)) 29 else mds)
      in case to_tm_months mds 1 day of
           Inl f \<Rightarrow> Inl f
         | Inr (i, day) \<Rightarrow>
             let mds = list_update mds (nat (FEBRUARY - 1)) 28;
                 tm = tm\<lparr>tm_mon := i\<rparr>;
                 tm = tm\<lparr>tm_mday := day + 1\<rparr>
             in case GregorianDay tm of Inl f \<Rightarrow> Inl f | Inr tm \<Rightarrow> Inr (tm, mds))"

definition mktime :: "u32 \<Rightarrow> u32 \<Rightarrow> u32 \<Rightarrow> u32 \<Rightarrow> u32 \<Rightarrow> u32 \<Rightarrow> u32" where
  "mktime year mon day hour minute sec =
     (let mon = mon - 2;
          (mon, year) = (if sint mon \<le> 0 then (mon + 12, year - 1) else (mon, year))
      in (((year div 4 - year div 100 + year div 400 + 367 * mon div 12 + day + year * 365 - 719499)
             * 24 + hour) * 60 + minute) * 60 + sec)"

section \<open>The reference calendar\<close>

definition leap_year :: "int \<Rightarrow> bool" where
  "leap_year y \<longleftrightarrow> 4 dvd y \<and> (\<not> 100 dvd y \<or> 400 dvd y)"

definition year_length :: "int \<Rightarrow> int" where
  "year_length y = (if leap_year y then 366 else 365)"

definition month_length :: "int \<Rightarrow> int \<Rightarrow> int" where
  "month_length y m =
     (if m = 2 then if leap_year y then 29 else 28 else if m \<in> {4, 6, 9, 11} then 30 else 31)"

definition days_to_year :: "int \<Rightarrow> int" where
  "days_to_year y = (\<Sum>i\<in>{1970..<y}. year_length i)"

definition days_to_month :: "int \<Rightarrow> int \<Rightarrow> int" where
  "days_to_month y m = (\<Sum>k\<in>{1..<m}. month_length y k)"

definition epoch_seconds :: "rtc_time \<Rightarrow> int" where
  "epoch_seconds tm =
     (days_to_year (tm_year tm) + days_to_month (tm_year tm) (tm_mon tm) + (tm_mday tm - 1)) * 86400
     + tm_hour tm * 3600 + tm_min tm * 60 + tm_sec tm"

definition valid_time :: "rtc_time \<Rightarrow> bool" where
  "valid_time tm \<longleftrightarrow>
     1970 \<le> tm_year tm \<and> 1 \<le> tm_mon tm \<and> tm_mon tm \<le> 12 \<and>
     1 \<le> tm_mday tm \<and> tm_mday tm \<le> month_length (tm_year tm) (tm_mon tm) \<and>
     0 \<le> tm_hour tm \<and> tm_hour tm < 24 \<and> 0 \<le> tm_min tm \<and> tm_min tm < 60 \<and>
     0 \<le> tm_sec tm \<and> tm_sec tm < 60"

section \<open>Arithmetic of the calendar\<close>

lemma sdiv_nonneg: "0 \<le> a \<Longrightarrow> 0 < b \<Longrightarrow> a sdiv b = a div (b :: int)"
  by (auto simp: signed_divide_int_def sgn_if)

lemma smod_nonneg: "0 \<le> a \<Longrightarrow> 0 < b \<Longrightarrow> a smod b = a mod (b :: int)"
  using div_mult_mod_eq [of a b] by (auto simp: signed_modulo_int_def sdiv_nonneg sgn_if algebra_simps split: if_splits)

lemma div_pred:
  fixes y k :: int
  assumes "0 < k"
  shows "y div k = (y - 1) div k + of_bool (k dvd y)"
proof (cases "k dvd y")
  case True
  then obtain q where q: "y = k * q" by blast
  have "(y - 1) div k = q - 1"
    by (rule int_div_pos_eq [where r = "k - 1"]) (use assms q in \<open>simp_all add: algebra_simps\<close>)
  then show ?thesis using q assms by simp
next
  case False
  then have "0 < y mod k" using assms by (simp add: dvd_eq_mod_eq_0 order_neq_le_trans)
  moreover have "y mod k < k" using assms by simp
  ultimately have "(y - 1) div k = y div k"
    by (intro int_div_pos_eq [where r = "y mod k - 1"]) (simp_all add: mult_div_mod_eq)
  then show ?thesis using False by simp
qed

lemma year_length_of_bool:
  "year_length y = 365 + of_bool (4 dvd y) - of_bool (100 dvd y) + of_bool (400 dvd y)"
  by (auto simp: year_length_def leap_year_def)

lemma days_to_year_Suc: "1970 \<le> y \<Longrightarrow> days_to_year (y + 1) = days_to_year y + year_length y"
proof -
  assume "1970 \<le> y"
  then have "{1970..<y + 1} = insert y {1970..<y}" by auto
  then show ?thesis by (simp add: days_to_year_def)
qed

lemma days_to_year_closed:
  "1970 \<le> y \<Longrightarrow>
   days_to_year y = 365 * (y - 1970) + ((y - 1) div 4 - (y - 1) div 100 + (y - 1) div 400) - 477"
proof (induction y rule: int_ge_induct)
  case base
  then show ?case by (simp add: days_to_year_def)
next
  case (step y)
  then show ?case using div_pred [of 4 y] div_pred [of 100 y] div_pred [of 400 y]
    by (simp add: days_to_year_Suc year_length_of_bool)
qed

lemma month_cases:
  assumes "1 \<le> m" "m \<le> (12::int)"
  obtains "m = 1" | "m = 2" | "m = 3" | "m = 4" | "m = 5" | "m = 6"
    | "m = 7" | "m = 8" | "m = 9" | "m = 10" | "m = 11" | "m = 12"
proof -
  have "m = 1 \<or> m = 2 \<or> m = 3 \<or> m = 4 \<or> m = 5 \<or> m = 6 \<or> m = 7 \<or> m = 8 \<or> m = 9 \<or> m = 10 \<or> m = 11 \<or> m = 12"
    using assms by presburger
  then show thesis using that by blast
qed

lemma days_to_month_Suc: "1 \<le> m \<Longrightarrow> days_to_month y (m + 1) = days_to_month y m + month_length y m"
proof -
  assume "1 \<le> m"
  then have "{1..<m + 1} = insert m {1..<m}" by auto
  then show ?thesis by (simp add: days_to_month_def)
qed

lemma days_to_month_values:
  "days_to_month y 1 = 0" "days_to_month y 2 = 31" "days_to_month y 3 = 59 + of_bool (leap_year y)"
  "days_to_month y 4 = 90 + of_bool (leap_year y)" "days_to_month y 5 = 120 + of_bool (leap_year y)"
  "days_to_month y 6 = 151 + of_bool (leap_year y)" "days_to_month y 7 = 181 + of_bool (leap_year y)"
  "days_to_month y 8 = 212 + of_bool (leap_year y)" "days_to_month y 9 = 243 + of_bool (leap_year y)"
  "days_to_month y 10 = 273 + of_bool (leap_year y)" "days_to_month y 11 = 304 + of_bool (leap_year y)"
  "days_to_month y 12 = 334 + of_bool (leap_year y)" "days_to_month y 13 = year_length y"
proof -
  show v1: "days_to_month y 1 = 0" by (simp add: days_to_month_def)
  show v2: "days_to_month y 2 = 31" using days_to_month_Suc [of 1 y] v1 by (simp add: month_length_def)
  show v3: "days_to_month y 3 = 59 + of_bool (leap_year y)"
    using days_to_month_Suc [of 2 y] v2 by (simp add: month_length_def)
  show v4: "days_to_month y 4 = 90 + of_bool (leap_year y)"
    using days_to_month_Suc [of 3 y] v3 by (simp add: month_length_def)
  show v5: "days_to_month y 5 = 120 + of_bool (leap_year y)"
    using days_to_month_Suc [of 4 y] v4 by (simp add: month_length_def)
  show v6: "days_to_month y 6 = 151 + of_bool (leap_year y)"
    using days_to_month_Suc [of 5 y] v5 by (simp add: month_length_def)
  show v7: "days_to_month y 7 = 181 + of_bool (leap_year y)"
    using days_to_month_Suc [of 6 y] v6 by (simp add: month_length_def)
  show v8: "days_to_month y 8 = 212 + of_bool (leap_year y)"
    using days_to_month_Suc [of 7 y] v7 by (simp add: month_length_def)
  show v9: "days_to_month y 9 = 243 + of_bool (leap_year y)"
    using days_to_month_Suc [of 8 y] v8 by (simp add: month_length_def)
  show v10: "days_to_month y 10 = 273 + of_bool (leap_year y)"
    using days_to_month_Suc [of 9 y] v9 by (simp add: month_length_def)
  show v11: "days_to_month y 11 = 304 + of_bool (leap_year y)"
    using days_to_month_Suc [of 10 y] v10 by (simp add: month_length_def)
  show v12: "days_to_month y 12 = 334 + of_bool (leap_year y)"
    using days_to_month_Suc [of 11 y] v11 by (simp add: month_length_def)
  show "days_to_month y 13 = year_length y"
    using days_to_month_Suc [of 12 y] v12 by (simp add: month_length_def year_length_def)
qed

lemma days_to_month_table:
  "1 \<le> m \<Longrightarrow> m \<le> 12 \<Longrightarrow> days_to_month y m =
     [0, 31, 59, 90, 120, 151, 181, 212, 243, 273, 304, 334] ! nat (m - 1) + of_bool (leap_year y \<and> 2 < m)"
  by (erule (1) month_cases) (simp_all add: days_to_month_values)

lemma leapyear_iff: "0 \<le> y \<Longrightarrow> leapyear y \<longleftrightarrow> 4 dvd y"
  by (simp add: leapyear_def smod_nonneg dvd_eq_mod_eq_0)

lemma leap_year_20th: "1970 \<le> y \<Longrightarrow> y < 2100 \<Longrightarrow> leap_year y \<longleftrightarrow> 4 dvd y"
proof -
  assume "1970 \<le> y" "y < 2100"
  then have "100 dvd y \<Longrightarrow> y = 2000" by presburger
  then show ?thesis by (auto simp: leap_year_def)
qed

lemma days_in_year_length: "1970 \<le> y \<Longrightarrow> y < 2100 \<Longrightarrow> days_in_year y = year_length y"
  by (simp add: days_in_year_def year_length_def leapyear_iff leap_year_20th)

lemma to_tm_years_bounds:
  assumes "to_tm_years i day = (y, d)" and "0 \<le> day" and "1970 \<le> i"
  shows "i \<le> y \<and> 0 \<le> d \<and> d < days_in_year y \<and> 365 * (y - i) \<le> day - d"
  using assms
proof (induction i day rule: to_tm_years.induct)
  case (1 i day)
  show ?case
  proof (cases "days_in_year i \<le> day")
    case True
    then have "to_tm_years (i + 1) (day - days_in_year i) = (y, d)"
      using "1.prems"(1) by (simp add: to_tm_years.simps [of i day])
    from "1.IH" [OF True this] True "1.prems" show ?thesis
      by (auto simp: days_in_year_def split: if_splits)
  next
    case False
    then show ?thesis using "1.prems" by (simp add: to_tm_years.simps [of i day])
  qed
qed

lemma to_tm_years_days:
  assumes "to_tm_years i day = (y, d)" and "1970 \<le> i" and "y < 2100" and "0 \<le> day"
  shows "days_to_year i + day = days_to_year y + d"
  using assms
proof (induction i day rule: to_tm_years.induct)
  case (1 i day)
  show ?case
  proof (cases "days_in_year i \<le> day")
    case True
    then have eq: "to_tm_years (i + 1) (day - days_in_year i) = (y, d)"
      using "1.prems"(1) by (simp add: to_tm_years.simps [of i day])
    then have "i + 1 \<le> y" using to_tm_years_bounds [OF eq] True "1.prems"(2) by simp
    then have "days_in_year i = year_length i"
      using "1.prems" by (simp add: days_in_year_length)
    with "1.IH" [OF True eq] True "1.prems" show ?thesis by (simp add: days_to_year_Suc)
  next
    case False
    then show ?thesis using "1.prems" by (simp add: to_tm_years.simps [of i day])
  qed
qed
lemma to_tm_months_days:
  assumes mds: "length mds = 12" "\<And>m. 1 \<le> m \<Longrightarrow> m \<le> 12 \<Longrightarrow> mds ! nat (m - 1) = month_length y m"
    and "1 \<le> i" "i \<le> 12" "0 \<le> day" "days_to_month y i + day < year_length y"
  shows "\<exists>m d. to_tm_months mds i day = Inr (m, d) \<and> 1 \<le> m \<and> m \<le> 12 \<and> 0 \<le> d \<and> d < month_length y m
     \<and> days_to_month y m + d = days_to_month y i + day"
  using assms(3-)
proof (induction "nat (12 - i)" arbitrary: i day rule: less_induct)
  case less
  have t: "mds ! nat (i - 1) = month_length y i" using mds(2) less.prems by simp
  have unf: "to_tm_months mds i day =
      (if month_length y i \<le> day then to_tm_months mds (i + 1) (day - month_length y i) else Inr (i, day))"
    using less.prems mds(1) t by (simp add: to_tm_months.simps [of mds i day])
  show ?case
  proof (cases "month_length y i \<le> day")
    case True
    have eq: "days_to_month y (i + 1) + (day - month_length y i) = days_to_month y i + day"
      using less.prems(1) by (simp add: days_to_month_Suc)
    have "i \<noteq> 12" 
      using less.prems eq True days_to_month_values(13) [of y] by auto
    then have "i + 1 \<le> 12" using less.prems(2) by simp
    then show ?thesis using less.hyps [of "i + 1" "day - month_length y i"] True less.prems eq unf by simp
  next
    case False
    then show ?thesis using unf less.prems by simp
  qed
qed

lemma smod_4_100_400:
  "0 \<le> y \<Longrightarrow> y smod 4 = 0 \<and> (y smod 100 \<noteq> 0 \<or> y smod 400 = 0) \<longleftrightarrow> leap_year y"
  by (simp add: smod_nonneg leap_year_def dvd_eq_mod_eq_0)

lemma GregorianDay_weekday:
  assumes "1970 \<le> tm_year tm" "1 \<le> tm_mon tm" "tm_mon tm \<le> 12" "0 \<le> tm_mday tm"
  shows "GregorianDay tm = Inr (tm\<lparr>tm_wday :=
     (days_to_year (tm_year tm) + days_to_month (tm_year tm) (tm_mon tm) + tm_mday tm + 3) mod 7\<rparr>)"
proof -
  let ?y = "tm_year tm" and ?m = "tm_mon tm"
  let ?off = "[0, 31, 59, 90, 120, 151, 181, 212, 243, 273, 304, 334 :: int] ! nat (?m - 1)"
  let ?leap = "if ?y smod 4 = 0 \<and> (?y smod 100 \<noteq> 0 \<or> ?y smod 400 = 0) \<and> 2 < ?m then 1 else 0 :: int"
  let ?N = "?leap + ((?y - 1) * 365 + ((?y - 1) sdiv 4 - (?y - 1) sdiv 100 + (?y - 1) sdiv 400) + ?off + tm_mday tm)"
  have leap: "?leap = of_bool (leap_year ?y \<and> 2 < ?m)"
    using smod_4_100_400 [of ?y] assms(1) by auto
  have N: "?N = days_to_year ?y + days_to_month ?y ?m + tm_mday tm + 3 + 7 * 102737"
    unfolding leap using assms
    by (simp add: sdiv_nonneg days_to_year_closed days_to_month_table del: of_bool_conj)
  have nn: "0 \<le> days_to_year ?y + days_to_month ?y ?m + tm_mday tm + 3 + 7 * 102737"
  proof -
    have "0 \<le> days_to_year ?y" unfolding days_to_year_def by (rule sum_nonneg) (simp add: year_length_def)
    moreover have "0 \<le> days_to_month ?y ?m"
      unfolding days_to_month_def by (rule sum_nonneg) (simp add: month_length_def)
    ultimately show ?thesis using assms(4) by simp
  qed
  have "?N smod 7 = (days_to_year ?y + days_to_month ?y ?m + tm_mday tm + 3) mod 7"
    unfolding N smod_nonneg [OF nn zero_less_numeral] by (rule mod_mult_self2)
  then show ?thesis using assms
    by (simp add: GregorianDay_def array_get_def Let_def)
qed

lemma month_table:
  "length (if leapyear y then list_update month_days (nat (FEBRUARY - 1)) 29 else month_days) = 12"
  "1970 \<le> y \<Longrightarrow> y < 2100 \<Longrightarrow> 1 \<le> m \<Longrightarrow> m \<le> 12 \<Longrightarrow>
    (if leapyear y then list_update month_days (nat (FEBRUARY - 1)) 29 else month_days) ! nat (m - 1) = month_length y m"
   apply (simp add: month_days_def)
  apply (erule (1) month_cases)
  apply  (simp_all add: month_days_def month_length_def leapyear_iff leap_year_20th)
  done

lemma month_table_restored: 
  "list_update (if leapyear y then list_update month_days (nat (FEBRUARY - 1)) 29 else month_days) (nat (FEBRUARY - 1)) 28 = month_days"
  by (simp add: month_days_def)

lemma clock_fields:
  fixes hms :: int
  assumes "0 \<le> hms" "hms < 86400"
  shows "0 \<le> hms div 3600" "hms div 3600 < 24" "0 \<le> hms mod 3600 div 60" "hms mod 3600 div 60 < 60"
proof -
  show "0 \<le> hms div 3600" "hms div 3600 < 24" using assms by linarith+
  have "0 \<le> hms mod 3600" "hms mod 3600 < 3600" by simp_all
  then show "0 \<le> hms mod 3600 div 60" "hms mod 3600 div 60 < 60" by linarith+
qed

lemma to_tm_epoch:
  assumes "0 \<le> tim" and "tim < 2 ^ 31"
  shows "\<exists>tm'. to_tm tim tm month_days = Inr (tm', month_days) \<and> valid_time tm' \<and> tm_year tm' \<le> 2038 \<and>
     epoch_seconds tm' = tim \<and> tm_wday tm' = (tim div 86400 + 4) mod 7 \<and>
     tm_yday tm' = tm_yday tm \<and> tm_isdst tm' = tm_isdst tm"
proof -
  define day where "day = tim div 86400"
  define hms where "hms = tim mod 86400"
  have tim: "tim = day * 86400 + hms" by (simp add: day_def hms_def)
  have day: "0 \<le> day" "day \<le> 24855" using assms by (auto simp: day_def)
  have hms: "0 \<le> hms" "hms < 86400" by (simp_all add: hms_def)
  obtain y d where yd: "to_tm_years 1970 day = (y, d)" by fastforce
  have y: "1970 \<le> y" "0 \<le> d" "d < days_in_year y" "365 * (y - 1970) \<le> day - d"
    using to_tm_years_bounds [OF yd day(1)] by simp_all
  have y': "y \<le> 2038"
    using y(2,4) day(2) by (simp add: algebra_simps)
  have dy: "day = days_to_year y + d"
    using to_tm_years_days [OF yd] day(1) y' by (simp add: days_to_year_def)
  have dl: "d < year_length y" using y y' by (simp add: days_in_year_length)
  define mds where "mds = (if leapyear y then list_update month_days (nat (FEBRUARY - 1)) 29 else month_days)"
  obtain m e where me: "to_tm_months mds 1 d = Inr (m, e)" "1 \<le> m" "m \<le> 12" "0 \<le> e" "e < month_length y m"
      "days_to_month y m + e = d"
    using to_tm_months_days [of mds y 1 d] month_table [of y] y y' dl
    by (auto simp: mds_def days_to_month_values)
  define tm1 where "tm1 = tm\<lparr>tm_hour := hms div 3600, tm_min := hms mod 3600 div 60,
      tm_sec := hms mod 3600 mod 60, tm_year := y, tm_mon := m, tm_mday := e + 1\<rparr>"
  define tm2 where "tm2 = tm1\<lparr>tm_wday := (day + 4) mod 7\<rparr>"
  have w: "days_to_year y + days_to_month y m + (e + 1) + 3 = day + 4" using me(6) dy by simp
  have "GregorianDay tm1 = Inr (tm1\<lparr>tm_wday := (days_to_year y + days_to_month y m + (e + 1) + 3) mod 7\<rparr>)"
    using GregorianDay_weekday [of tm1] y(1) me(2-4) by (simp add: tm1_def)
  then have "GregorianDay tm1 = Inr tm2" unfolding w tm2_def .
  then have "to_tm tim tm month_days = Inr (tm2, month_days)"
    using yd me(1) hms assms month_table_restored [of y]
    by (simp add: to_tm_def sdiv_nonneg smod_nonneg tm1_def mds_def Let_def flip: day_def hms_def)
  moreover have "epoch_seconds tm2 = tim"
    using me(6) dy tim by (simp add: epoch_seconds_def tm2_def tm1_def) 
  moreover have "valid_time tm2"
    using me y clock_fields [OF hms] by (simp add: valid_time_def tm2_def tm1_def)
  moreover have "tm_year tm2 = y" "tm_wday tm2 = (tim div 86400 + 4) mod 7"
      "tm_yday tm2 = tm_yday tm" "tm_isdst tm2 = tm_isdst tm"
    by (simp_all add: tm2_def tm1_def day_def)
  ultimately show ?thesis using y' by blast
qed


lemma word_of_int_div:
  assumes "0 \<le> a" "a < 4294967296" "0 \<le> b" "b < 4294967296"
  shows "(word_of_int a :: u32) div word_of_int b = word_of_int (a div b)"
  using assms by (simp add: word_div_def uint_word_of_int)

lemma mktime_month:
  "1 \<le> m \<Longrightarrow> m \<le> 12 \<Longrightarrow> 367 * (if m \<le> 2 then m + 10 else m - 2) div 12
    = days_to_month y m + (if m \<le> 2 then 336 else - 29 - of_bool (leap_year y))"
  by (erule (1) month_cases) (simp_all add: days_to_month_values)

lemma leap_days_before:
  "y div 4 - y div 100 + y div 400
    = (y - 1) div 4 - (y - 1) div 100 + (y - 1) div 400 + of_bool (leap_year (y :: int))"
  using div_pred [of 4 y] div_pred [of 100 y] div_pred [of 400 y] by (auto simp: leap_year_def)

lemma mktime_days:
  fixes y m d :: int
  assumes "1970 \<le> y" "1 \<le> m" "m \<le> 12"
  defines "Y \<equiv> (if m \<le> 2 then y - 1 else y)" and "M \<equiv> (if m \<le> 2 then m + 10 else m - 2)"
  shows "Y div 4 - Y div 100 + Y div 400 + 367 * M div 12 + d + Y * 365 - 719499
    = days_to_year y + days_to_month y m + (d - 1)"
proof -
  define a where "a = (y - 1) div 4 - (y - 1) div 100 + (y - 1) div 400"
  have year: "days_to_year y = 365 * (y - 1970) + a - 477"
    unfolding a_def by (rule days_to_year_closed [OF assms(1)])
  have leap: "y div 4 - y div 100 + y div 400 = a + of_bool (leap_year y)"
    unfolding a_def by (rule leap_days_before)
  have month: "367 * M div 12 = days_to_month y m + (if m \<le> 2 then 336 else - 29 - of_bool (leap_year y))"
    unfolding M_def by (rule mktime_month [OF assms(2,3)])
  have "Y div 4 - Y div 100 + Y div 400 = a + (if m \<le> 2 then 0 else of_bool (leap_year y))"
    using leap by (simp only: Y_def a_def split: if_split) simp
  then show ?thesis unfolding year month by (simp add: Y_def)
qed

lemma mktime_epoch:
  assumes "1970 \<le> y" "y < 4294967296" "1 \<le> m" "m \<le> 12"
  shows "mktime (word_of_int y) (word_of_int m) (word_of_int d) (word_of_int h) (word_of_int mi) (word_of_int s)
    = word_of_int ((days_to_year y + days_to_month y m + (d - 1)) * 86400 + h * 3600 + mi * 60 + s)"
proof -
  let ?Y = "if m \<le> 2 then y - 1 else y" and ?M = "if m \<le> 2 then m + 10 else m - 2"
  have adj: "(if sint ((word_of_int m :: u32) - 2) \<le> 0
      then (word_of_int m - 2 + 12, word_of_int y - 1) else (word_of_int m - 2, word_of_int y))
      = (word_of_int ?M :: u32, word_of_int ?Y :: u32)"
    using assms(3,4) by (cases rule: month_cases) (simp_all)
  have div: "(word_of_int ?Y :: u32) div 4 = word_of_int (?Y div 4)"
      "(word_of_int ?Y :: u32) div 100 = word_of_int (?Y div 100)"
      "(word_of_int ?Y :: u32) div 400 = word_of_int (?Y div 400)"
      "367 * (word_of_int ?M :: u32) div 12 = word_of_int (367 * ?M div 12)"
    using word_of_int_div [of ?Y 4] word_of_int_div [of ?Y 100] word_of_int_div [of ?Y 400]
      word_of_int_div [of "367 * ?M" 12] assms by simp_all
  have "mktime (word_of_int y) (word_of_int m) (word_of_int d) (word_of_int h) (word_of_int mi) (word_of_int s)
    = (((word_of_int (?Y div 4 - ?Y div 100 + ?Y div 400 + 367 * ?M div 12 + d + ?Y * 365 - 719499))
         * 24 + word_of_int h) * 60 + word_of_int mi) * 60 + word_of_int s"
    unfolding mktime_def Let_def adj prod.case div by simp
  also have "\<dots> = word_of_int ((days_to_year y + days_to_month y m + (d - 1)) * 86400 + h * 3600 + mi * 60 + s)"
    unfolding mktime_days [OF assms(1,3,4)] by (simp add: algebra_simps)
  finally show ?thesis .
qed



lemma step_unique:
  fixes f :: "int \<Rightarrow> int"
  assumes mono: "\<And>a b. lo \<le> a \<Longrightarrow> a \<le> b \<Longrightarrow> f a \<le> f b"
    and "lo \<le> a" "lo \<le> b" "f a \<le> x" "x < f (a + 1)" "f b \<le> x" "x < f (b + 1)"
  shows "a = b"
proof (rule ccontr)
  assume "a \<noteq> b"
  then consider "a + 1 \<le> b" | "b + 1 \<le> a" by linarith
  then show False using mono [of "a + 1" b] mono [of "b + 1" a] assms(2-) by cases simp_all
qed

lemma days_to_year_mono: "1970 \<le> a \<Longrightarrow> a \<le> b \<Longrightarrow> days_to_year a \<le> days_to_year b"
  unfolding days_to_year_def by (rule sum_mono2) (auto simp: year_length_def)

lemma days_to_month_mono: "1 \<le> a \<Longrightarrow> a \<le> b \<Longrightarrow> days_to_month y a \<le> days_to_month y b"
  unfolding days_to_month_def by (rule sum_mono2) (auto simp: month_length_def)

lemma valid_time_day:
  assumes "valid_time tm"
  shows "days_to_month (tm_year tm) (tm_mon tm) \<le> days_to_month (tm_year tm) (tm_mon tm) + (tm_mday tm - 1)"
    and "days_to_month (tm_year tm) (tm_mon tm) + (tm_mday tm - 1) < days_to_month (tm_year tm) (tm_mon tm + 1)"
    and "0 \<le> days_to_month (tm_year tm) (tm_mon tm) + (tm_mday tm - 1)"
    and "days_to_month (tm_year tm) (tm_mon tm) + (tm_mday tm - 1) < year_length (tm_year tm)"
proof -
  let ?y = "tm_year tm" and ?m = "tm_mon tm"
  have v: "1 \<le> ?m" "?m \<le> 12" "1 \<le> tm_mday tm" "tm_mday tm \<le> month_length ?y ?m"
    using assms by (simp_all add: valid_time_def)
  then show lt: "days_to_month ?y ?m + (tm_mday tm - 1) < days_to_month ?y (?m + 1)"
    by (simp add: days_to_month_Suc)
  show "days_to_month ?y ?m \<le> days_to_month ?y ?m + (tm_mday tm - 1)" using v by simp
  show "0 \<le> days_to_month ?y ?m + (tm_mday tm - 1)"
    using v days_to_month_mono [of 1 ?m ?y] by (simp add: days_to_month_values)
  have "days_to_month ?y (?m + 1) \<le> year_length ?y"
    using v days_to_month_mono [of "?m + 1" 13 ?y] by (simp add: days_to_month_values)
  then show "days_to_month ?y ?m + (tm_mday tm - 1) < year_length ?y" using lt by simp
qed

lemma valid_time_fields:
  assumes "valid_time tm"
  defines "D \<equiv> epoch_seconds tm div 86400" and "S \<equiv> epoch_seconds tm mod 86400"
  shows "D = days_to_year (tm_year tm) + (days_to_month (tm_year tm) (tm_mon tm) + (tm_mday tm - 1))"
    and "tm_hour tm = S div 3600" and "tm_min tm = S mod 3600 div 60" and "tm_sec tm = S mod 60"
proof -
  let ?D = "days_to_year (tm_year tm) + (days_to_month (tm_year tm) (tm_mon tm) + (tm_mday tm - 1))"
  let ?S = "tm_hour tm * 3600 + tm_min tm * 60 + tm_sec tm"
  have b: "0 \<le> tm_hour tm" "tm_hour tm < 24" "0 \<le> tm_min tm" "tm_min tm < 60" "0 \<le> tm_sec tm" "tm_sec tm < 60"
    using assms by (simp_all add: valid_time_def)
  have e: "epoch_seconds tm = 86400 * ?D + ?S" by (simp add: epoch_seconds_def)
  show D: "D = ?D" unfolding D_def by (rule int_div_pos_eq [OF e]) (use b in linarith)+
  have S: "S = ?S" unfolding S_def by (rule int_mod_pos_eq [OF e]) (use b in linarith)+
  show "tm_hour tm = S div 3600"
    by (rule int_div_pos_eq [where r = "tm_min tm * 60 + tm_sec tm", symmetric]) (use b S in linarith)+
  have "S mod 3600 = tm_min tm * 60 + tm_sec tm"
    by (rule int_mod_pos_eq [where q = "tm_hour tm"]) (use b S in linarith)+
  then show "tm_min tm = S mod 3600 div 60" 
    by (intro int_div_pos_eq [where r = "tm_sec tm", symmetric]) (use b in linarith)+
  show "tm_sec tm = S mod 60"
    by (rule int_mod_pos_eq [where q = "tm_hour tm * 60 + tm_min tm", symmetric]) (use b S in \<open>simp_all\<close>)
qed

lemma epoch_seconds_inj:
  assumes v: "valid_time tm" "valid_time tm'" and e: "epoch_seconds tm = epoch_seconds tm'"
  shows "tm_year tm = tm_year tm' \<and> tm_mon tm = tm_mon tm' \<and> tm_mday tm = tm_mday tm' \<and>
         tm_hour tm = tm_hour tm' \<and> tm_min tm = tm_min tm' \<and> tm_sec tm = tm_sec tm'"
proof -
  let ?x = "epoch_seconds tm div 86400"
  have ge: "1970 \<le> tm_year tm" "1970 \<le> tm_year tm'" "1 \<le> tm_mon tm" "1 \<le> tm_mon tm'"
    using v by (simp_all add: valid_time_def)
  have y: "tm_year tm = tm_year tm'"
    using valid_time_fields(1) [OF v(1)] valid_time_fields(1) [OF v(2)] valid_time_day(3,4) [OF v(1)]
      valid_time_day(3,4) [OF v(2)] ge e
    by (intro step_unique [where f = days_to_year and lo = 1970 and x = ?x])
       (simp_all add: days_to_year_mono days_to_year_Suc)
  have d: "days_to_month (tm_year tm) (tm_mon tm) + (tm_mday tm - 1)
      = days_to_month (tm_year tm) (tm_mon tm') + (tm_mday tm' - 1)"
    using valid_time_fields(1) [OF v(1)] valid_time_fields(1) [OF v(2)] e y by simp
  have m: "tm_mon tm = tm_mon tm'"
    using valid_time_day(1,2) [OF v(1)] valid_time_day(1,2) [OF v(2)] ge d y
    by (intro step_unique [where f = "days_to_month (tm_year tm)" and lo = 1])
       (simp_all add: days_to_month_mono)
  have md: "tm_mday tm = tm_mday tm'" using d m y by simp
  from y m md show ?thesis
    using valid_time_fields(2-) [OF v(1)] valid_time_fields(2-) [OF v(2)] e by simp
qed

text \<open>A negative argument leaves both loops at once.\<close>

lemma to_tm_before_epoch:
  assumes "tim < 0"
  shows "to_tm tim tm month_days = Inr
     (tm\<lparr>tm_hour := tim smod 86400 sdiv 3600, tm_min := tim smod 86400 smod 3600 sdiv 60,
         tm_sec := tim smod 86400 smod 3600 smod 60, tm_year := 1970, tm_mon := 1,
         tm_mday := tim sdiv 86400 + 1, tm_wday := (719163 + tim sdiv 86400) smod 7\<rparr>, month_days)"
proof -
  have "tim sdiv 86400 \<le> 0"
    using assms by (simp add: signed_divide_int_def sgn_if)
  then have "to_tm_years 1970 (tim sdiv 86400) = (1970, tim sdiv 86400)"
      "to_tm_months month_days 1 (tim sdiv 86400) = Inr (1, tim sdiv 86400)"
    by (simp_all add: to_tm_years.simps to_tm_months.simps days_in_year_def month_days_def)
  moreover have "\<not> leapyear 1970" by (simp add: leapyear_iff)
  ultimately show ?thesis
    by (simp add: to_tm_def Let_def GregorianDay_def array_get_def) (simp add: month_days_def)
qed

lemma mktime_seconds:
  assumes "valid_time tm" and "tm_year tm < 2 ^ 32"
  shows "mktime (word_of_int (tm_year tm)) (word_of_int (tm_mon tm)) (word_of_int (tm_mday tm))
     (word_of_int (tm_hour tm)) (word_of_int (tm_min tm)) (word_of_int (tm_sec tm)) = word_of_int (epoch_seconds tm)"
  using assms mktime_epoch [of "tm_year tm" "tm_mon tm"]
  by (simp add: valid_time_def epoch_seconds_def)

lemma epoch_seconds_bounds:
  assumes "valid_time tm"
  shows "0 \<le> epoch_seconds tm" and "(tm_year tm - 1970) * 365 * 86400 \<le> epoch_seconds tm"
proof -
  have "365 * (tm_year tm - 1970) \<le> days_to_year (tm_year tm)"
  proof -
    have "(\<Sum>i\<in>{1970..<tm_year tm}. 365) \<le> days_to_year (tm_year tm)"
      unfolding days_to_year_def by (rule sum_mono) (simp add: year_length_def)
    then show ?thesis using assms by (simp add: valid_time_def)
  qed
  then show "(tm_year tm - 1970) * 365 * 86400 \<le> epoch_seconds tm"
    using assms valid_time_day(3) [OF assms] by (simp add: epoch_seconds_def valid_time_def)
  moreover have "0 \<le> (tm_year tm - 1970) * 365 * 86400" using assms by (simp add: valid_time_def)
  ultimately show "0 \<le> epoch_seconds tm" by linarith
qed

lemma mktime_uint:
  assumes "valid_time tm" and "epoch_seconds tm < 2 ^ 32"
  shows "uint (mktime (word_of_int (tm_year tm)) (word_of_int (tm_mon tm)) (word_of_int (tm_mday tm))
     (word_of_int (tm_hour tm)) (word_of_int (tm_min tm)) (word_of_int (tm_sec tm))) = epoch_seconds tm"
proof -
  have "tm_year tm < 2 ^ 32" using epoch_seconds_bounds(2) [OF assms(1)] assms(2) by simp
  with assms epoch_seconds_bounds(1) [OF assms(1)] show ?thesis
    by (simp add: mktime_seconds uint_word_of_int)
qed

lemma to_tm_of_valid:
  assumes "valid_time tm" and "epoch_seconds tm < 2 ^ 31"
  shows "to_tm (epoch_seconds tm) tm0 month_days =
    Inr (tm\<lparr>tm_wday := (epoch_seconds tm div 86400 + 4) mod 7, tm_yday := tm_yday tm0, tm_isdst := tm_isdst tm0\<rparr>,
         month_days)"
proof -
  obtain tm' where t: "to_tm (epoch_seconds tm) tm0 month_days = Inr (tm', month_days)" "valid_time tm'"
    "epoch_seconds tm' = epoch_seconds tm" "tm_wday tm' = (epoch_seconds tm div 86400 + 4) mod 7"
    "tm_yday tm' = tm_yday tm0" "tm_isdst tm' = tm_isdst tm0"
    using to_tm_epoch [OF epoch_seconds_bounds(1) [OF assms(1)] assms(2), of tm0] by blast
  have "tm' = tm\<lparr>tm_wday := (epoch_seconds tm div 86400 + 4) mod 7, tm_yday := tm_yday tm0, tm_isdst := tm_isdst tm0\<rparr>"
    by (rule rtc_time.equality) (use epoch_seconds_inj [OF t(2) assms(1) t(3)] t(4-) in simp_all)
  with t(1) show ?thesis by simp
qed

section \<open>The contract of a calendar\<close>

text \<open>What the RTC driver relies on of the two conversions.\<close>

locale calendar =
  fixes to_date :: "int \<Rightarrow> rtc_time \<Rightarrow> int list \<Rightarrow> (rtc_time \<times> int list) result"
    and of_date :: "u32 \<Rightarrow> u32 \<Rightarrow> u32 \<Rightarrow> u32 \<Rightarrow> u32 \<Rightarrow> u32 \<Rightarrow> u32"
  assumes to_date_valid: "0 \<le> tim \<Longrightarrow> tim < 2 ^ 31 \<Longrightarrow>
      \<exists>tm'. to_date tim tm month_days = Inr (tm', month_days) \<and> valid_time tm' \<and> epoch_seconds tm' = tim"
    and of_date_seconds: "valid_time tm \<Longrightarrow> epoch_seconds tm < 2 ^ 32 \<Longrightarrow>
      of_date (word_of_int (tm_year tm)) (word_of_int (tm_mon tm)) (word_of_int (tm_mday tm))
        (word_of_int (tm_hour tm)) (word_of_int (tm_min tm)) (word_of_int (tm_sec tm))
      = word_of_int (epoch_seconds tm)"
begin

lemma date_round_trip:
  assumes "valid_time tm" and "0 \<le> epoch_seconds tm" and "epoch_seconds tm < 2 ^ 31"
  shows "\<exists>tm'. to_date (sint (of_date (word_of_int (tm_year tm)) (word_of_int (tm_mon tm))
      (word_of_int (tm_mday tm)) (word_of_int (tm_hour tm)) (word_of_int (tm_min tm))
      (word_of_int (tm_sec tm)))) tm0 month_days = Inr (tm', month_days) \<and>
     valid_time tm' \<and> epoch_seconds tm' = epoch_seconds tm"
  using assms to_date_valid [of "epoch_seconds tm" tm0]
  by (simp add: of_date_seconds sint_u32 uint_word_of_int)

text \<open>A clock that was set to \<open>tm\<close> and has counted \<open>k\<close> seconds since.\<close>

lemma offset_clock:
  fixes t0 :: u32
  assumes "valid_time tm" and "0 \<le> epoch_seconds tm + k" and "epoch_seconds tm + k < 2 ^ 31"
    and "epoch_seconds tm < 2 ^ 32"
    and "off = of_date (word_of_int (tm_year tm)) (word_of_int (tm_mon tm)) (word_of_int (tm_mday tm))
        (word_of_int (tm_hour tm)) (word_of_int (tm_min tm)) (word_of_int (tm_sec tm)) - t0"
  shows "\<exists>tm'. to_date (sint (t0 + word_of_int k + off)) tm0 month_days = Inr (tm', month_days) \<and>
     valid_time tm' \<and> epoch_seconds tm' = epoch_seconds tm + k"
proof -
  have "t0 + word_of_int k + off = word_of_int (epoch_seconds tm + k)"
    using assms(1,4,5) by (simp add: of_date_seconds)
  moreover have "sint (word_of_int (epoch_seconds tm + k) :: u32) = epoch_seconds tm + k"
    by (rule sint_word_of_int_u32) (use assms(2,3) in simp_all)
  ultimately have "sint (t0 + word_of_int k + off) = epoch_seconds tm + k" by (simp only:)
  with to_date_valid [OF assms(2,3)] show ?thesis by simp
qed

end

interpretation cal: calendar to_tm mktime
proof unfold_locales
  show "\<exists>tm'. to_tm tim tm month_days = Inr (tm', month_days) \<and> valid_time tm' \<and> epoch_seconds tm' = tim"
    if "0 \<le> tim" "tim < 2 ^ 31" for tim tm
    using to_tm_epoch [OF that, of tm] by blast
  show "mktime (word_of_int (tm_year tm)) (word_of_int (tm_mon tm)) (word_of_int (tm_mday tm))
      (word_of_int (tm_hour tm)) (word_of_int (tm_min tm)) (word_of_int (tm_sec tm))
      = word_of_int (epoch_seconds tm)" if "valid_time tm" "epoch_seconds tm < 2 ^ 32" for tm
    using that epoch_seconds_bounds(2) [OF that(1)] by (intro mktime_seconds) simp_all
qed

section \<open>Properties\<close>

definition rtc_time_zero :: rtc_time where
  "rtc_time_zero = \<lparr>tm_sec = 0, tm_min = 0, tm_hour = 0, tm_mday = 0, tm_mon = 0, tm_year = 0,
     tm_wday = 0, tm_yday = 0, tm_isdst = 0\<rparr>"

definition leap_day :: rtc_time where
  "leap_day = rtc_time_zero\<lparr>tm_year := 2000, tm_mon := 2, tm_mday := 29, tm_hour := 23, tm_min := 59, tm_sec := 59\<rparr>"

lemma leap_day_facts: "valid_time leap_day" "epoch_seconds leap_day = 951868799"
  by (simp_all add: leap_day_def rtc_time_zero_def valid_time_def month_length_def leap_year_def
      epoch_seconds_def days_to_year_closed days_to_month_values)

text \<open>C19: for every non-negative \<open>int\<close> \<open>tim\<close>, \<open>to_tm\<close> ends without leaving the month table, restores
  the table, and gives the valid Gregorian date and time that is \<open>tim\<close> seconds after the start of
  1970, with its day of the week. The leap rule of the code is \<open>year % 4\<close>, which agrees with the
  Gregorian one on the years an \<open>int\<close> reaches.\<close>

theorem to_tm_correct:
  assumes "0 \<le> tim" and "tim < 2 ^ 31"
  shows "\<exists>tm'. to_tm tim tm month_days = Inr (tm', month_days) \<and> valid_time tm' \<and>
     epoch_seconds tm' = tim \<and> tm_year tm' \<le> 2038 \<and> tm_wday tm' = (tim div 86400 + 4) mod 7"
  using to_tm_epoch [OF assms, of tm] by blast

theorem to_tm_correct_witness:
  "\<exists>tm'. to_tm 2147483647 rtc_time_zero month_days = Inr (tm', month_days) \<and> valid_time tm' \<and>
     epoch_seconds tm' = 2147483647 \<and> tm_year tm' \<le> 2038 \<and> tm_wday tm' = 2"
  using to_tm_correct [of 2147483647 rtc_time_zero] by simp

text \<open>C20: \<open>mktime\<close>, computed in 32-bit unsigned arithmetic with the shifted months of Gauss's
  formula, is the number of seconds since 1970 for every valid date whose count fits in 32 bits.\<close>

theorem mktime_correct:
  assumes "valid_time tm" and "epoch_seconds tm < 2 ^ 32"
  shows "uint (mktime (word_of_int (tm_year tm)) (word_of_int (tm_mon tm)) (word_of_int (tm_mday tm))
     (word_of_int (tm_hour tm)) (word_of_int (tm_min tm)) (word_of_int (tm_sec tm))) = epoch_seconds tm"
  using assms by (rule mktime_uint)

theorem mktime_correct_witness: "uint (mktime 2000 2 29 23 59 59) = 951868799"
  using mktime_correct [of leap_day] leap_day_facts by (simp add: leap_day_def rtc_time_zero_def)

text \<open>C21: \<open>mktime\<close> followed by \<open>to_tm\<close> gives every valid date before 2038-01-19 03:14:08 back. Whatever the structure that \<open>to_tm\<close> fills held
  before, the six fields of the date and the time are those of the date that went in, and the day of the week is filled in; \<open>tm_yday\<close> and \<open>tm_isdst\<close>
  are left as they were.\<close>

theorem date_roundtrip:
  assumes "valid_time tm" and "epoch_seconds tm < 2 ^ 31"
  shows "to_tm (uint (mktime (word_of_int (tm_year tm)) (word_of_int (tm_mon tm)) (word_of_int (tm_mday tm))
      (word_of_int (tm_hour tm)) (word_of_int (tm_min tm)) (word_of_int (tm_sec tm)))) tm0 month_days
    = Inr (\<lparr>tm_sec = tm_sec tm, tm_min = tm_min tm, tm_hour = tm_hour tm, tm_mday = tm_mday tm, tm_mon = tm_mon tm, tm_year = tm_year tm,
        tm_wday = (epoch_seconds tm div 86400 + 4) mod 7, tm_yday = tm_yday tm0, tm_isdst = tm_isdst tm0\<rparr>, month_days)"
proof -
  have "epoch_seconds tm < 2 ^ 32" using assms(2) by simp
  then have m: "uint (mktime (word_of_int (tm_year tm)) (word_of_int (tm_mon tm)) (word_of_int (tm_mday tm))
      (word_of_int (tm_hour tm)) (word_of_int (tm_min tm)) (word_of_int (tm_sec tm))) = epoch_seconds tm"
    by (rule mktime_uint [OF assms(1)])
  show ?thesis unfolding m to_tm_of_valid [OF assms] by simp
qed

theorem date_roundtrip_witness:
  "to_tm (uint (mktime 2000 2 29 23 59 59)) rtc_time_zero month_days = Inr (leap_day\<lparr>tm_wday := 2\<rparr>, month_days)"
  using date_roundtrip [of leap_day rtc_time_zero] leap_day_facts
  by (simp add: leap_day_def rtc_time_zero_def)

text \<open>An argument with the sign bit set, which is what \<open>rtc_get\<close> passes from 2038-01-19 on, is no
  fault but no date either: the year is 1970, the month January, and the day of the month at most 1.\<close>

lemma to_tm_after_2038:
  assumes "tim < 0"
  shows "\<exists>tm'. to_tm tim tm month_days = Inr (tm', month_days) \<and>
     tm_year tm' = 1970 \<and> tm_mon tm' = 1 \<and> tm_mday tm' = 1 + tim sdiv 86400 \<and> tm_mday tm' \<le> 1"
proof -
  have "tim sdiv 86400 \<le> 0" using assms by (simp add: signed_divide_int_def sgn_if)
  then show ?thesis by (simp add: to_tm_before_epoch [OF assms])
qed

lemma to_tm_after_2038_example:
  "\<exists>tm'. to_tm (- 2147483648) rtc_time_zero month_days = Inr (tm', month_days) \<and>
     tm_year tm' = 1970 \<and> tm_mon tm' = 1 \<and> tm_mday tm' = - 24854 \<and> tm_mday tm' \<le> 1"
  using to_tm_after_2038 [of "- 2147483648" rtc_time_zero] by (simp add: signed_divide_int_def)

text \<open>The BCD helpers are inverse to each other on two decimal digits, and the coded byte
  holds the two digits in its nibbles.\<close>

lemma bcd_roundtrip:
  assumes "val < 100"
  shows "bcd2bin (bin2bcd val) = val \<and> unat (bin2bcd val) = 16 * (unat val div 10) + unat val mod 10"
proof -
  have all: "list_all (\<lambda>k. bcd2bin (bin2bcd (of_nat k)) = of_nat k \<and>
      unat (bin2bcd (of_nat k)) = 16 * (k div 10) + k mod 10) [0..<100]"
    by code_simp
  have "unat val < 100" using assms by (simp add: word_less_nat_alt)
  then have "unat val \<in> set [0..<100]" by simp
  with all have "bcd2bin (bin2bcd (of_nat (unat val))) = of_nat (unat val) \<and>
      unat (bin2bcd (of_nat (unat val))) = 16 * (unat val div 10) + unat val mod 10"
    unfolding list_all_iff by (rule bspec)
  then show ?thesis by simp
qed

end
