(* ===== verification/Rtc.thy ===== *)
theory Rtc
  imports Timer Date
begin

text \<open>
  The real-time clock driver \<^verbatim>\<open>c07/c07e3/rtc-goldfish.c\<close>. Its state is the static
  \<open>rtc_offset\<close>, and the static table \<open>month_days\<close> of \<^verbatim>\<open>date.c\<close> that \<open>to_tm\<close> changes and
  restores. The driver reads the timer with \<open>get_second\<close>, whose unit is \<open>2 ^ 30\<close> nanoseconds, and
  converts with \<open>to_tm\<close> and \<open>mktime\<close>; its correctness rests on the calendar contract.
\<close>

section \<open>The driver\<close>

record rtc_st = timer_st +
  rtc_offset :: u32
  month_tab :: "int list"

text \<open>\<open>rtc_get\<close> stores through its pointer argument: the structure is passed in and returned
  beside the state.\<close>

definition rtc_get ::
  "env \<Rightarrow> rtc_time \<Rightarrow> 'a rtc_st_scheme \<Rightarrow> (int \<times> rtc_time \<times> 'a rtc_st_scheme) result" where
  "rtc_get env tmp s =
     (let (sec, s) = get_second env s;
          rv = sec + rtc_offset s
      in case to_tm (sint rv) tmp (month_tab s) of
           Inl f \<Rightarrow> Inl f
         | Inr (tmp, mds) \<Rightarrow> Inr (0, tmp, s\<lparr>month_tab := mds\<rparr>))"

definition rtc_set :: "env \<Rightarrow> rtc_time \<Rightarrow> 'a rtc_st_scheme \<Rightarrow> int \<times> 'a rtc_st_scheme" where
  "rtc_set env tmp s =
     (let rv = mktime (word_of_int (tm_year tmp)) (word_of_int (tm_mon tmp)) (word_of_int (tm_mday tmp))
                 (word_of_int (tm_hour tmp)) (word_of_int (tm_min tmp)) (word_of_int (tm_sec tmp));
          (sec, s) = get_second env s
      in (0, s\<lparr>rtc_offset := rv - sec\<rparr>))"

definition rtc_reset :: "'a rtc_st_scheme \<Rightarrow> 'a rtc_st_scheme" where
  "rtc_reset s = s\<lparr>rtc_offset := 0\<rparr>"

section \<open>Lemmas\<close>

lemma get_second_rtc [simp]:
  "rtc_offset (snd (get_second env s)) = rtc_offset s"
  "month_tab (snd (get_second env s)) = month_tab s"
  by (simp_all add: get_second_def Let_def readl_def)

lemma rtc_set_simps:
  "fst (rtc_set env tm s) = 0"
  "month_tab (snd (rtc_set env tm s)) = month_tab s"
  "trace (snd (rtc_set env tm s)) = trace (snd (get_second env s))"
  "rtc_offset (snd (rtc_set env tm s)) =
     mktime (word_of_int (tm_year tm)) (word_of_int (tm_mon tm)) (word_of_int (tm_mday tm))
       (word_of_int (tm_hour tm)) (word_of_int (tm_min tm)) (word_of_int (tm_sec tm))
     - fst (get_second env s)"
  by (simp_all add: rtc_set_def split_beta Let_def)

lemma rtc_get_Inr:
  assumes "to_tm (sint (fst (get_second env s) + rtc_offset s)) tm (month_tab s) = Inr (tm', month_tab s)"
  shows "rtc_get env tm s = Inr (0, tm', snd (get_second env s))"
  using assms by (simp add: rtc_get_def split_beta Let_def)

text \<open>A clock that was set, read some time later.\<close>

lemma rtc_clock:
  assumes dev: "goldfish_timer env ns"
    and tm: "valid_time tm" "epoch_seconds tm < 2 ^ 31"
    and later: "rtc_offset s' = rtc_offset (snd (rtc_set env tm s))" "month_tab s' = month_days"
    and k: "k = int (ns (length (trace s')) div 2 ^ 30) - int (ns (length (trace s)) div 2 ^ 30)"
    and fits: "0 \<le> epoch_seconds tm + k" "epoch_seconds tm + k < 2 ^ 31"
  shows "\<exists>tm' s''. rtc_get env tm0 s' = Inr (0, tm', s'') \<and> valid_time tm' \<and>
     epoch_seconds tm' = epoch_seconds tm + k \<and>
     rtc_offset s'' = rtc_offset s' \<and> month_tab s'' = month_days"
proof -
  let ?t0 = "of_nat (ns (length (trace s)) div 2 ^ 30) :: u32"
  have now: "fst (get_second env s') = ?t0 + word_of_int k"
    using get_second_simps(1) [OF dev, of s'] by (simp add: k)
  have "\<exists>tm'. to_tm (sint (?t0 + word_of_int k + rtc_offset s')) tm0 month_days = Inr (tm', month_days) \<and>
     valid_time tm' \<and> epoch_seconds tm' = epoch_seconds tm + k"
    using get_second_simps(1) [OF dev, of s] tm(2)
    by (intro cal.offset_clock [OF tm(1) fits]) (simp_all add: later rtc_set_simps)
  then obtain tm' where "to_tm (sint (fst (get_second env s') + rtc_offset s')) tm0 (month_tab s') = Inr (tm', month_tab s')"
    and "valid_time tm'" "epoch_seconds tm' = epoch_seconds tm + k"
    using later(2) unfolding now by auto
  with rtc_get_Inr [of env s' tm0 tm'] later(2) show ?thesis by simp
qed

section \<open>Properties\<close>

definition rtc_boot :: rtc_st where
  "rtc_boot = timer_st.extend timer_boot \<lparr>rtc_offset = 0, month_tab = month_days\<rparr>"

lemma rtc_boot_simps [simp]: "trace rtc_boot = []" "month_tab rtc_boot = month_days" "rtc_offset rtc_boot = 0"
  by (simp_all add: rtc_boot_def timer_st.extend_def timer_boot_def)

text \<open>C22: the clock keeps time. When it was set to a valid date \<open>tm\<close> at the device time \<open>t\<^sub>0\<close>, then
  every later \<open>rtc_get\<close> at a device time \<open>t\<^sub>1\<close>, with the driver's variables unchanged in between,
  ends without a fault, returns 0 and stores the valid date that lies
  \<open>t\<^sub>1 / 2 ^ 30 - t\<^sub>0 / 2 ^ 30\<close> seconds after \<open>tm\<close>, as long as that date is before 2038-01-19
  03:14:08. The offset is a wrapping 32-bit difference, so it does not matter whether the
  timer's count is above or below the number of seconds set.\<close>

theorem rtc_set_get:
  assumes dev: "goldfish_timer env ns"
    and tm: "valid_time tm" "epoch_seconds tm < 2 ^ 31"
    and later: "rtc_offset s' = rtc_offset (snd (rtc_set env tm s))" "month_tab s' = month_days"
    and k: "k = int (ns (length (trace s')) div 2 ^ 30) - int (ns (length (trace s)) div 2 ^ 30)"
    and fits: "0 \<le> epoch_seconds tm + k" "epoch_seconds tm + k < 2 ^ 31"
  shows "\<exists>tm' s''. rtc_get env tm0 s' = Inr (0, tm', s'') \<and> valid_time tm' \<and>
     epoch_seconds tm' = epoch_seconds tm + k \<and>
     rtc_offset s'' = rtc_offset s' \<and> month_tab s'' = month_days"
  by (rule rtc_clock [OF assms])

theorem rtc_set_get_witness:
  "\<exists>tm' s''. rtc_get (clock_env slow_clock) rtc_time_zero (snd (rtc_set (clock_env slow_clock) leap_day rtc_boot))
      = Inr (0, tm', s'') \<and> valid_time tm' \<and> epoch_seconds tm' = 951868799"
proof -
  let ?s = "snd (rtc_set (clock_env slow_clock) leap_day rtc_boot)"
  have len: "length (trace ?s) = 2"
    using get_second_simps(2) [OF goldfish_timer_clock_env, of slow_clock rtc_boot] by (simp add: rtc_set_simps)
  show ?thesis
    using rtc_set_get [OF goldfish_timer_clock_env, where tm = leap_day and s' = ?s and ns = slow_clock
        and s = rtc_boot and k = 0 and ?tm0.0 = rtc_time_zero]
      leap_day_facts len by (auto simp: rtc_set_simps slow_clock_def)
qed

text \<open>Without an earlier \<open>rtc_set\<close>, or after \<open>rtc_reset\<close>, \<open>rtc_get\<close> shows the time since the
  device was started as a date from 1970-01-01 00:00:00 on, one displayed second per \<open>2 ^ 30\<close>
  nanoseconds: after a true day the clock is 5934 seconds behind.\<close>

lemma rtc_reset_get:
  assumes dev: "goldfish_timer env ns" and "month_tab s = month_days"
    and fits: "ns (length (trace s)) div 2 ^ 30 < 2 ^ 31"
  shows "\<exists>tm' s''. rtc_get env tm0 (rtc_reset s) = Inr (0, tm', s'') \<and> valid_time tm' \<and>
     epoch_seconds tm' = int (ns (length (trace s)) div 2 ^ 30)"
proof -
  let ?n = "ns (length (trace s)) div 2 ^ 30"
  have eq: "fst (get_second env (rtc_reset s)) + rtc_offset (rtc_reset s) = word_of_int (int ?n)"
    using get_second_simps(1) [OF dev, of "rtc_reset s"] by (simp add: rtc_reset_def)
  have "sint (word_of_int (int ?n) :: u32) = int ?n"
    by (rule sint_word_of_int_u32) (use fits in simp_all)
  moreover obtain tm' where "to_tm (int ?n) tm0 month_days = Inr (tm', month_days)"
    "valid_time tm'" "epoch_seconds tm' = int ?n"
    using cal.to_date_valid [of "int ?n" tm0] fits by auto
  ultimately show ?thesis
    using rtc_get_Inr [of env "rtc_reset s" tm0 tm'] assms(2) eq by (simp add: rtc_reset_def)
qed

lemma rtc_reset_get_example:
  "\<exists>tm' s''. rtc_get (clock_env (\<lambda>_. 86400 * 10 ^ 9)) rtc_time_zero (rtc_reset rtc_boot) = Inr (0, tm', s'') \<and>
     valid_time tm' \<and> epoch_seconds tm' = 86400 - 5934"
  using rtc_reset_get [OF goldfish_timer_clock_env, of rtc_boot "\<lambda>_. 86400 * 10 ^ 9" rtc_time_zero]
  by simp

end
