(* ===== verification/C07.thy ===== *)
theory C07
  imports Rtc Bsp
begin

text \<open>
  The programs of chapter 7: the interrupt handlers and the main loops of \<^verbatim>\<open>c07/c07e1/c07e1.c\<close>,
  \<^verbatim>\<open>c07/c07e2/c07e2.c\<close> and \<^verbatim>\<open>c07/c07e3/c07e3.c\<close>. Their static variables and the locals of \<open>main\<close> that live
  across iterations extend the driver states. One iteration of a main loop is a function; the
  interrupt handler runs between iterations. \<open>EnterUserMode\<close> and \<open>SystemCall\<close> are the two assembly
  routines of the start-up files: the first sets the mode bits of the status register, the second
  raises software interrupt 8, which ends up in \<open>sw_handler\<close>.
\<close>

section \<open>c07e1 and c07e2\<close>

record c07_st = timer_st +
  ch :: int
  main_tm :: u32
  cpsr :: u32

definition msr_cpsr_c :: "u32 \<Rightarrow> u32 \<Rightarrow> u32" where
  "msr_cpsr_c v c = (c AND NOT 0xFF) OR (v AND 0xFF)"

definition enter_user_mode :: "u32 \<Rightarrow> u32" where
  "enter_user_mode c = (c AND NOT 0x1F) OR 0x10"

definition c07e1_ARM_irq :: "env \<Rightarrow> 'a c07_st_scheme \<Rightarrow> 'a c07_st_scheme" where
  "c07e1_ARM_irq env s =
     (let (irq, s) = goldfish_get_irq_num env s;
          (num, s) = goldfish_irq_status env s;
          s = printf ''=>Enter ARM_irq(%d), pending num=%d\<newline>'' [sint irq, sint num] s;
          s = (if irq = IRQ_TTY0 then printf ''=>IRQ_TTY0.\<newline>'' [] s
               else if irq = IRQ_TTY1 then printf ''=>IRQ_TTY1.\<newline>'' [] s
               else if irq = IRQ_TTY2
               then let (c, s) = getchar env s;
                        s = s\<lparr>ch := c\<rparr>;
                        s = printf ''=>IRQ_TTY2. ch=%c\<newline>'' [ch s] s
                    in if ch s = 116 then goldfish_set_timer env 0 s else s
               else if irq = IRQ_TIMER
               then printf ''=>IRQ_TIMER - clear alarm.\<newline>'' [] (goldfish_clear_alarm env s)
               else printf ''=>Unknown IRQ %x.\<newline>'' [sint irq] s);
          (tm, s) = goldfish_timer_read env s
      in printf ''=>Exit ARM_irq(%d). tm=%lu\<newline>'' [sint irq, uint tm] s)"

text \<open>The other exception handlers of c07e1 print a line; all but \<open>ARM_swi\<close> then spin.\<close>

datatype 's handler_end = Returns 's | Spins 's

definition c07e1_ARM_undef :: "'a machine_scheme \<Rightarrow> 'a machine_scheme handler_end" where
  "c07e1_ARM_undef s = Spins (printf ''Enter ARM_undef() ...\<newline>'' [] s)"

definition c07e1_ARM_swi :: "'a machine_scheme \<Rightarrow> 'a machine_scheme handler_end" where
  "c07e1_ARM_swi s = Returns (printf ''Enter ARM_swi() ...\<newline>'' [] s)"

definition c07e1_ARM_pAbort :: "'a machine_scheme \<Rightarrow> 'a machine_scheme handler_end" where
  "c07e1_ARM_pAbort s = Spins (printf ''Enter ARM_pAbort() ...\<newline>'' [] s)"

definition c07e1_ARM_dAbort :: "'a machine_scheme \<Rightarrow> 'a machine_scheme handler_end" where
  "c07e1_ARM_dAbort s = Spins (printf ''Enter ARM_dAbort() ...\<newline>'' [] s)"

definition c07e1_ARM_reserved :: "'a machine_scheme \<Rightarrow> 'a machine_scheme handler_end" where
  "c07e1_ARM_reserved s = Spins (printf ''Enter ARM_reserved() ...\<newline>'' [] s)"

definition c07e1_ARM_fiq :: "'a machine_scheme \<Rightarrow> 'a machine_scheme handler_end" where
  "c07e1_ARM_fiq s = Spins (printf ''Enter ARM_fiq() ...\<newline>'' [] s)"

definition c07e1_main_init :: "env \<Rightarrow> 'a c07_st_scheme \<Rightarrow> 'a c07_st_scheme" where
  "c07e1_main_init env s =
     (let s = printf ''Enter main() ...\<newline>'' [] (s\<lparr>main_tm := 0\<rparr>);
          s = goldfish_unmask_irq env IRQ_TIMER s
      in goldfish_unmask_irq env IRQ_TTY2 s)"

definition c07e1_main_step :: "env \<Rightarrow> 'a c07_st_scheme \<Rightarrow> 'a c07_st_scheme" where
  "c07e1_main_step env s =
     (if ch s \<noteq> 0
      then let s = printf ''1. Command is %c. time=(%lu).\<newline>'' [ch s, uint (main_tm s)] s;
               s = (if ch s = 100 then printf ''  - Disabled timer.\<newline>'' [] (goldfish_mask_irq env IRQ_TIMER s) else s);
               s = (if ch s = 101 then printf ''  - Enabled timer.\<newline>'' [] (goldfish_unmask_irq env IRQ_TIMER s) else s);
               s = s\<lparr>ch := 0\<rparr>;
               (tm, s) = goldfish_timer_read env s;
               s = s\<lparr>main_tm := tm\<rparr>
           in printf ''2. ----- End loop (%lu) -----\<newline>'' [uint (main_tm s)] s
      else let (tm, s) = goldfish_timer_read env s in s\<lparr>main_tm := tm\<rparr>)"

definition sw_handler :: "int \<Rightarrow> 'a machine_scheme \<Rightarrow> 'a machine_scheme" where
  "sw_handler num s = printf ''=>Inside sw_handler, num=%d.\<newline>'' [num] s"

definition SystemCall :: "'a machine_scheme \<Rightarrow> 'a machine_scheme" where
  "SystemCall s = sw_handler 8 s"

definition c07e2_irq_handler :: "env \<Rightarrow> u32 \<Rightarrow> 'a c07_st_scheme \<Rightarrow> 'a c07_st_scheme" where
  "c07e2_irq_handler env irq s =
     (let (num, s) = goldfish_irq_status env s;
          s = printf ''=>Enter ARM_irq(%d), pending num=%d\<newline>'' [sint irq, sint num] s;
          s = (if irq = IRQ_TTY0 then printf ''=>IRQ_TTY0.\<newline>'' [] s
               else if irq = IRQ_TTY1 then printf ''=>IRQ_TTY1.\<newline>'' [] s
               else if irq = IRQ_TTY2
               then let (c, s) = getchar env s;
                        s = s\<lparr>ch := c\<rparr>;
                        s = printf ''=>IRQ_TTY2. ch=%c\<newline>'' [ch s] s
                    in if ch s = 116 then goldfish_set_timer env 0 s else s
               else if irq = IRQ_TIMER
               then printf ''=>IRQ_TIMER - clear interrupt.\<newline>'' [] (goldfish_clear_timer_int env s)
               else printf ''=>Unknown IRQ %x.\<newline>'' [sint irq] s);
          (tm, s) = goldfish_timer_read env s
      in printf ''=>Exit ARM_irq(%d). tm=%lu\<newline>'' [sint irq, uint tm] s)"

definition c07e2_main_init :: "env \<Rightarrow> 'a c07_st_scheme \<Rightarrow> 'a c07_st_scheme" where
  "c07e2_main_init env s =
     (let s = printf ''Enter main() ...\<newline>'' [] s;
          s = s\<lparr>cpsr := msr_cpsr_c 0x1F (cpsr s)\<rparr>;
          s = goldfish_unmask_irq env IRQ_TIMER s;
          s = goldfish_unmask_irq env IRQ_TTY2 s
      in s\<lparr>cpsr := enter_user_mode (cpsr s)\<rparr>)"

definition c07e2_main_step :: "env \<Rightarrow> 'a c07_st_scheme \<Rightarrow> 'a c07_st_scheme" where
  "c07e2_main_step env s =
     (if ch s \<noteq> 0
      then let s = printf ''1. Command is %c. time=(%lu).\<newline>'' [ch s, uint (main_tm s)] s;
               s = (if ch s = 100 then printf ''  - Disabled timer.\<newline>'' [] (goldfish_mask_irq env IRQ_TIMER s) else s);
               s = (if ch s = 101 then printf ''  - Enabled timer.\<newline>'' [] (goldfish_unmask_irq env IRQ_TIMER s) else s);
               s = (if ch s = 115 then printf ''  - Make system call.\<newline>'' [] (SystemCall s) else s);
               s = s\<lparr>ch := 0\<rparr>;
               (tm, s) = goldfish_timer_read env s;
               s = s\<lparr>main_tm := tm\<rparr>
           in printf ''2. ----- End loop (%lu) -----\<newline>'' [uint (main_tm s)] s
      else let (tm, s) = goldfish_timer_read env s in s\<lparr>main_tm := tm\<rparr>)"

section \<open>c07e3\<close>

record c07e3_st = rtc_st +
  e3_ch :: int
  timeout :: int
  timer_irq :: int
  e3_rtc :: rtc_time
  e3_cpsr :: u32

text \<open>\<open>timeout\<close> is a signed \<open>int\<close>: its sum and product fault on overflow.\<close>

definition s32_fits :: "int \<Rightarrow> bool" where
  "s32_fits k \<longleftrightarrow> - 2147483648 \<le> k \<and> k < 2147483648"

definition c07e3_sw_handler :: "int \<Rightarrow> 'a machine_scheme \<Rightarrow> 'a machine_scheme" where
  "c07e3_sw_handler num s = printf ''=>Inside sw_handler, num=%d.\<newline>'' [num] s"

definition c07e3_irq_handler :: "env \<Rightarrow> u32 \<Rightarrow> 'a c07e3_st_scheme \<Rightarrow> ('a c07e3_st_scheme) result" where
  "c07e3_irq_handler env irq s =
     (let (num, s) = goldfish_irq_status env s;
          s = printf ''\<newline><=Enter IRQ(%d), %d pending, '' [sint irq, sint num] s
      in rbind
       (if irq = IRQ_TTY0 then Inr (printf ''=>IRQ_TTY0.\<newline>'' [] s)
        else if irq = IRQ_TTY1 then Inr (printf ''=>IRQ_TTY1.\<newline>'' [] s)
        else if irq = IRQ_TTY2
        then let (c, s) = getchar env s;
                 s = s\<lparr>e3_ch := c\<rparr>;
                 s = printf ''IRQ_TTY2, ch=%c, '' [e3_ch s] s
             in rbind
              (if e3_ch s = 116
               then let s = printf ''timeout = %d '' [timeout s] s;
                        s = goldfish_set_timer env (word_of_int (timeout s)) s
                    in if s32_fits (timeout s + 1)
                       then Inr (s\<lparr>timeout := timeout s + 1, timer_irq := 1\<rparr>) else Inl Signed_overflow
               else Inr s) (\<lambda>s.
              rbind
              (if e3_ch s = 120 \<and> 0 < timeout s
               then if s32_fits (timeout s * 10) then Inr (s\<lparr>timeout := timeout s * 10\<rparr>) else Inl Signed_overflow
               else Inr s) (\<lambda>s.
              if e3_ch s = 114 then Inr (rtc_reset (s\<lparr>timeout := 0\<rparr>)) else Inr s))
        else if irq = IRQ_TIMER
        then Inr ((printf ''IRQ_TIMER '' [] (goldfish_clear_timer_int env s))\<lparr>timer_irq := 0\<rparr>)
        else Inr (printf ''=>Unknown IRQ %x.\<newline>'' [sint irq] s)) (\<lambda>s.
       let (tm, s) = get_ticks env s
       in Inr (printf ''Exit IRQ(%d) tm=%lu =>\<newline>'' [sint irq, uint (ucast tm :: u32)] s)))"

definition c07e3_main_init :: "env \<Rightarrow> 'a c07e3_st_scheme \<Rightarrow> 'a c07e3_st_scheme" where
  "c07e3_main_init env s =
     (let s = printf ''Starting c07e3 ...\<newline>'' [] s;
          s = s\<lparr>e3_cpsr := msr_cpsr_c 0x1F (e3_cpsr s)\<rparr>;
          s = goldfish_unmask_irq env IRQ_TIMER s;
          s = goldfish_unmask_irq env IRQ_TTY2 s;
          s = s\<lparr>e3_cpsr := enter_user_mode (e3_cpsr s)\<rparr>
      in snd (timer_init env s))"

text \<open>The \<open>printf\<close> of the date; its last argument is a call of \<open>get_millisecond\<close>.\<close>

definition print_date :: "env \<Rightarrow> 'a c07e3_st_scheme \<Rightarrow> 'a c07e3_st_scheme" where
  "print_date env s =
     (let rtc = e3_rtc s;
          (ms, s) = get_millisecond env s
      in printf ''Get DATE: %4d-%02d-%02d (wday=%d)  TIME: %2d:%02d:%02d (%lu)\<newline>''
           [tm_year rtc, tm_mon rtc, tm_mday rtc, tm_wday rtc, tm_hour rtc, tm_min rtc, tm_sec rtc, uint ms] s)"

definition get_and_print :: "env \<Rightarrow> 'a c07e3_st_scheme \<Rightarrow> ('a c07e3_st_scheme) result" where
  "get_and_print env s =
     rbind (rtc_get env (e3_rtc s) s) (\<lambda>(r, rtc, s). Inr (print_date env (s\<lparr>e3_rtc := rtc\<rparr>)))"

text \<open>An iteration: \<open>None\<close> if a delay never ends, a fault if the conversion of the date faults.\<close>

definition c07e3_main_step :: "env \<Rightarrow> 'a c07e3_st_scheme \<Rightarrow> ('a c07e3_st_scheme) result option" where
  "c07e3_main_step env s =
     (if e3_ch s \<noteq> 0
      then let s = (if e3_ch s = 100 then printf ''  - Disabled timer.\<newline>'' [] (goldfish_mask_irq env IRQ_TIMER s) else s);
               s = (if e3_ch s = 101 then printf ''  - Enabled timer.\<newline>'' [] (goldfish_unmask_irq env IRQ_TIMER s) else s)
           in Some (rbind (if e3_ch s = 103 then get_and_print env s else Inr s) (\<lambda>s.
              let s = (if e3_ch s = 115
                       then let s = s\<lparr>e3_rtc := (e3_rtc s)\<lparr>tm_year := 2014, tm_mon := 4, tm_mday := 11,
                                      tm_hour := 12, tm_min := 30, tm_sec := 55\<rparr>\<rparr>;
                                (r, s) = rtc_set env (e3_rtc s) s;
                                s = printf ''  - set RTC. '' [] s
                            in print_date env s
                       else s)
              in Inr (s\<lparr>e3_ch := 0\<rparr>)))
      else if 1000 < timeout s \<and> 0 < timer_irq s
      then (case get_and_print env s of
              Inl f \<Rightarrow> Some (Inl f)
            | Inr s \<Rightarrow> (case udelay env 1000000 s of None \<Rightarrow> None | Some s \<Rightarrow> Some (Inr s)))
      else (case udelay env 1000 s of None \<Rightarrow> None | Some s \<Rightarrow> Some (Inr s)))"

section \<open>The interrupt handler\<close>

lemma e3_bus [simp]:
  "timeout (writel env v a s) = timeout s" "timeout (snd (readl env a s)) = timeout s" "timeout (printf f xs s) = timeout s"
  "timer_irq (writel env v a s) = timer_irq s" "timer_irq (snd (readl env a s)) = timer_irq s" "timer_irq (printf f xs s) = timer_irq s"
  "e3_ch (writel env v a s) = e3_ch s" "e3_ch (snd (readl env a s)) = e3_ch s" "e3_ch (printf f xs s) = e3_ch s"
  "e3_rtc (writel env v a s) = e3_rtc s" "e3_rtc (snd (readl env a s)) = e3_rtc s" "e3_rtc (printf f xs s) = e3_rtc s"
  by (simp_all add: writel_def readl_def printf_def Let_def)

lemma rtc_bus [simp]:
  "rtc_offset (writel env v a s) = rtc_offset s" "rtc_offset (snd (readl env a s)) = rtc_offset s"
  "rtc_offset (printf f xs s) = rtc_offset s"
  "month_tab (writel env v a s) = month_tab s" "month_tab (snd (readl env a s)) = month_tab s"
  "month_tab (printf f xs s) = month_tab s"
  by (simp_all add: writel_def readl_def printf_def Let_def)

lemma e3_timer [simp]:
  "timeout (goldfish_set_timer env n s) = timeout s" "timer_irq (goldfish_set_timer env n s) = timer_irq s"
  "e3_ch (goldfish_set_timer env n s) = e3_ch s" "rtc_offset (goldfish_set_timer env n s) = rtc_offset s"
  "timeout (goldfish_clear_timer_int env s) = timeout s" "rtc_offset (goldfish_clear_timer_int env s) = rtc_offset s"
  "timeout (snd (get_ticks env s)) = timeout s" "timer_irq (snd (get_ticks env s)) = timer_irq s"
  "rtc_offset (snd (get_ticks env s)) = rtc_offset s" "e3_ch (snd (get_ticks env s)) = e3_ch s"
  by (simp_all add: goldfish_set_timer_def goldfish_clear_timer_int_def get_ticks_def get_timer_def
      get_timer_masked_def get_millisecond_def Let_def split_beta)

definition typed :: "env \<Rightarrow> u32 \<Rightarrow> 'a machine_scheme \<Rightarrow> int" where
  "typed env irq s =
     (let (num, s) = goldfish_irq_status env s
      in env_getchar env (trace s @ [Printf ''\<newline><=Enter IRQ(%d), %d pending, '' [sint irq, sint num]]))"

lemma c07e3_key:
  assumes c: "c = typed env IRQ_TTY2 s" and range: "0 \<le> timeout s" "timeout s < 2147483647"
  shows "if c = 120 \<and> 214748364 < timeout s
     then c07e3_irq_handler env IRQ_TTY2 s = Inl Signed_overflow
     else \<exists>s'. c07e3_irq_handler env IRQ_TTY2 s = Inr s' \<and> e3_ch s' = c \<and>
            timeout s' = (if c = 116 then timeout s + 1 else if c = 120 then timeout s * 10
              else if c = 114 then 0 else timeout s) \<and>
            timer_irq s' = (if c = 116 then 1 else timer_irq s) \<and>
            rtc_offset s' = (if c = 114 then 0 else rtc_offset s)"
  using range
  by (simp add: c07e3_irq_handler_def getchar_def Let_def split_beta rtc_reset_def s32_fits_def
      c typed_def goldfish_irq_status_def)

lemma c07e3_other:
  assumes "irq \<noteq> IRQ_TTY2"
  shows "\<exists>s'. c07e3_irq_handler env irq s = Inr s' \<and> timeout s' = timeout s \<and> rtc_offset s' = rtc_offset s \<and>
     timer_irq s' = (if irq = IRQ_TIMER then 0 else timer_irq s)"
  using assms by (simp add: c07e3_irq_handler_def Let_def split_beta goldfish_irq_status_def)

text \<open>\<open>main\<close> of c07e2 does not initialise \<open>tm\<close>: a command that arrives before the first iteration is reported with whatever it held.\<close>

lemma c07e2_tm_uninitialised:
  "main_tm (c07e2_main_init env s) = main_tm s"
  "ch s \<noteq> 0 \<Longrightarrow> \<exists>t. trace (c07e2_main_step env s) =
     trace s @ Printf ''1. Command is %c. time=(%lu).\<newline>'' [ch s, uint (main_tm s)] # t"
  by (simp_all add: c07e2_main_init_def c07e2_main_step_def SystemCall_def sw_handler_def goldfish_timer_read_def
      goldfish_mask_irq_def goldfish_unmask_irq_def writel_def readl_def printf_def Let_def split_beta)

section \<open>Setting and showing the date\<close>

lemma print_date_simps [simp]:
  "e3_ch (print_date env s) = e3_ch s" "rtc_offset (print_date env s) = rtc_offset s" "month_tab (print_date env s) = month_tab s"
  "e3_rtc (print_date env s) = e3_rtc s"
  by (simp_all add: print_date_def get_millisecond_def Let_def split_beta)

lemma print_date_trace:
  assumes "rtc = e3_rtc s"
  shows "\<exists>t ms. trace (print_date env s) = trace s @ t @
     [Printf ''Get DATE: %4d-%02d-%02d (wday=%d)  TIME: %2d:%02d:%02d (%lu)\<newline>''
        [tm_year rtc, tm_mon rtc, tm_mday rtc, tm_wday rtc, tm_hour rtc, tm_min rtc, tm_sec rtc, ms]]"
  by (simp add: print_date_def get_millisecond_def Let_def split_beta assms)

lemma rtc_set_frame [simp]:
  "e3_ch (snd (rtc_set env tm s)) = e3_ch s" "e3_rtc (snd (rtc_set env tm s)) = e3_rtc s"
  by (simp_all add: rtc_set_def get_second_def Let_def split_beta)

text \<open>The date that command s sets.\<close>

definition set_date :: "rtc_time \<Rightarrow> rtc_time" where
  "set_date tm = tm\<lparr>tm_year := 2014, tm_mon := 4, tm_mday := 11, tm_hour := 12, tm_min := 30, tm_sec := 55\<rparr>"

lemma set_date_facts: "valid_time (set_date tm)" "epoch_seconds (set_date tm) = 1397219455"
  by (simp_all add: set_date_def valid_time_def month_length_def epoch_seconds_def days_to_year_closed
      days_to_month_values leap_year_def)

lemma step_set:
  assumes "e3_ch s = 115"
  shows "\<exists>s'. c07e3_main_step env s = Some (Inr s') \<and> e3_ch s' = 0 \<and> e3_rtc s' = set_date (e3_rtc s) \<and>
     rtc_offset s' = rtc_offset (snd (rtc_set env (set_date (e3_rtc s)) s)) \<and> month_tab s' = month_tab s"
  using assms
  by (simp add: c07e3_main_step_def Let_def split_beta set_date_def [symmetric] rtc_set_simps)
    (simp add: get_second_def Let_def split_beta)

lemma step_get:
  assumes "e3_ch s = 103" and "rtc_get env (e3_rtc s) s = Inr (0, tm, s1)" and "month_tab s1 = month_tab s"
    and "rtc_offset s1 = rtc_offset s"
  shows "\<exists>s'. c07e3_main_step env s = Some (Inr s') \<and> e3_ch s' = 0 \<and> rtc_offset s' = rtc_offset s \<and>
     month_tab s' = month_tab s \<and> (\<exists>t ms. trace s' = trace s1 @ t @
     [Printf ''Get DATE: %4d-%02d-%02d (wday=%d)  TIME: %2d:%02d:%02d (%lu)\<newline>''
        [tm_year tm, tm_mon tm, tm_mday tm, tm_wday tm, tm_hour tm, tm_min tm, tm_sec tm, ms]])"
proof -
  let ?s = "s1\<lparr>e3_rtc := tm\<rparr>"
  have ch: "e3_ch s1 = 103"
    using assms(1,2) by (auto simp: rtc_get_def get_second_def Let_def split_beta split: sum.splits)
  have "c07e3_main_step env s = Some (Inr ((print_date env ?s)\<lparr>e3_ch := 0\<rparr>))"
    using assms(1,2) ch by (simp add: c07e3_main_step_def get_and_print_def Let_def)
  then show ?thesis using assms(3,4) print_date_trace [of tm ?s env] by simp
qed

section \<open>Properties\<close>

definition c07e3_boot :: c07e3_st where
  "c07e3_boot = rtc_st.extend rtc_boot \<lparr>e3_ch = 0, timeout = 0, timer_irq = 0, e3_rtc = rtc_time_zero, e3_cpsr = 0xD3\<rparr>"

lemma c07e3_boot_simps [simp]:
  "trace c07e3_boot = []" "month_tab c07e3_boot = month_days" "e3_ch c07e3_boot = 0" "timeout c07e3_boot = 0"
  "e3_rtc c07e3_boot = rtc_time_zero" "timer_irq c07e3_boot = 0" "rtc_offset c07e3_boot = 0"
  by (simp_all add: c07e3_boot_def rtc_st.extend_def rtc_boot_def timer_st.extend_def timer_boot_def)

text \<open>The interrupt handler of c07e3. For a key press it stores the character; t arms the timer,
  adds one to the timeout and marks the timer as running, x multiplies the timeout by ten, r resets
  timeout and clock, every other key changes none of them. The timer interrupt marks the timer as
  stopped, and the other interrupts change nothing. The timeout stays non-negative, and the handler
  ends without a fault unless the multiplication leaves the range of an \<open>int\<close>, which nothing in the
  code prevents.\<close>

lemma c07e3_interrupts:
  assumes c: "c = typed env IRQ_TTY2 s" and range: "0 \<le> timeout s" "timeout s < 2147483647"
  shows "(if c = 120 \<and> 214748364 < timeout s
     then c07e3_irq_handler env IRQ_TTY2 s = Inl Signed_overflow
     else \<exists>s'. c07e3_irq_handler env IRQ_TTY2 s = Inr s' \<and> e3_ch s' = c \<and> 0 \<le> timeout s' \<and>
            timeout s' = (if c = 116 then timeout s + 1 else if c = 120 then timeout s * 10
              else if c = 114 then 0 else timeout s) \<and>
            timer_irq s' = (if c = 116 then 1 else timer_irq s) \<and>
            rtc_offset s' = (if c = 114 then 0 else rtc_offset s)) \<and>
    (\<forall>irq. irq \<noteq> IRQ_TTY2 \<longrightarrow> (\<exists>s'. c07e3_irq_handler env irq s = Inr s' \<and> timeout s' = timeout s \<and>
       rtc_offset s' = rtc_offset s \<and> timer_irq s' = (if irq = IRQ_TIMER then 0 else timer_irq s)))"
  using c07e3_key [OF assms] c07e3_other [of _ env s] range by (auto split: if_splits)

lemma c07e3_interrupts_example:
  "c07e3_irq_handler \<lparr>env_read = (\<lambda>h a. 0), env_dma = (\<lambda>h s. s), env_getchar = (\<lambda>h. 120)\<rparr> IRQ_TTY2
     (c07e3_boot\<lparr>timeout := 1000000000\<rparr>) = Inl Signed_overflow"
  using c07e3_interrupts [OF refl, of "c07e3_boot\<lparr>timeout := 1000000000\<rparr>"
     "\<lparr>env_read = (\<lambda>h a. 0), env_dma = (\<lambda>h s. s), env_getchar = (\<lambda>h. 120)\<rparr>"]
  by (simp add: typed_def split_beta)

text \<open>C40: command s sets the clock of c07e3 to 2014-04-11 12:30:55, and a later command g shows the
  right time. If no command in between sets or resets the clock, the iteration of the main loop for
  g ends without a fault, consumes the command, and prints a valid date that lies as many units of
  \<open>2 ^ 30\<close> ns after the date set as the timer has counted since, provided that this is before 2038-01-19 03:14:08.\<close>

theorem c07e3_set_get:
  assumes dev: "goldfish_timer env ns" and set: "e3_ch s = 115" "c07e3_main_step env s = Some (Inr s1)"
    and later: "rtc_offset s2 = rtc_offset s1" "month_tab s2 = month_days" "e3_ch s2 = 103"
    and k: "k = int (ns (length (trace s2)) div 2 ^ 30) - int (ns (length (trace s)) div 2 ^ 30)"
    and fits: "0 \<le> 1397219455 + k" "1397219455 + k < 2 ^ 31"
  shows "\<exists>tm ms t s3. c07e3_main_step env s2 = Some (Inr s3) \<and> e3_ch s3 = 0 \<and> valid_time tm \<and>
     epoch_seconds tm = 1397219455 + k \<and> trace s3 = t @
       [Printf ''Get DATE: %4d-%02d-%02d (wday=%d)  TIME: %2d:%02d:%02d (%lu)\<newline>''
         [tm_year tm, tm_mon tm, tm_mday tm, tm_wday tm, tm_hour tm, tm_min tm, tm_sec tm, ms]]"
proof -
  let ?d = "set_date (e3_rtc s)"
  have off: "rtc_offset s2 = rtc_offset (snd (rtc_set env ?d s))"
    using step_set [OF set(1), of env] set(2) later(1) by auto
  obtain tm s' where g: "rtc_get env (e3_rtc s2) s2 = Inr (0, tm, s')" "valid_time tm"
      "epoch_seconds tm = 1397219455 + k" "rtc_offset s' = rtc_offset s2" "month_tab s' = month_days"
    using rtc_clock [OF dev set_date_facts(1) _ off later(2) k, of "e3_rtc s2"] fits
    by (auto simp: set_date_facts(2))
  then show ?thesis using step_get [OF later(3) g(1)] later(2) by (metis append.assoc)
qed

theorem c07e3_set_get_witness:
  "\<exists>s1 tm ms t s3. c07e3_main_step (clock_env (\<lambda>_. 5 * 2 ^ 30)) (c07e3_boot\<lparr>e3_ch := 115\<rparr>) = Some (Inr s1) \<and>
     c07e3_main_step (clock_env (\<lambda>_. 5 * 2 ^ 30)) (s1\<lparr>e3_ch := 103\<rparr>) = Some (Inr s3) \<and>
     valid_time tm \<and> epoch_seconds tm = 1397219455 \<and> trace s3 = t @
       [Printf ''Get DATE: %4d-%02d-%02d (wday=%d)  TIME: %2d:%02d:%02d (%lu)\<newline>''
         [tm_year tm, tm_mon tm, tm_mday tm, tm_wday tm, tm_hour tm, tm_min tm, tm_sec tm, ms]]"
proof -
  let ?env = "clock_env (\<lambda>_. 5 * 2 ^ 30)" and ?s = "c07e3_boot\<lparr>e3_ch := 115\<rparr>"
  obtain s1 where s1: "c07e3_main_step ?env ?s = Some (Inr s1)" "month_tab s1 = month_days"
    using step_set [of ?s ?env] by auto
  have "\<exists>tm ms t s3. c07e3_main_step ?env (s1\<lparr>e3_ch := 103\<rparr>) = Some (Inr s3) \<and> e3_ch s3 = 0 \<and> valid_time tm \<and>
     epoch_seconds tm = 1397219455 + 0 \<and> trace s3 = t @
       [Printf ''Get DATE: %4d-%02d-%02d (wday=%d)  TIME: %2d:%02d:%02d (%lu)\<newline>''
         [tm_year tm, tm_mon tm, tm_mday tm, tm_wday tm, tm_hour tm, tm_min tm, tm_sec tm, ms]]"
    by (rule c07e3_set_get [OF goldfish_timer_clock_env _ s1(1)]) (simp_all add: s1(2))
  then show ?thesis using s1(1) by auto
qed

end
