(* ===== verification/C07_Race.thy ===== *)
theory C07_Race
  imports C07 "HOL-Library.Sublist"
begin

text \<open>
  The main loop of \<^verbatim>\<open>c07/c07e1/c07e1.c\<close> and its interrupt handler share the variable \<open>ch\<close>. Here one iteration of the loop is cut into steps
  with at most one access to \<open>ch\<close> or to the interrupt controller each, and the handler, which runs with interrupts disabled,
  can run between any two of them. The steps execute the source as it is written: \<open>ch\<close> is not volatile, so a compiler may keep it in a register.
\<close>

section \<open>The main loop in steps\<close>

datatype point = P_test | P_print | P_if_d | P_mask | P_say_d | P_if_e | P_unmask | P_say_e | P_clear | P_read | P_end | P_idle

record loop_st = c07_st +
  pt :: point

definition c07e1_micro :: "env \<Rightarrow> loop_st \<Rightarrow> loop_st" where
  "c07e1_micro env s =
     (case pt s of
        P_test \<Rightarrow> s\<lparr>pt := if ch s \<noteq> 0 then P_print else P_idle\<rparr>
      | P_print \<Rightarrow> (printf ''1. Command is %c. time=(%lu).\<newline>'' [ch s, uint (main_tm s)] s)\<lparr>pt := P_if_d\<rparr>
      | P_if_d \<Rightarrow> s\<lparr>pt := if ch s = 100 then P_mask else P_if_e\<rparr>
      | P_mask \<Rightarrow> (goldfish_mask_irq env IRQ_TIMER s)\<lparr>pt := P_say_d\<rparr>
      | P_say_d \<Rightarrow> (printf ''  - Disabled timer.\<newline>'' [] s)\<lparr>pt := P_if_e\<rparr>
      | P_if_e \<Rightarrow> s\<lparr>pt := if ch s = 101 then P_unmask else P_clear\<rparr>
      | P_unmask \<Rightarrow> (goldfish_unmask_irq env IRQ_TIMER s)\<lparr>pt := P_say_e\<rparr>
      | P_say_e \<Rightarrow> (printf ''  - Enabled timer.\<newline>'' [] s)\<lparr>pt := P_clear\<rparr>
      | P_clear \<Rightarrow> s\<lparr>ch := 0, pt := P_read\<rparr>
      | P_read \<Rightarrow> (let (tm, s) = goldfish_timer_read env s in s\<lparr>main_tm := tm, pt := P_end\<rparr>)
      | P_end \<Rightarrow> (printf ''2. ----- End loop (%lu) -----\<newline>'' [uint (main_tm s)] s)\<lparr>pt := P_test\<rparr>
      | P_idle \<Rightarrow> (let (tm, s) = goldfish_timer_read env s in s\<lparr>main_tm := tm, pt := P_test\<rparr>))"

text \<open>The handler runs with interrupts disabled, so as one step, between any two steps of the main program.\<close>

inductive c07e1_step :: "env \<Rightarrow> loop_st \<Rightarrow> loop_st \<Rightarrow> bool" for env where
  main: "c07e1_step env s (c07e1_micro env s)"
| irq: "c07e1_step env s (c07e1_ARM_irq env s)"

inductive c07e1_reach :: "env \<Rightarrow> loop_st \<Rightarrow> loop_st \<Rightarrow> bool" for env s0 where
  start: "c07e1_reach env s0 s0"
| step: "c07e1_reach env s0 s \<Longrightarrow> c07e1_step env s s' \<Longrightarrow> c07e1_reach env s0 s'"

lemma micro_pt:
  "pt (c07e1_micro env s) =
     (case pt s of P_test \<Rightarrow> if ch s \<noteq> 0 then P_print else P_idle | P_print \<Rightarrow> P_if_d
      | P_if_d \<Rightarrow> if ch s = 100 then P_mask else P_if_e | P_mask \<Rightarrow> P_say_d | P_say_d \<Rightarrow> P_if_e
      | P_if_e \<Rightarrow> if ch s = 101 then P_unmask else P_clear | P_unmask \<Rightarrow> P_say_e | P_say_e \<Rightarrow> P_clear | P_clear \<Rightarrow> P_read
      | P_read \<Rightarrow> P_end | P_end \<Rightarrow> P_test | P_idle \<Rightarrow> P_test)"
  by (simp add: c07e1_micro_def split_beta split: point.split)

text \<open>The main program alone, up to its next test of \<open>ch\<close>.\<close>

fun steps_left :: "point \<Rightarrow> nat" where
  "steps_left P_test = 12" | "steps_left P_print = 11" | "steps_left P_if_d = 10" | "steps_left P_mask = 9"
| "steps_left P_say_d = 8" | "steps_left P_if_e = 7" | "steps_left P_unmask = 6" | "steps_left P_say_e = 5"
| "steps_left P_clear = 4" | "steps_left P_read = 3" | "steps_left P_end = 2" | "steps_left P_idle = 1"

function c07e1_finish :: "env \<Rightarrow> loop_st \<Rightarrow> loop_st" where
  "c07e1_finish env s = (let s = c07e1_micro env s in if pt s = P_test then s else c07e1_finish env s)"
  by pat_completeness auto

termination
  by (relation "measure (\<lambda>(env, s). steps_left (pt s))") (auto simp: micro_pt Let_def split: point.splits if_splits)

declare c07e1_finish.simps [simp del]

section \<open>What the trace shows\<close>

text \<open>The commands the main program reported, the characters typed, and the last report on the timer interrupt.\<close>

definition commands :: "io list \<Rightarrow> int list" where
  "commands h = concat (map (\<lambda>e. case e of Printf f xs \<Rightarrow> if f = ''1. Command is %c. time=(%lu).\<newline>'' then [hd xs] else [] | _ \<Rightarrow> []) h)"

definition keys :: "io list \<Rightarrow> int list" where
  "keys h = concat (map (\<lambda>e. case e of Getchar c \<Rightarrow> [c] | _ \<Rightarrow> []) h)"

definition reported_on :: "io list \<Rightarrow> bool" where
  "reported_on h = fold (\<lambda>e on. case e of Printf f xs \<Rightarrow>
     if f = ''  - Disabled timer.\<newline>'' then False else if f = ''  - Enabled timer.\<newline>'' then True else on | _ \<Rightarrow> on) h True"

lemma log_snoc [simp]:
  "commands (h @ [e]) = commands h @ (case e of Printf f xs \<Rightarrow> if f = ''1. Command is %c. time=(%lu).\<newline>'' then [hd xs] else [] | _ \<Rightarrow> [])"
  "keys (h @ [e]) = keys h @ (case e of Getchar c \<Rightarrow> [c] | _ \<Rightarrow> [])"
  "reported_on (h @ [e]) = (case e of Printf f xs \<Rightarrow>
     if f = ''  - Disabled timer.\<newline>'' then False else if f = ''  - Enabled timer.\<newline>'' then True else reported_on h | _ \<Rightarrow> reported_on h)"
  by (simp_all add: commands_def keys_def) (cases e; simp add: reported_on_def)

definition log_of :: "io list \<Rightarrow> u32 set \<times> int list \<times> int list \<times> bool" where
  "log_of h = (irq_enabled h, commands h, keys h, reported_on h)"

definition log_step :: "io \<Rightarrow> u32 set \<times> int list \<times> int list \<times> bool \<Rightarrow> u32 set \<times> int list \<times> int list \<times> bool" where
  "log_step e l = (case l of (E, cs, ks, on) \<Rightarrow>
     (irq_mask_step e E,
      cs @ (case e of Printf f xs \<Rightarrow> if f = ''1. Command is %c. time=(%lu).\<newline>'' then [hd xs] else [] | _ \<Rightarrow> []),
      ks @ (case e of Getchar c \<Rightarrow> [c] | _ \<Rightarrow> []),
      case e of Printf f xs \<Rightarrow>
        if f = ''  - Disabled timer.\<newline>'' then False else if f = ''  - Enabled timer.\<newline>'' then True else on | _ \<Rightarrow> on))"

lemma log_append [simp]: "log_of (h @ es) = fold log_step es (log_of h)"
proof (induction es rule: rev_induct)
  case (snoc e es)
  have "log_of (h @ es @ [e]) = log_step e (log_of (h @ es))"
    using log_snoc [of "h @ es" e] irq_enabled_snoc [of "h @ es" e] by (simp add: log_of_def log_step_def)
  then show ?case using snoc by simp
qed simp

lemma log_step_bus:
  "log_step (Rd a v) l = l" "\<forall>E. irq_mask_step (Wr a v) E = E \<Longrightarrow> log_step (Wr a v) l = l"
  "log_step (Getchar c) (E, cs, ks, on) = (E, cs, ks @ [c], on)"
  "log_step (Printf f xs) (E, cs, ks, on) = (E, cs @ (if f = ''1. Command is %c. time=(%lu).\<newline>'' then [hd xs] else []), ks,
      if f = ''  - Disabled timer.\<newline>'' then False else if f = ''  - Enabled timer.\<newline>'' then True else on)"
  by (simp_all add: log_step_def irq_mask_step_def split: prod.split)

lemma log_timer [simp]:
  "log_of (trace (goldfish_set_timer env n s)) = log_of (trace s)" "log_of (trace (goldfish_clear_alarm env s)) = log_of (trace s)"
  "log_of (trace (snd (goldfish_timer_read env s))) = log_of (trace s)" "log_of (trace (snd (goldfish_get_irq_num env s))) = log_of (trace s)"
  "log_of (trace (snd (goldfish_irq_status env s))) = log_of (trace s)"
  "log_of (trace (goldfish_mask_irq env i s)) = (fst (log_of (trace s)) - {i}, snd (log_of (trace s)))"
  "log_of (trace (goldfish_unmask_irq env i s)) = (insert i (fst (log_of (trace s))), snd (log_of (trace s)))"
  by (simp_all add: goldfish_set_timer_def goldfish_clear_alarm_def goldfish_timer_read_def goldfish_get_irq_num_def
      goldfish_irq_status_def Let_def split_beta log_step_bus irq_mask_step_def)
    (simp_all add: goldfish_mask_irq_def goldfish_unmask_irq_def log_step_def irq_mask_step_def split_beta)

lemma loop_vars [simp]:
  "pt (goldfish_set_timer env n s) = pt s" "pt (goldfish_clear_alarm env s) = pt s" "pt (snd (goldfish_timer_read env s)) = pt s"
  "pt (snd (goldfish_get_irq_num env s)) = pt s" "pt (snd (goldfish_irq_status env s)) = pt s" "pt (printf f xs s) = pt s"
  by (simp_all add: goldfish_set_timer_def goldfish_clear_alarm_def goldfish_timer_read_def goldfish_get_irq_num_def
      goldfish_irq_status_def Let_def split_beta readl_def writel_def printf_def)

lemma ch_vars [simp]:
  "ch (goldfish_set_timer env n s) = ch s" "ch (goldfish_clear_alarm env s) = ch s" "ch (snd (goldfish_timer_read env s)) = ch s"
  "ch (snd (goldfish_get_irq_num env s)) = ch s" "ch (snd (goldfish_irq_status env s)) = ch s" "ch (printf f xs s) = ch s"
  "ch (goldfish_clear_timer_int env s) = ch s"
  by (simp_all add: goldfish_set_timer_def goldfish_clear_alarm_def goldfish_clear_timer_int_def goldfish_timer_read_def goldfish_get_irq_num_def
      goldfish_irq_status_def Let_def split_beta readl_def writel_def printf_def)

lemma irq_log:
  assumes "irq = fst (goldfish_get_irq_num env s)" and "s' = c07e1_ARM_irq env s" and "log_of (trace s) = (E, cs, ks, on)"
  shows "pt s' = pt s" "if irq = IRQ_TTY2 then log_of (trace s') = (E, cs, ks @ [ch s'], on) else ch s' = ch s \<and> log_of (trace s') = (E, cs, ks, on)"
  using assms(1,3) unfolding assms(2)
  by (simp_all add: c07e1_ARM_irq_def Let_def split_beta getchar_def log_step_bus)

lemma micro_ch: "ch (c07e1_micro env s) = (if pt s = P_clear then 0 else ch s)"
  by (simp add: c07e1_micro_def split_beta goldfish_mask_irq_def goldfish_unmask_irq_def writel_def Let_def split: point.split)

lemma micro_log:
  "log_of (trace s) = (E, cs, ks, on) \<Longrightarrow> log_of (trace (c07e1_micro env s)) =
     (case pt s of P_print \<Rightarrow> (E, cs @ [ch s], ks, on) | P_mask \<Rightarrow> (E - {IRQ_TIMER}, cs, ks, on) | P_say_d \<Rightarrow> (E, cs, ks, False)
      | P_unmask \<Rightarrow> (insert IRQ_TIMER E, cs, ks, on) | P_say_e \<Rightarrow> (E, cs, ks, True) | _ \<Rightarrow> (E, cs, ks, on))"
  by (simp add: c07e1_micro_def split_beta log_step_bus split: point.split)

text \<open>The character that the next report of a command will show.\<close>

definition pending_key :: "loop_st \<Rightarrow> int list" where
  "pending_key s = (if pt s = P_print \<or> pt s \<in> {P_test, P_read, P_end, P_idle} \<and> ch s \<noteq> 0 then [ch s] else [])"

definition loop_inv :: "loop_st \<Rightarrow> bool" where
  "loop_inv s \<longleftrightarrow>
     IRQ_TTY2 \<in> irq_enabled (trace s) \<and> irq_enabled (trace s) \<subseteq> {IRQ_TIMER, IRQ_TTY2} \<and>
     (IRQ_TIMER \<in> irq_enabled (trace s) \<longleftrightarrow> pt s = P_say_e \<or> pt s \<noteq> P_say_d \<and> reported_on (trace s)) \<and>
     subseq (commands (trace s) @ pending_key s) (keys (trace s))"

lemma loop_inv_log:
  "loop_inv s \<longleftrightarrow> (case log_of (trace s) of (E, cs, ks, on) \<Rightarrow> IRQ_TTY2 \<in> E \<and> E \<subseteq> {IRQ_TIMER, IRQ_TTY2} \<and>
     (IRQ_TIMER \<in> E \<longleftrightarrow> pt s = P_say_e \<or> pt s \<noteq> P_say_d \<and> on) \<and> subseq (cs @ pending_key s) ks)"
  by (auto simp: loop_inv_def log_of_def)

lemma subseq_extend: "subseq xs (xs @ ys)"
  by (induction xs) simp_all

lemma subseq_shorter: "subseq (xs @ ys) zs \<Longrightarrow> subseq xs zs"
  by (rule subseq_order.trans [OF subseq_extend])

lemma subseq_longer: "subseq xs ys \<Longrightarrow> subseq xs (ys @ zs)"
  by (rule subseq_order.trans [OF _ subseq_extend])

lemma loop_inv_main: "loop_inv s \<Longrightarrow> loop_inv (c07e1_micro env s)"
proof -
  assume inv: "loop_inv s"
  obtain E cs ks on where l: "log_of (trace s) = (E, cs, ks, on)" by (metis prod_cases4)
  note m = micro_log [OF l, of env]
  show ?thesis
    using inv by (cases "pt s") (auto simp: loop_inv_log l m pending_key_def micro_pt micro_ch dest: subseq_shorter)
qed

lemma loop_inv_irq: "loop_inv s \<Longrightarrow> loop_inv (c07e1_ARM_irq env s)"
proof -
  assume inv: "loop_inv s"
  obtain E cs ks on where l: "log_of (trace s) = (E, cs, ks, on)" by (metis prod_cases4)
  note h = irq_log [OF refl refl l, of env]
  have "subseq (cs @ xs) ks \<Longrightarrow> subseq (cs @ ys) (ks @ ys)" for xs ys
    by (rule list_emb_append_mono) (auto dest: subseq_shorter)
  moreover have "subseq cs ks \<Longrightarrow> subseq cs (ks @ ys)" for ys by (rule subseq_longer)
  ultimately show ?thesis
    using inv h by (auto simp: loop_inv_log l pending_key_def dest: subseq_shorter split: if_splits)
qed

lemma loop_inv_reach: "c07e1_reach env s0 s \<Longrightarrow> loop_inv s0 \<Longrightarrow> loop_inv s"
  by (induction rule: c07e1_reach.induct) (auto elim!: c07e1_step.cases intro: loop_inv_main loop_inv_irq)

lemma finish_log:
  "log_of (trace s) = (E, cs, ks, on) \<Longrightarrow> pt (c07e1_finish env s) = P_test \<and> keys (trace (c07e1_finish env s)) = ks \<and>
   commands (trace (c07e1_finish env s)) = cs @ (if pt s = P_test \<and> ch s \<noteq> 0 \<or> pt s = P_print then [ch s] else []) \<and>
   ch (c07e1_finish env s) = (if pt s \<in> {P_read, P_end, P_idle} then ch s else 0)"
proof (induction env s arbitrary: E cs ks on rule: c07e1_finish.induct)
  case (1 env s)
  have e: "c07e1_finish env s = (if pt (c07e1_micro env s) = P_test then c07e1_micro env s else c07e1_finish env (c07e1_micro env s))"
    by (subst c07e1_finish.simps) (simp add: Let_def)
  note m = micro_log [OF 1(2), of env] and ih = 1(1) [OF refl]
  show ?case
  proof (cases "pt s")
    case P_print
    then show ?thesis using ih m by (simp add: e micro_pt micro_ch)
  qed (use ih m in \<open>simp_all add: e micro_pt micro_ch log_of_def split: if_splits\<close>)
qed

section \<open>The steps and the loop body\<close>

lemma pt_frame:
  "printf f xs (s\<lparr>pt := p\<rparr>) = (printf f xs s)\<lparr>pt := p\<rparr>"
  "goldfish_mask_irq env i (s\<lparr>pt := p\<rparr>) = (goldfish_mask_irq env i s)\<lparr>pt := p\<rparr>"
  "goldfish_unmask_irq env i (s\<lparr>pt := p\<rparr>) = (goldfish_unmask_irq env i s)\<lparr>pt := p\<rparr>"
  "goldfish_timer_read env (s\<lparr>pt := p\<rparr>) = (fst (goldfish_timer_read env s), (snd (goldfish_timer_read env s))\<lparr>pt := p\<rparr>)"
  by (simp_all add: printf_def goldfish_mask_irq_def goldfish_unmask_irq_def goldfish_timer_read_def writel_def readl_def Let_def split_beta)

lemma finish_step:
  "c07e1_finish env s = (if pt (c07e1_micro env s) = P_test then c07e1_micro env s else c07e1_finish env (c07e1_micro env s))"
  by (subst c07e1_finish.simps) (simp add: Let_def)

lemma bus_vars [simp]:
  "ch (goldfish_mask_irq env i s) = ch s" "ch (goldfish_unmask_irq env i s) = ch s"
  "main_tm (goldfish_mask_irq env i s) = main_tm s" "main_tm (goldfish_unmask_irq env i s) = main_tm s" "main_tm (printf f xs s) = main_tm s"
  by (simp_all add: goldfish_mask_irq_def goldfish_unmask_irq_def writel_def printf_def Let_def)

section \<open>Properties\<close>

definition c07e1_loop_boot :: loop_st where
  "c07e1_loop_boot = \<lparr>trace = [], mem = (\<lambda>_. 0), timestamp = 0, lastdec = 0, ch = 0, main_tm = 0, cpsr = 0xD3, pt = P_test\<rparr>"

definition c07e1_loop_key :: loop_st where
  "c07e1_loop_key = c07e1_loop_boot\<lparr>ch := 100\<rparr>"

definition key_env :: env where
  "key_env = \<lparr>env_read = (\<lambda>h a. IRQ_TTY2), env_dma = (\<lambda>h m. m), env_getchar = (\<lambda>h. 100)\<rparr>"

text \<open>The steps of the main loop, run without an interrupt, are one iteration of the loop as it is written.\<close>

lemma c07e1_micro_iteration:
  assumes "pt s = P_test"
  shows "c07e1_finish env s = (c07e1_main_step env s)\<lparr>pt := P_test\<rparr>"
proof -
  consider "ch s = 0" | "ch s = 100" | "ch s = 101" | "ch s \<noteq> 0" "ch s \<noteq> 100" "ch s \<noteq> 101" by blast
  then show ?thesis
    using assms by cases (simp_all add: finish_step c07e1_micro_def c07e1_main_step_def pt_frame split_beta Let_def)
qed

lemma c07e1_micro_iteration_example:
  "ch (c07e1_finish (clock_env (\<lambda>_. 0)) c07e1_loop_key) = 0"
  using c07e1_micro_iteration [of c07e1_loop_key "clock_env (\<lambda>_. 0)"]
  by (simp add: c07e1_loop_key_def c07e1_loop_boot_def c07e1_main_step_def split_beta Let_def)

text \<open>C27: the main program of c07e1 and its interrupt handler, in every order in which the handler can interrupt the steps of the loop. The
  keyboard interrupt stays enabled and no interrupt but it and the timer's is ever enabled; the timer interrupt is enabled exactly when the
  last message about it says so, except between the change and its message; and the commands the main program reports are typed
  characters in the order in which they were typed, each reported at most once.\<close>

theorem c07e1_interleaved:
  assumes boot: "trace s0 = []" "ch s0 = 0" "pt s0 = P_test" and reach: "c07e1_reach env (c07e1_main_init env s0) s"
  shows "IRQ_TTY2 \<in> irq_enabled (trace s) \<and> irq_enabled (trace s) \<subseteq> {IRQ_TIMER, IRQ_TTY2} \<and>
    (pt s \<noteq> P_say_d \<and> pt s \<noteq> P_say_e \<longrightarrow> (IRQ_TIMER \<in> irq_enabled (trace s) \<longleftrightarrow> reported_on (trace s))) \<and>
    subseq (commands (trace s)) (keys (trace s))"
proof -
  have "log_of [e] = log_step e (log_of [])" for e using log_append [of "[]" "[e]"] by simp
  moreover have "log_of [] = ({}, [], [], True)" by (simp add: log_of_def irq_enabled_def commands_def keys_def reported_on_def)
  ultimately have "log_of (trace (c07e1_main_init env s0)) = ({IRQ_TTY2, IRQ_TIMER}, [], [], True)"
    using boot(1) by (simp add: c07e1_main_init_def Let_def log_step_bus)
  moreover have "ch (c07e1_main_init env s0) = 0" "pt (c07e1_main_init env s0) = P_test"
    using boot(2,3) by (simp_all add: c07e1_main_init_def Let_def goldfish_unmask_irq_def writel_def printf_def)
  ultimately have "loop_inv (c07e1_main_init env s0)" by (simp add: loop_inv_log pending_key_def)
  from loop_inv_reach [OF reach this] show ?thesis by (auto simp: loop_inv_def dest: subseq_shorter)
qed

theorem c07e1_interleaved_witness:
  "\<exists>s. c07e1_reach key_env (c07e1_main_init key_env c07e1_loop_boot) s \<and> commands (trace s) = [100] \<and> IRQ_TTY2 \<in> irq_enabled (trace s) \<and>
     subseq [100] (keys (trace s))"
proof -
  let ?s1 = "c07e1_ARM_irq key_env (c07e1_main_init key_env c07e1_loop_boot)"
  let ?s3 = "c07e1_micro key_env (c07e1_micro key_env ?s1)"
  have r: "c07e1_reach key_env (c07e1_main_init key_env c07e1_loop_boot) ?s3"
    by (intro c07e1_reach.step [OF _ c07e1_step.main] c07e1_reach.step [OF c07e1_reach.start c07e1_step.irq])
  obtain E cs ks on where l: "log_of (trace (c07e1_main_init key_env c07e1_loop_boot)) = (E, cs, ks, on)" by (metis prod_cases4)
  have i: "pt (c07e1_main_init key_env c07e1_loop_boot) = P_test" "commands (trace (c07e1_main_init key_env c07e1_loop_boot)) = []"
    by (simp_all add: c07e1_main_init_def Let_def c07e1_loop_boot_def goldfish_unmask_irq_def writel_def commands_def)
  have "ch ?s1 = 100"
    by (simp add: c07e1_ARM_irq_def Let_def split_beta getchar_def key_env_def goldfish_get_irq_num_def readl_def)
  have n: "fst (goldfish_get_irq_num key_env s) = IRQ_TTY2" for s :: loop_st
    by (simp add: key_env_def goldfish_get_irq_num_def readl_def)
  note l1 = irq_log [OF refl refl l, of key_env]
  have c: "ch ?s1 = 100" "pt ?s1 = P_test" using \<open>ch ?s1 = 100\<close> l1(1) i(1) by simp_all
  have "log_of (trace ?s1) = (E, cs, ks @ [100], on)" using l1(2) n c(1) by simp
  from micro_log [OF micro_log [OF this, of key_env, unfolded c(2) point.case], of key_env]
  have "log_of (trace ?s3) = (E, cs @ [100], ks @ [100], on)" using c by (simp add: micro_pt micro_ch)
  moreover have "cs = []" using l i(2) by (simp add: log_of_def)
  ultimately have "commands (trace ?s3) = [100]" by (simp add: log_of_def)
  then show ?thesis using r c07e1_interleaved [OF _ _ _ r] by (auto simp: c07e1_loop_boot_def)
qed

text \<open>C28: where a key press arrives decides what becomes of it. Let the handler read the character \<open>c\<close>, not 0, in front of a step of the main
  loop, and no other interrupt follow. In front of the test of \<open>ch\<close> or of the report, \<open>c\<close> is reported in this iteration; after \<open>ch\<close>
  has been cleared, or when there was no command, it is reported in the next one; in between it is lost: neither this nor the next
  iteration reports it.\<close>

theorem c07e1_key_window:
  assumes irq: "fst (goldfish_get_irq_num env s) = IRQ_TTY2" and s1: "s1 = c07e1_ARM_irq env s" "ch s1 \<noteq> 0"
    and s2: "s2 = c07e1_finish env s1" and s3: "s3 = c07e1_finish env s2"
  shows "keys (trace s3) = keys (trace s) @ [ch s1] \<and>
    commands (trace s2) = commands (trace s) @ (if pt s \<in> {P_test, P_print} then [ch s1] else []) \<and>
    commands (trace s3) = commands (trace s) @ (if pt s \<in> {P_test, P_print, P_read, P_end, P_idle} then [ch s1] else []) \<and>
    pt s2 = P_test \<and> pt s3 = P_test \<and> ch s3 = 0"
proof -
  obtain E cs ks on where l: "log_of (trace s) = (E, cs, ks, on)" by (metis prod_cases4)
  have p: "pt s1 = pt s" "log_of (trace s1) = (E, cs, ks @ [ch s1], on)" using irq_log [OF refl s1(1) l] irq by simp_all
  note f = finish_log [OF p(2), of env, folded s2]
  obtain E' on' where l2: "log_of (trace s2) = (E', commands (trace s2), keys (trace s2), on')" by (simp add: log_of_def)
  note g = finish_log [OF l2, of env, folded s3]
  have cs: "cs = commands (trace s)" "ks = keys (trace s)" using l by (simp_all add: log_of_def)
  show ?thesis using f g p(1) s1(2) by (cases "pt s") (simp_all add: cs)
qed

theorem c07e1_key_window_witness:
  "commands (trace (c07e1_finish key_env (c07e1_ARM_irq key_env (c07e1_loop_key\<lparr>pt := P_if_e\<rparr>)))) = [] \<and>
   commands (trace (c07e1_finish key_env (c07e1_ARM_irq key_env c07e1_loop_key))) = [100]"
proof -
  have n: "fst (goldfish_get_irq_num key_env s) = IRQ_TTY2" for s :: loop_st
    by (simp add: key_env_def goldfish_get_irq_num_def readl_def)
  have c: "ch (c07e1_ARM_irq key_env s) = 100" for s :: loop_st
    by (simp add: c07e1_ARM_irq_def Let_def split_beta getchar_def key_env_def goldfish_get_irq_num_def readl_def)
  show ?thesis
    using c07e1_key_window [OF n refl _ refl refl, of "c07e1_loop_key\<lparr>pt := P_if_e\<rparr>"] c07e1_key_window [OF n refl _ refl refl, of c07e1_loop_key]
    by (simp add: c c07e1_loop_key_def c07e1_loop_boot_def commands_def)
qed

end
