(* ===== verification/Isr.thy ===== *)
theory Isr
  imports Bsp Arm
begin

text \<open>
  The interrupt service routine of \<^verbatim>\<open>drivers/isr.c\<close>, first as a function on the state of the processor, then with nested
  interrupts. \<open>BSP_irq\<close> masks the interrupt at the controller, then opens the
  processor for other interrupts while the application's handler runs, closes it again and unmasks
  the interrupt. For the nesting, its run is cut into the phases between two changes of the processor's IRQ flag or
  of the controller's mask, and the phases of several activations interleave: the state keeps a
  stack of activations, the one that runs at the head. The main program runs when the stack is
  empty. The controller reports the lowest interrupt that is pending and enabled (comment at
  \<open>goldfish_get_irq_num\<close> in \<^verbatim>\<open>bsp.c\<close>).
\<close>

section \<open>The code\<close>

text \<open>\<open>BSP_irq\<close>, with the application's \<open>irq_handler\<close> as an argument. The two \<open>MSR\<close> instructions around the call write the control
  bits of the status register: system mode with IRQs enabled, and system mode with IRQs disabled. \<open>BSP_fiq\<close> does nothing.\<close>

definition BSP_irq ::
  "env \<Rightarrow> (u32 \<Rightarrow> 'a arm_scheme \<Rightarrow> 'a arm_scheme) \<Rightarrow> 'a arm_scheme \<Rightarrow> 'a arm_scheme" where
  "BSP_irq env irq_handler s =
     (let (irq, s) = goldfish_get_irq_num env s;
          s = goldfish_mask_irq env irq s;
          s = exec (MSR_cpsr_c 0x1F) s;
          s = irq_handler irq s;
          s = exec (MSR_cpsr_c (0x1F OR 0x80)) s
      in goldfish_unmask_irq env irq s)"

definition BSP_fiq :: "'a machine_scheme \<Rightarrow> 'a machine_scheme" where
  "BSP_fiq m = m"

section \<open>States and steps\<close>

datatype phase = Entered | Masked | Handling | Locked | Unmasked

record isr_st = machine +
  cpsr_i :: bool               \<comment> \<open>IRQs are disabled at the processor\<close>
  pending :: "u32 set"
  frames :: "(u32 \<times> phase) list"

definition quiet_event :: "io \<Rightarrow> bool" where
  "quiet_event e \<longleftrightarrow> (\<forall>E. irq_mask_step e E = E)"

text \<open>The steps, in the order of the code: the exception entry, the read of the number with the write
  that masks it, \<open>MSR cpsr_c,#(0x1F)\<close>, the bus accesses of the handler and its acknowledgement of the
  device, \<open>MSR cpsr_c,#(0x1F | 0x80)\<close>, the write that unmasks, and the return, which restores the
  processor state of the interrupted code. A device can raise one of the interrupts of
  \<^verbatim>\<open>hardware.h\<close>, of which \<open>IRQ_RANDOM\<close> is the last, at any time.\<close>

inductive isr_step :: "env \<Rightarrow> isr_st \<Rightarrow> isr_st \<Rightarrow> bool" for env where
  raise: "i \<le> IRQ_RANDOM \<Longrightarrow> isr_step env s (s\<lparr>pending := insert i (pending s)\<rparr>)"
| entry: "\<not> cpsr_i s \<Longrightarrow> pending s \<inter> irq_enabled (trace s) \<noteq> {} \<Longrightarrow>
    isr_step env s (s\<lparr>cpsr_i := True, frames := (0, Entered) # frames s\<rparr>)"
| mask: "frames s = (x, Entered) # fs \<Longrightarrow> goldfish_get_irq_num env s = (irq, s1) \<Longrightarrow>
    irq \<in> pending s \<inter> irq_enabled (trace s) \<Longrightarrow> \<forall>j \<in> pending s \<inter> irq_enabled (trace s). irq \<le> j \<Longrightarrow>
    isr_step env s ((goldfish_mask_irq env irq s1)\<lparr>frames := (irq, Masked) # fs\<rparr>)"
| unlock: "frames s = (irq, Masked) # fs \<Longrightarrow>
    isr_step env s (s\<lparr>cpsr_i := False, frames := (irq, Handling) # fs\<rparr>)"
| handler_read: "frames s = (irq, Handling) # fs \<Longrightarrow> isr_step env s (snd (readl env a s))"
| handler_write: "frames s = (irq, Handling) # fs \<Longrightarrow> quiet_event (Wr a v) \<Longrightarrow> isr_step env s (writel env v a s)"
| handler_ack: "frames s = (irq, Handling) # fs \<Longrightarrow> isr_step env s (s\<lparr>pending := pending s - {irq}\<rparr>)"
| lock: "frames s = (irq, Handling) # fs \<Longrightarrow>
    isr_step env s (s\<lparr>cpsr_i := True, frames := (irq, Locked) # fs\<rparr>)"
| unmask: "frames s = (irq, Locked) # fs \<Longrightarrow>
    isr_step env s ((goldfish_unmask_irq env irq s)\<lparr>frames := (irq, Unmasked) # fs\<rparr>)"
| return: "frames s = (irq, Unmasked) # fs \<Longrightarrow> isr_step env s (s\<lparr>cpsr_i := False, frames := fs\<rparr>)"
| main_read: "frames s = [] \<Longrightarrow> isr_step env s (snd (readl env a s))"
| main_write: "frames s = [] \<Longrightarrow> isr_step env s (writel env v a s)"

inductive isr_reach :: "env \<Rightarrow> isr_st \<Rightarrow> isr_st \<Rightarrow> bool" for env s0 where
  start: "isr_reach env s0 s0"
| step: "isr_reach env s0 s \<Longrightarrow> isr_step env s s' \<Longrightarrow> isr_reach env s0 s'"

section \<open>The invariant\<close>

text \<open>The interrupts of the activations that hold their mask.\<close>

definition masked_irqs :: "(u32 \<times> phase) list \<Rightarrow> u32 list" where
  "masked_irqs fs = map fst (filter (\<lambda>f. snd f \<in> {Masked, Handling, Locked}) fs)"

text \<open>Every suspended activation is inside its handler; an activation in another phase runs with IRQs
  disabled; the masked interrupts are different from each other, not enabled, and interrupts of
  the board.\<close>

definition isr_inv :: "isr_st \<Rightarrow> bool" where
  "isr_inv s \<longleftrightarrow>
     (\<forall>f \<in> set (tl (frames s)). snd f = Handling) \<and>
     (cpsr_i s \<longleftrightarrow> frames s \<noteq> [] \<and> snd (hd (frames s)) \<noteq> Handling) \<and>
     distinct (masked_irqs (frames s)) \<and>
     set (masked_irqs (frames s)) \<inter> irq_enabled (trace s) = {} \<and>
     (\<forall>i \<in> pending s \<union> set (masked_irqs (frames s)). i \<le> IRQ_RANDOM)"

lemma masked_irqs_simps [simp]:
  "masked_irqs [] = []"
  "masked_irqs ((i, p) # fs) = (if p \<in> {Masked, Handling, Locked} then i # masked_irqs fs else masked_irqs fs)"
  by (simp_all add: masked_irqs_def)

lemma isr_vars_bus [simp]:
  "cpsr_i (writel env v a s) = cpsr_i s" "pending (writel env v a s) = pending s" "frames (writel env v a s) = frames s"
  "cpsr_i (snd (readl env a s)) = cpsr_i s" "pending (snd (readl env a s)) = pending s"
  "frames (snd (readl env a s)) = frames s"
  "cpsr_i (goldfish_mask_irq env i s) = cpsr_i s" "cpsr_i (goldfish_unmask_irq env i s) = cpsr_i s"
  "pending (goldfish_mask_irq env i s) = pending s" "pending (goldfish_unmask_irq env i s) = pending s"
  by (simp_all add: writel_def readl_def Let_def goldfish_mask_irq_def goldfish_unmask_irq_def)

lemma get_irq_num_simps:
  assumes "goldfish_get_irq_num env s = (irq, s1)"
  shows "cpsr_i s1 = cpsr_i s" "pending s1 = pending s" "irq_enabled (trace s1) = irq_enabled (trace s)"
proof -
  have "s1 = snd (goldfish_get_irq_num env s)" using assms by simp
  then show "cpsr_i s1 = cpsr_i s" "pending s1 = pending s" "irq_enabled (trace s1) = irq_enabled (trace s)"
    by (simp_all only: irq_enabled_functions(4)) (simp_all add: goldfish_get_irq_num_def)
qed

lemma quiet_read: "irq_mask_step (Rd a v) E = E"
  by (simp add: irq_mask_step_def)

lemma isr_inv_step: "isr_step env s s' \<Longrightarrow> isr_inv s \<Longrightarrow> isr_inv s'"
proof (induction rule: isr_step.induct)
  case (entry s)
  then show ?case by (cases "frames s") (auto simp: isr_inv_def)
next
  case (mask s x fs irq s1)
  then show ?case using get_irq_num_simps [OF mask(2)] by (auto simp: isr_inv_def)
next
  case (return s irq fs)
  then show ?case by (cases fs) (auto simp: isr_inv_def split: if_splits)
qed (auto simp: isr_inv_def quiet_read quiet_event_def)

lemma isr_inv_reach: "isr_reach env s0 s \<Longrightarrow> isr_inv s0 \<Longrightarrow> isr_inv s"
  by (induction rule: isr_reach.induct) (auto intro: isr_inv_step)

lemma frames_bound:
  assumes "\<forall>f \<in> set (tl fs). snd f = Handling"
  shows "length fs \<le> Suc (length (masked_irqs fs))"
proof (cases fs)
  case (Cons f gs)
  then have "filter (\<lambda>f. snd f \<in> {Masked, Handling, Locked}) gs = gs" using assms by (intro filter_True) auto
  then show ?thesis using Cons by (simp add: masked_irqs_def)
qed simp

lemma distinct_irqs_bound:
  assumes "distinct is" and "\<forall>i \<in> set is. i \<le> (20 :: u32)"
  shows "length is \<le> 21"
proof -
  have "unat ` set is \<subseteq> {..20}" using assms(2) by (auto simp: word_le_nat_alt)
  then have "card (unat ` set is) \<le> card {..20 :: nat}" by (intro card_mono) auto
  moreover have "card (unat ` set is) = length is"
    using assms(1) by (simp add: card_image inj_on_def word_unat_eq_iff distinct_card)
  ultimately show ?thesis by simp
qed

section \<open>From the interrupt of the main program to its continuation\<close>

definition serve_step :: "env \<Rightarrow> isr_st \<Rightarrow> isr_st \<Rightarrow> bool" where
  "serve_step env s s' \<longleftrightarrow> frames s \<noteq> [] \<and> isr_step env s s'"

inductive isr_serve :: "env \<Rightarrow> isr_st \<Rightarrow> isr_st \<Rightarrow> bool" for env s0 where
  first: "frames s0 = [] \<Longrightarrow> isr_step env s0 s \<Longrightarrow> frames s \<noteq> [] \<Longrightarrow> isr_serve env s0 s"
| more: "isr_serve env s0 s \<Longrightarrow> serve_step env s s' \<Longrightarrow> isr_serve env s0 s'"

text \<open>The mask is the one at the interrupt, less the interrupts of the activations that hold their mask.\<close>

definition mask_kept :: "u32 set \<Rightarrow> isr_st \<Rightarrow> bool" where
  "mask_kept E s \<longleftrightarrow> set (masked_irqs (frames s)) \<subseteq> E \<and> irq_enabled (trace s) = E - set (masked_irqs (frames s))"

lemma mask_kept_step: "isr_step env s s' \<Longrightarrow> frames s \<noteq> [] \<Longrightarrow> isr_inv s \<Longrightarrow> mask_kept E s \<Longrightarrow> mask_kept E s'"
proof (induction rule: isr_step.induct)
  case (mask s x fs irq s1)
  then show ?case using get_irq_num_simps [OF mask(2)] by (auto simp: mask_kept_def)
next
  case (unmask s irq fs)
  then show ?case by (auto simp: mask_kept_def isr_inv_def)
qed (auto simp: mask_kept_def quiet_read quiet_event_def)

lemma mask_kept_serve:
  assumes "isr_serve env s t" and "isr_inv s"
  shows "isr_inv t \<and> mask_kept (irq_enabled (trace s)) t"
  using assms(1)
proof (induction rule: isr_serve.induct)
  case (first t)
  from first(2,1,3) have "frames t = [(0, Entered)] \<and> irq_enabled (trace t) = irq_enabled (trace s)"
    by (induction rule: isr_step.induct) (auto simp: quiet_read)
  then show ?case using isr_inv_step [OF first(2) assms(2)] by (simp add: mask_kept_def)
next
  case (more t t')
  then show ?case using isr_inv_step [of env t t'] mask_kept_step [of env t t'] by (simp add: serve_step_def)
qed

text \<open>An activation that has read its number can return: it finishes its handler, locks, unmasks and returns.\<close>

lemma serve_extend: "isr_serve env s t \<Longrightarrow> (serve_step env ^^ n) t t' \<Longrightarrow> isr_serve env s t'"
  by (induction n arbitrary: t') (auto intro: isr_serve.more)

lemma return_one:
  assumes "frames s = (irq, ph) # fs" and "ph \<noteq> Entered"
  shows "\<exists>n s'. n \<le> 4 \<and> (serve_step env ^^ n) s s' \<and> frames s' = fs"
proof -
  have one: "\<exists>s'. serve_step env s s' \<and> frames s' = (irq, q) # fs"
    if "frames s = (irq, p) # fs" "(p, q) \<in> {(Masked, Handling), (Handling, Locked), (Locked, Unmasked)}" for s p q
  proof -
    note pq = that(2)
    consider "p = Masked" "q = Handling" | "p = Handling" "q = Locked" | "p = Locked" "q = Unmasked" using pq by auto
    then show ?thesis
    proof cases
      case 1
      show ?thesis using isr_step.unlock [OF that(1) [unfolded 1(1)], of env] that(1) unfolding 1(2)
        by (intro exI conjI) (auto simp: serve_step_def)
    next
      case 2
      show ?thesis using isr_step.lock [OF that(1) [unfolded 2(1)], of env] that(1) unfolding 2(2)
        by (intro exI conjI) (auto simp: serve_step_def)
    next
      case 3
      show ?thesis using isr_step.unmask [OF that(1) [unfolded 3(1)], of env] that(1) unfolding 3(2)
        by (intro exI conjI) (auto simp: serve_step_def)
    qed
  qed
  have un: "\<exists>n s'. n \<le> 1 \<and> (serve_step env ^^ n) s s' \<and> frames s' = fs" if "frames s = (irq, Unmasked) # fs" for s
  proof -
    have "serve_step env s (s\<lparr>cpsr_i := False, frames := fs\<rparr>)" using isr_step.return [OF that] that by (simp add: serve_step_def)
    then show ?thesis by (intro exI [of _ 1] exI [of _ "s\<lparr>cpsr_i := False, frames := fs\<rparr>"]) (auto simp: relpowp.simps OO_def)
  qed
  have before: "\<exists>n s'. n \<le> Suc k \<and> (serve_step env ^^ n) s s' \<and> frames s' = fs"
    if "frames s = (irq, p) # fs" "(p, q) \<in> {(Masked, Handling), (Handling, Locked), (Locked, Unmasked)}"
      and "\<And>s. frames s = (irq, q) # fs \<Longrightarrow> \<exists>n s'. n \<le> k \<and> (serve_step env ^^ n) s s' \<and> frames s' = fs" for s p q k
  proof -
    note go = one [OF that(1,2)] and rest = that(3)
    obtain s1 where s1: "serve_step env s s1" "frames s1 = (irq, q) # fs" using go by blast
    obtain n s' where "n \<le> k" "(serve_step env ^^ n) s1 s'" "frames s' = fs" using rest [OF s1(2)] by blast
    then show ?thesis using relpowp_Suc_I2 [of "serve_step env", OF s1(1)] by (intro exI [of _ "Suc n"] exI [of _ s']) simp
  qed
  have lk: "\<exists>n s'. n \<le> 2 \<and> (serve_step env ^^ n) s s' \<and> frames s' = fs" if "frames s = (irq, Locked) # fs" for s
    using before [OF that, of Unmasked 1] un by (simp add: numeral_2_eq_2)
  have hd: "\<exists>n s'. n \<le> 3 \<and> (serve_step env ^^ n) s s' \<and> frames s' = fs" if "frames s = (irq, Handling) # fs" for s
    using before [OF that, of Locked 2] lk by (simp add: numeral_eq_Suc)
  have mk: "\<exists>n s'. n \<le> 4 \<and> (serve_step env ^^ n) s s' \<and> frames s' = fs" if "frames s = (irq, Masked) # fs" for s
    using before [OF that, of Handling 3] hd by (simp add: numeral_eq_Suc)
  have up: "\<exists>n s'. n \<le> 4 \<and> (serve_step env ^^ n) s s' \<and> frames s' = fs"
    if "\<exists>n s'. n \<le> k \<and> (serve_step env ^^ n) s s' \<and> frames s' = fs" "k \<le> 4" for k s
  proof -
    from that(1) obtain n s' where "n \<le> k" "(serve_step env ^^ n) s s'" "frames s' = fs" by auto
    then show ?thesis using \<open>k \<le> 4\<close> by (intro exI [of _ n] exI [of _ s']) simp
  qed
  show ?thesis using assms mk up [OF hd] up [OF lk] up [OF un] by (cases ph) simp_all
qed

lemma return_all:
  "(\<forall>f \<in> set (tl (frames s)). snd f = Handling) \<Longrightarrow> frames s = [] \<or> snd (hd (frames s)) \<noteq> Entered \<Longrightarrow>
   \<exists>n s'. n \<le> 4 * length (frames s) \<and> (serve_step env ^^ n) s s' \<and> frames s' = []"
proof (induction "frames s" arbitrary: s)
  case Nil
  then show ?case by (intro exI [of _ 0] exI [of _ s]) simp
next
  case (Cons f fs)
  obtain irq ph where f: "frames s = (irq, ph) # fs" "ph \<noteq> Entered"
    using Cons.hyps(2) Cons.prems(2) by (cases f) (auto simp flip: Cons.hyps(2))
  obtain n s1 where s1: "n \<le> 4" "(serve_step env ^^ n) s s1" "frames s1 = fs" using return_one [OF f] by blast
  have "\<forall>f \<in> set (tl fs). snd f = Handling" "fs = [] \<or> snd (hd fs) \<noteq> Entered"
    using Cons.prems(1) f(1) by (cases fs; auto)+
  then obtain k s' where "k \<le> 4 * length fs" "(serve_step env ^^ k) s1 s'" "frames s' = []"
    using Cons.hyps(1) [OF s1(3) [symmetric]] s1(3) by auto
  then show ?case using relpowp_trans [OF s1(2)] s1(1) f(1) by (intro exI [of _ "n + k"] exI [of _ s']) simp
qed

section \<open>Properties\<close>

definition isr_boot :: isr_st where
  "isr_boot = machine.extend (machine_boot\<lparr>trace := [Wr 0xff000010 3]\<rparr>) \<lparr>cpsr_i = False, pending = {}, frames = []\<rparr>"

lemma isr_boot_simps [simp]: "trace isr_boot = [Wr 0xff000010 3]" "cpsr_i isr_boot = False" "pending isr_boot = {}"
    "frames isr_boot = []"
  by (simp_all add: isr_boot_def machine.extend_def machine_boot_def)

text \<open>No interrupt is entered again before its handler returned. In every state that the main
  program, the devices and any nesting of interrupts can reach, the activations between the mask and
  the unmask belong to different interrupts, none of which the controller can report; so there are
  at most 22 activations on the stack at any time, one for each interrupt of the board and one that is
  entering or leaving.\<close>

lemma isr_no_reentry:
  assumes "isr_reach env s0 s" and "frames s0 = []" "\<not> cpsr_i s0" "\<forall>i \<in> pending s0. i \<le> IRQ_RANDOM"
  shows "distinct (masked_irqs (frames s)) \<and> set (masked_irqs (frames s)) \<inter> irq_enabled (trace s) = {} \<and>
     length (frames s) \<le> 22"
proof -
  have inv: "isr_inv s" by (rule isr_inv_reach [OF assms(1)]) (use assms in \<open>simp add: isr_inv_def\<close>)
  then have "length (masked_irqs (frames s)) \<le> 21" by (intro distinct_irqs_bound) (auto simp: isr_inv_def)
  moreover have "length (frames s) \<le> Suc (length (masked_irqs (frames s)))"
    using inv by (intro frames_bound) (simp add: isr_inv_def)
  ultimately show ?thesis using inv by (simp add: isr_inv_def)
qed

lemma demo_irq_run: "\<exists>s. isr_reach idle_env isr_boot s \<and> frames s = [(3, Handling)]"
proof -
  let ?s1 = "isr_boot\<lparr>pending := insert 3 (pending isr_boot)\<rparr>"
  let ?s2 = "?s1\<lparr>cpsr_i := True, frames := (0, Entered) # frames ?s1\<rparr>"
  let ?s3 = "(goldfish_mask_irq idle_env 3 (snd (goldfish_get_irq_num idle_env ?s2)))\<lparr>frames := (3, Masked) # []\<rparr>"
  have e: "irq_enabled [Wr 0xff000010 3] = {3}" by (simp add: irq_enabled_def irq_mask_step_def)
  have r1: "isr_reach idle_env isr_boot ?s1" by (rule isr_reach.step [OF isr_reach.start isr_step.raise]) simp
  have "isr_step idle_env ?s1 ?s2" by (rule isr_step.entry) (simp_all add: e)
  note r2 = isr_reach.step [OF r1 this]
  have "isr_step idle_env ?s2 ?s3"
    by (rule isr_step.mask [where x = 0 and irq = 3]) (simp_all add: e, simp add: goldfish_get_irq_num_def readl_def idle_env_def Let_def)
  note r3 = isr_reach.step [OF r2 this]
  have "frames ?s3 = (3, Masked) # []" by simp
  from isr_reach.step [OF r3 isr_step.unlock [OF this]] show ?thesis by (intro exI conjI) (assumption, simp)
qed

lemma isr_no_reentry_example:
  "\<exists>s. isr_reach idle_env isr_boot s \<and> frames s = [(3, Handling)] \<and> 3 \<notin> irq_enabled (trace s)"
proof -
  obtain s where s: "isr_reach idle_env isr_boot s" "frames s = [(3, Handling)]" using demo_irq_run by blast
  then show ?thesis using isr_no_reentry [OF s(1)] by auto
qed

text \<open>C26: interrupts leave the mask of the controller as they found it, and can always be served to the end. Let the main program be interrupted in a reachable state, and
  let the service routine, its handlers and the interrupts that nest in it take any steps. At any time, the activations between their mask and their unmask
  belong to different interrupts that were enabled at the interrupt, and the mask is the one at the interrupt less these; so when the main program continues, the mask is what it was.
  And unless a number has still to be read from the controller, all activations can return within four steps each.\<close>

theorem isr_unwinds:
  assumes boot: "isr_reach env s0 s" "frames s0 = []" "\<not> cpsr_i s0" "\<forall>i \<in> pending s0. i \<le> IRQ_RANDOM"
    and serve: "isr_serve env s t"
  shows "distinct (masked_irqs (frames t)) \<and> set (masked_irqs (frames t)) \<subseteq> irq_enabled (trace s) \<and>
    irq_enabled (trace t) = irq_enabled (trace s) - set (masked_irqs (frames t)) \<and>
    (frames t = [] \<or> snd (hd (frames t)) \<noteq> Entered \<longrightarrow>
      (\<exists>n t'. n \<le> 4 * length (frames t) \<and> (serve_step env ^^ n) t t' \<and> frames t' = [] \<and> irq_enabled (trace t') = irq_enabled (trace s)))"
proof -
  have "isr_inv s" by (rule isr_inv_reach [OF boot(1)]) (use boot in \<open>simp add: isr_inv_def\<close>)
  note k = mask_kept_serve [OF serve this]
  have "\<exists>n t'. n \<le> 4 * length (frames t) \<and> (serve_step env ^^ n) t t' \<and> frames t' = [] \<and> irq_enabled (trace t') = irq_enabled (trace s)"
    if top: "frames t = [] \<or> snd (hd (frames t)) \<noteq> Entered"
  proof -
    have "\<forall>f \<in> set (tl (frames t)). snd f = Handling" using k by (simp add: isr_inv_def)
    then obtain n t' where t': "n \<le> 4 * length (frames t)" "(serve_step env ^^ n) t t'" "frames t' = []" using return_all [OF _ top] by blast
    have "mask_kept (irq_enabled (trace s)) t'" using mask_kept_serve [OF serve_extend [OF serve t'(2)] \<open>isr_inv s\<close>] by simp
    then show ?thesis using t' by (intro exI [of _ n] exI [of _ t']) (simp add: mask_kept_def)
  qed
  then show ?thesis using k by (simp add: mask_kept_def isr_inv_def)
qed

lemma demo_irq_serve: "\<exists>s t. isr_reach idle_env isr_boot s \<and> isr_serve idle_env s t \<and> frames t = [(3, Handling)] \<and> irq_enabled (trace s) = {3}"
proof -
  let ?s1 = "isr_boot\<lparr>pending := insert 3 (pending isr_boot)\<rparr>"
  let ?s2 = "?s1\<lparr>cpsr_i := True, frames := (0, Entered) # frames ?s1\<rparr>"
  let ?s3 = "(goldfish_mask_irq idle_env 3 (snd (goldfish_get_irq_num idle_env ?s2)))\<lparr>frames := (3, Masked) # []\<rparr>"
  have e: "irq_enabled [Wr 0xff000010 3] = {3}" by (simp add: irq_enabled_def irq_mask_step_def)
  have r1: "isr_reach idle_env isr_boot ?s1" by (rule isr_reach.step [OF isr_reach.start isr_step.raise]) simp
  have "isr_step idle_env ?s1 ?s2" by (rule isr_step.entry) (simp_all add: e)
  then have v1: "isr_serve idle_env ?s1 ?s2" by (intro isr_serve.first) simp_all
  have "isr_step idle_env ?s2 ?s3"
    by (rule isr_step.mask [where x = 0 and irq = 3]) (simp_all add: e, simp add: goldfish_get_irq_num_def readl_def idle_env_def Let_def)
  then have v2: "isr_serve idle_env ?s1 ?s3" by (intro isr_serve.more [OF v1]) (simp add: serve_step_def)
  have "frames ?s3 = (3, Masked) # []" by simp
  note u = isr_step.unlock [OF this, of idle_env]
  have "isr_serve idle_env ?s1 (?s3\<lparr>cpsr_i := False, frames := [(3, Handling)]\<rparr>)"
    by (rule isr_serve.more [OF v2]) (use u in \<open>simp add: serve_step_def\<close>)
  then show ?thesis using r1 by (intro exI [of _ ?s1] exI conjI) (assumption, assumption, simp_all add: e)
qed

theorem isr_unwinds_witness:
  "\<exists>s t n t'. isr_reach idle_env isr_boot s \<and> isr_serve idle_env s t \<and> frames t = [(3, Handling)] \<and> 3 \<notin> irq_enabled (trace t) \<and>
     (serve_step idle_env ^^ n) t t' \<and> frames t' = [] \<and> irq_enabled (trace t') = {3}"
proof -
  obtain s t where st: "isr_reach idle_env isr_boot s" "isr_serve idle_env s t" "frames t = [(3, Handling)]" "irq_enabled (trace s) = {3}"
    using demo_irq_serve by blast
  have u: "irq_enabled (trace t) = irq_enabled (trace s) - set (masked_irqs (frames t)) \<and>
      (\<exists>n t'. n \<le> 4 * length (frames t) \<and> (serve_step idle_env ^^ n) t t' \<and> frames t' = [] \<and> irq_enabled (trace t') = irq_enabled (trace s))"
    using isr_unwinds [OF st(1) _ _ _ st(2)] st(3) by simp
  then obtain n t' where "(serve_step idle_env ^^ n) t t'" "frames t' = []" "irq_enabled (trace t') = irq_enabled (trace s)" by blast
  then show ?thesis using st u by (intro exI [of _ s] exI [of _ t] exI [of _ n] exI [of _ t']) simp
qed

end
