(* ===== verification/Nested.thy ===== *)
theory Nested
  imports Isr
begin

text \<open>
  A program whose \<open>irq_handler\<close> runs under \<open>BSP_irq\<close> of \<^verbatim>\<open>drivers/isr.c\<close>, with interrupts enabled. The main loop and the handler of the program are cut into
  steps, and are the parameter of the step relation; \<open>BSP_irq\<close> is cut into the phases of theory Isr. The state has the data of
  the program with the trace, the point in the main loop, the interrupts that devices have raised, and a stack of activations, the one that runs at the
  head. What holds of the stack and of the mask for every such program is proved in the locale \<open>nested_program\<close>, which theories C07_Nested and C07_Clock
  interpret for c07e2 and c07e3.
\<close>

section \<open>States and steps\<close>

datatype 'h aphase = A_entered | A_masked | A_handler 'h | A_locked | A_unmasked

record ('s, 'p, 'h) nest =
  prog :: 's
  npt :: 'p
  irqs_off :: bool
  raised :: "u32 set"
  halted :: "fault option"
  acts :: "(u32 \<times> 'h aphase) list"

text \<open>A program: one step of its main loop, \<open>None\<close> where the step does not end, and one step of its handler for an interrupt, each with a fault
  as a possible result; and the first and the last point of the handler.\<close>

record ('s, 'p, 'h) program =
  main_micro :: "'p \<Rightarrow> 's \<Rightarrow> ('p \<times> 's) result option"
  irq_micro :: "u32 \<Rightarrow> 'h \<Rightarrow> 's \<Rightarrow> ('h \<times> 's) result"
  irq_start :: 'h
  irq_end :: 'h

text \<open>The steps of the whole system. \<open>raise\<close>: a device raises an interrupt. \<open>entry\<close> to \<open>return\<close>: \<open>ARM_irq\<close> and \<open>BSP_irq\<close>, as in theory Isr; the
  handler runs with interrupts enabled, and the device takes its interrupt back while its handler runs. \<open>main\<close>: the main
  program runs when no handler is active. A step that faults leaves the state as it was before it, and the fault in \<open>halted\<close>; what the machine
  does after that is undefined, and a run ends there.\<close>

inductive nest_step ::
  "env \<Rightarrow> ('a machine_scheme, 'p, 'h) program \<Rightarrow> ('a machine_scheme, 'p, 'h) nest \<Rightarrow> ('a machine_scheme, 'p, 'h) nest \<Rightarrow> bool"
  for env P where
  raise: "nest_step env P s (s\<lparr>raised := insert i (raised s)\<rparr>)"
| entry: "\<not> irqs_off s \<Longrightarrow> raised s \<inter> irq_enabled (trace (prog s)) \<noteq> {} \<Longrightarrow>
    nest_step env P s (s\<lparr>irqs_off := True, acts := (0, A_entered) # acts s\<rparr>)"
| mask: "acts s = (x, A_entered) # fs \<Longrightarrow> goldfish_get_irq_num env (prog s) = (irq, s1) \<Longrightarrow>
    irq \<in> raised s \<inter> irq_enabled (trace (prog s)) \<Longrightarrow>
    nest_step env P s (s\<lparr>prog := goldfish_mask_irq env irq s1, acts := (irq, A_masked) # fs\<rparr>)"
| unlock: "acts s = (irq, A_masked) # fs \<Longrightarrow> nest_step env P s (s\<lparr>irqs_off := False, acts := (irq, A_handler (irq_start P)) # fs\<rparr>)"
| handler: "acts s = (irq, A_handler h) # fs \<Longrightarrow> irq_micro P irq h (prog s) = Inr (h', s1) \<Longrightarrow>
    nest_step env P s (s\<lparr>prog := s1, acts := (irq, A_handler h') # fs\<rparr>)"
| handler_fault: "acts s = (irq, A_handler h) # fs \<Longrightarrow> irq_micro P irq h (prog s) = Inl f \<Longrightarrow> nest_step env P s (s\<lparr>halted := Some f\<rparr>)"
| ack: "acts s = (irq, A_handler h) # fs \<Longrightarrow> nest_step env P s (s\<lparr>raised := raised s - {irq}\<rparr>)"
| lock: "acts s = (irq, A_handler (irq_end P)) # fs \<Longrightarrow> nest_step env P s (s\<lparr>irqs_off := True, acts := (irq, A_locked) # fs\<rparr>)"
| unmask: "acts s = (irq, A_locked) # fs \<Longrightarrow>
    nest_step env P s (s\<lparr>prog := goldfish_unmask_irq env irq (prog s), acts := (irq, A_unmasked) # fs\<rparr>)"
| return: "acts s = (irq, A_unmasked) # fs \<Longrightarrow> nest_step env P s (s\<lparr>irqs_off := False, acts := fs\<rparr>)"
| main: "acts s = [] \<Longrightarrow> main_micro P (npt s) (prog s) = Some (Inr (p, s1)) \<Longrightarrow> nest_step env P s (s\<lparr>prog := s1, npt := p\<rparr>)"
| main_fault: "acts s = [] \<Longrightarrow> main_micro P (npt s) (prog s) = Some (Inl f) \<Longrightarrow> nest_step env P s (s\<lparr>halted := Some f\<rparr>)"

inductive nest_reach ::
  "env \<Rightarrow> ('a machine_scheme, 'p, 'h) program \<Rightarrow> ('a machine_scheme, 'p, 'h) nest \<Rightarrow> ('a machine_scheme, 'p, 'h) nest \<Rightarrow> bool"
  for env P s0 where
  start: "nest_reach env P s0 s0"
| step: "nest_reach env P s0 s \<Longrightarrow> halted s = None \<Longrightarrow> nest_step env P s s' \<Longrightarrow> nest_reach env P s0 s'"

section \<open>The invariant of the stack and the mask\<close>

text \<open>The interrupts of the activations that hold their mask.\<close>

fun holds :: "'h aphase \<Rightarrow> bool" where
  "holds A_entered = False" | "holds A_unmasked = False" | "holds A_masked = True" | "holds (A_handler p) = True" | "holds A_locked = True"

definition held :: "(u32 \<times> 'h aphase) list \<Rightarrow> u32 list" where
  "held fs = map fst (filter (\<lambda>f. holds (snd f)) fs)"

definition in_handler :: "u32 \<times> 'h aphase \<Rightarrow> bool" where
  "in_handler f \<longleftrightarrow> (\<exists>p. snd f = A_handler p)"

text \<open>Every suspended activation is inside its handler; the processor is closed while an activation is in another phase; an activation
  that does not hold its mask leaves an interrupt enabled. The interrupts that are held or enabled are those that the program wants to be served.\<close>

definition nest_inv :: "('p \<Rightarrow> 'a machine_scheme \<Rightarrow> u32 set) \<Rightarrow> ('a machine_scheme, 'p, 'h) nest \<Rightarrow> bool" where
  "nest_inv wanted s \<longleftrightarrow>
     (\<forall>f \<in> set (tl (acts s)). in_handler f) \<and> (irqs_off s \<longleftrightarrow> acts s \<noteq> [] \<and> \<not> in_handler (hd (acts s))) \<and>
     distinct (held (acts s)) \<and> set (held (acts s)) \<inter> irq_enabled (trace (prog s)) = {} \<and>
     set (held (acts s)) \<union> irq_enabled (trace (prog s)) = wanted (npt s) (prog s) \<and>
     (irqs_off s \<and> \<not> holds (snd (hd (acts s))) \<longrightarrow> irq_enabled (trace (prog s)) \<noteq> {})"

lemma held_simps [simp]:
  "held [] = []"
  "held ((i, A_entered) # fs) = held fs" "held ((i, A_unmasked) # fs) = held fs" "held ((i, A_masked) # fs) = i # held fs"
  "held ((i, A_handler p) # fs) = i # held fs" "held ((i, A_locked) # fs) = i # held fs"
  by (simp_all add: held_def)

lemma in_handler_simps [simp]:
  "in_handler (i, A_handler p)" "\<not> in_handler (i, A_entered)" "\<not> in_handler (i, A_masked)" "\<not> in_handler (i, A_locked)" "\<not> in_handler (i, A_unmasked)"
  by (simp_all add: in_handler_def)

text \<open>What a program owes to the rest of the system: its handlers leave the mask alone, and its main loop, run without a handler in between, keeps the
  enabled interrupts at those it wants.\<close>

locale nested_program =
  fixes env :: env and P :: "('a machine_scheme, 'p, 'h) program" and wanted :: "'p \<Rightarrow> 'a machine_scheme \<Rightarrow> u32 set" and board :: "u32 set"
  assumes handler_keeps: "irq_micro P irq h s = Inr (h', s') \<Longrightarrow> irq_enabled (trace s') = irq_enabled (trace s) \<and> wanted p s' = wanted p s"
    and main_sets: "main_micro P p s = Some (Inr (p', s')) \<Longrightarrow> irq_enabled (trace s) = wanted p s \<Longrightarrow> irq_enabled (trace s') = wanted p' s'"
    and controller_keeps: "wanted p (goldfish_mask_irq env i s) = wanted p s" "wanted p (goldfish_unmask_irq env i s) = wanted p s"
      "wanted p (snd (goldfish_get_irq_num env s)) = wanted p s"
    and wanted_board: "wanted p s \<subseteq> board" and board_finite: "finite board"
begin

lemma nest_inv_step: "nest_step env P s s' \<Longrightarrow> nest_inv wanted s \<Longrightarrow> nest_inv wanted s'"
proof (induction rule: nest_step.induct)
  case (entry s)
  then show ?case by (cases "acts s") (auto simp: nest_inv_def)
next
  case (mask s x fs irq s1)
  have "s1 = snd (goldfish_get_irq_num env (prog s))" using mask(2) by simp
  then show ?case using mask(1,3,4) by (auto simp: nest_inv_def controller_keeps)
next
  case (handler s irq h fs h' s1)
  show ?case using handler(1,3) handler_keeps [OF handler(2)] by (auto simp: nest_inv_def)
next
  case (unmask s irq fs)
  then show ?case by (auto simp: nest_inv_def controller_keeps)
next
  case (return s irq fs)
  then show ?case by (cases fs) (auto simp: nest_inv_def)
next
  case (main s p s1)
  show ?case using main(1,3) main_sets [OF main(2)] by (auto simp: nest_inv_def)
qed (auto simp: nest_inv_def)

lemma nest_inv_reach: "nest_reach env P s0 s \<Longrightarrow> nest_inv wanted s0 \<Longrightarrow> nest_inv wanted s"
  by (induction rule: nest_reach.induct) (auto intro: nest_inv_step)

lemma acts_bound:
  fixes s :: "('a machine_scheme, 'p, 'h) nest"
  assumes inv: "nest_inv wanted s"
  shows "length (acts s) \<le> card board"
proof -
  let ?H = "set (held (acts s))" and ?E = "irq_enabled (trace (prog s))"
  have len: "length (held fs) = length fs" if "\<forall>f \<in> set fs. in_handler f" for fs :: "(u32 \<times> 'h aphase) list"
    using that by (induction fs) (auto simp: in_handler_def held_def)
  have HE: "?H \<union> ?E \<subseteq> board" using inv wanted_board by (simp add: nest_inv_def)
  then have fin: "finite ?E" by (meson finite_subset board_finite le_sup_iff)
  have "card (?H \<union> ?E) \<le> card board" by (rule card_mono [OF board_finite HE])
  moreover have "card (?H \<union> ?E) = card ?H + card ?E" using inv fin by (intro card_Un_disjoint) (simp_all add: nest_inv_def)
  moreover have "card ?H = length (held (acts s))" using inv by (simp add: nest_inv_def distinct_card)
  moreover have "?E \<noteq> {} \<Longrightarrow> card ?E > 0" using fin by (simp add: card_gt_0_iff)
  ultimately have b: "length (held (acts s)) + (if ?E = {} then 0 else 1) \<le> card board" by (cases "?E = {}") simp_all
  show ?thesis
  proof (cases "acts s")
    case (Cons f fs)
    then have "length (held fs) = length fs" using inv by (intro len) (simp add: nest_inv_def)
    then have l: "length (held (acts s)) = (if holds (snd f) then Suc (length fs) else length fs)" by (simp add: Cons held_def)
    have "\<not> in_handler f" if "\<not> holds (snd f)" using that by (cases f) (auto simp: in_handler_def)
    then have "holds (snd f) \<or> ?E \<noteq> {}" using inv by (auto simp: nest_inv_def Cons)
    then show ?thesis using b l by (auto simp: Cons split: if_splits)
  qed simp
qed

text \<open>A property of the program's data that the two kinds of steps and the controller keep holds in every reachable state.\<close>

lemma data_reach:
  assumes "nest_reach env P s0 s" and "Q (npt s0) (prog s0)"
    and "\<And>p s p' s'. Q p s \<Longrightarrow> main_micro P p s = Some (Inr (p', s')) \<Longrightarrow> Q p' s'"
    and "\<And>p irq h s h' s'. Q p s \<Longrightarrow> irq_micro P irq h s = Inr (h', s') \<Longrightarrow> Q p s'"
    and "\<And>p i s. Q p s \<Longrightarrow> Q p (goldfish_mask_irq env i s) \<and> Q p (goldfish_unmask_irq env i s) \<and> Q p (snd (goldfish_get_irq_num env s))"
  shows "Q (npt s) (prog s)"
  using assms(1,2)
proof (induction rule: nest_reach.induct)
  case (step s s')
  have "Q (npt s) (prog s)" using step by simp
  with step(3) show ?case
  proof (induction rule: nest_step.induct)
    case (mask s x fs irq s1)
    have "s1 = snd (goldfish_get_irq_num env (prog s))" using mask(2) by simp
    then show ?case using mask(4) assms(5) by simp
  qed (auto dest: assms(3-5))
qed

text \<open>A fault that ends a run is a fault of one of the two kinds of steps, in a state with that property.\<close>

lemma halted_reach:
  assumes reach: "nest_reach env P s0 s" and f: "halted s = Some f" "halted s0 = None"
    and inv: "\<And>t. nest_reach env P s0 t \<Longrightarrow> Q (npt t) (prog t)"
    and "\<And>p s f. Q p s \<Longrightarrow> main_micro P p s = Some (Inl f) \<Longrightarrow> R f s"
    and "\<And>p irq h s f. Q p s \<Longrightarrow> irq_micro P irq h s = Inl f \<Longrightarrow> R f s"
  shows "R f (prog s)"
  using reach
proof cases
  case start
  then show ?thesis using f by simp
next
  case (step t)
  have "Q (npt t) (prog t)" by (rule inv [OF step(1)])
  with step(3,2) f(1) show ?thesis
    by (induction rule: nest_step.induct) (auto dest: assms(5,6))
qed

end

section \<open>Runs into the handlers\<close>

lemma entry_run:
  assumes "nest_reach env P s0 s" and "\<not> irqs_off s" "i \<in> irq_enabled (trace (prog s))" "halted s = None" and num: "fst (goldfish_get_irq_num env (prog s)) = i"
  shows "\<exists>s'. nest_reach env P s0 s' \<and> acts s' = (i, A_handler (irq_start P)) # acts s \<and> \<not> irqs_off s' \<and> halted s' = None \<and>
    prog s' = goldfish_mask_irq env i (snd (goldfish_get_irq_num env (prog s)))"
proof -
  define s1 where "s1 = s\<lparr>raised := insert i (raised s)\<rparr>"
  define s2 where "s2 = s1\<lparr>irqs_off := True, acts := (0, A_entered) # acts s1\<rparr>"
  define s3 where "s3 = s2\<lparr>prog := goldfish_mask_irq env i (snd (goldfish_get_irq_num env (prog s2))), acts := (i, A_masked) # acts s\<rparr>"
  have h: "halted s1 = None" "halted s2 = None" "halted s3 = None" using assms(4) by (simp_all add: s1_def s2_def s3_def)
  have r1: "nest_reach env P s0 s1" unfolding s1_def by (rule nest_reach.step [OF assms(1,4) nest_step.raise])
  have "nest_step env P s1 s2" unfolding s2_def by (rule nest_step.entry) (use assms(2,3) in \<open>auto simp: s1_def\<close>)
  note r2 = nest_reach.step [OF r1 h(1) this]
  have f: "goldfish_get_irq_num env (prog s2) = (i, snd (goldfish_get_irq_num env (prog s2)))" using num by (simp add: prod_eq_iff s1_def s2_def)
  have "nest_step env P s2 s3"
    unfolding s3_def by (rule nest_step.mask [where x = 0, OF _ f]) (use assms(3) in \<open>simp_all add: s1_def s2_def\<close>)
  note r3 = nest_reach.step [OF r2 h(2) this]
  have a: "acts s3 = (i, A_masked) # acts s" by (simp add: s3_def)
  from nest_reach.step [OF r3 h(3) nest_step.unlock [OF a]] show ?thesis
    by (intro exI conjI) (assumption, use assms(4) in \<open>simp_all add: s3_def s2_def s1_def\<close>)
qed

text \<open>The whole system when \<open>main\<close> reaches its loop, and nothing has been raised.\<close>

definition at_loop :: "'p \<Rightarrow> 's \<Rightarrow> ('s, 'p, 'h) nest" where
  "at_loop p s = \<lparr>prog = s, npt = p, irqs_off = False, raised = {}, halted = None, acts = []\<rparr>"

text \<open>A controller that reports the keyboard's interrupt, and the timer's when that is masked.\<close>

definition nest_env :: env where
  "nest_env = \<lparr>env_read = (\<lambda>h a. if IRQ_TTY2 \<in> irq_enabled h then IRQ_TTY2 else IRQ_TIMER), env_dma = (\<lambda>h m. m), env_getchar = (\<lambda>h. 100)\<rparr>"

lemma nest_env_num: "fst (goldfish_get_irq_num nest_env t) = (if IRQ_TTY2 \<in> irq_enabled (trace t) then IRQ_TTY2 else IRQ_TIMER)"
  by (simp add: goldfish_get_irq_num_def readl_def nest_env_def Let_def)

text \<open>In such a system, the keyboard's handler can be interrupted at its start by the timer's.\<close>

lemma nest_env_run:
  assumes i: "irq_enabled (trace s) = {IRQ_TTY2, IRQ_TIMER}"
  shows "\<exists>c. nest_reach nest_env P (at_loop p s) c \<and> acts c = [(IRQ_TIMER, A_handler (irq_start P)), (IRQ_TTY2, A_handler (irq_start P))] \<and>
    irq_enabled (trace (prog c)) = {} "
proof -
  obtain c where c: "nest_reach nest_env P (at_loop p s) c" "acts c = [(IRQ_TTY2, A_handler (irq_start P))]" "\<not> irqs_off c" "halted c = None"
      "prog c = goldfish_mask_irq nest_env IRQ_TTY2 (snd (goldfish_get_irq_num nest_env s))"
    using entry_run [OF nest_reach.start, of "at_loop p s" IRQ_TTY2 nest_env P] i nest_env_num [of s] by (auto simp: at_loop_def)
  have e: "irq_enabled (trace (prog c)) = {IRQ_TIMER}" using i by (auto simp: c(5))
  obtain c' where "nest_reach nest_env P (at_loop p s) c'" "acts c' = [(IRQ_TIMER, A_handler (irq_start P)), (IRQ_TTY2, A_handler (irq_start P))]"
      "prog c' = goldfish_mask_irq nest_env IRQ_TIMER (snd (goldfish_get_irq_num nest_env (prog c)))"
    using entry_run [OF c(1,3), of IRQ_TIMER] c(2,4) e nest_env_num [of "prog c"] by auto
  then show ?thesis using e by (intro exI [of _ c']) simp
qed

end
