(* ===== verification/C07_Nested.thy ===== *)
theory C07_Nested
  imports C07_Race Nested
begin

text \<open>
  The program of \<^verbatim>\<open>c07/c07e2/c07e2.c\<close> under the service routine of \<^verbatim>\<open>drivers/isr.c\<close>. The main loop and \<open>irq_handler\<close> are cut into steps with at most one
  access to the shared variable \<open>ch\<close> or to the interrupt controller each, and are put into the system of theory Nested. Run without an interruption, the
  steps are the functions of theory C07 (lemmas \<open>c07e2_irq_run_handler\<close>, \<open>c07e2_micro_iteration\<close>). A system call runs with interrupts disabled and is one step.
\<close>

section \<open>The main loop of c07e2 in steps\<close>

datatype npoint = N_test | N_print | N_if_d | N_mask | N_say_d | N_if_e | N_unmask | N_say_e | N_if_s | N_svc | N_say_s
  | N_clear | N_read | N_end | N_idle

datatype hpoint = H_enter | H_getc | H_show | H_test | H_set | H_other | H_exit | H_done

definition c07e2_micro :: "env \<Rightarrow> npoint \<Rightarrow> 'a c07_st_scheme \<Rightarrow> npoint \<times> 'a c07_st_scheme" where
  "c07e2_micro env p s =
     (case p of
        N_test \<Rightarrow> (if ch s \<noteq> 0 then N_print else N_idle, s)
      | N_print \<Rightarrow> (N_if_d, printf ''1. Command is %c. time=(%lu).\<newline>'' [ch s, uint (main_tm s)] s)
      | N_if_d \<Rightarrow> (if ch s = 100 then N_mask else N_if_e, s)
      | N_mask \<Rightarrow> (N_say_d, goldfish_mask_irq env IRQ_TIMER s)
      | N_say_d \<Rightarrow> (N_if_e, printf ''  - Disabled timer.\<newline>'' [] s)
      | N_if_e \<Rightarrow> (if ch s = 101 then N_unmask else N_if_s, s)
      | N_unmask \<Rightarrow> (N_say_e, goldfish_unmask_irq env IRQ_TIMER s)
      | N_say_e \<Rightarrow> (N_if_s, printf ''  - Enabled timer.\<newline>'' [] s)
      | N_if_s \<Rightarrow> (if ch s = 115 then N_svc else N_clear, s)
      | N_svc \<Rightarrow> (N_say_s, SystemCall s)
      | N_say_s \<Rightarrow> (N_clear, printf ''  - Make system call.\<newline>'' [] s)
      | N_clear \<Rightarrow> (N_read, s\<lparr>ch := 0\<rparr>)
      | N_read \<Rightarrow> (let (tm, s) = goldfish_timer_read env s in (N_end, s\<lparr>main_tm := tm\<rparr>))
      | N_end \<Rightarrow> (N_test, printf ''2. ----- End loop (%lu) -----\<newline>'' [uint (main_tm s)] s)
      | N_idle \<Rightarrow> (let (tm, s) = goldfish_timer_read env s in (N_test, s\<lparr>main_tm := tm\<rparr>)))"

section \<open>The interrupt handler in steps\<close>

definition c07e2_irq_micro :: "env \<Rightarrow> u32 \<Rightarrow> hpoint \<Rightarrow> 'a c07_st_scheme \<Rightarrow> hpoint \<times> 'a c07_st_scheme" where
  "c07e2_irq_micro env irq p s =
     (case p of
        H_enter \<Rightarrow> let (num, s) = goldfish_irq_status env s
                    in (if irq = IRQ_TTY2 then H_getc else H_other,
                        printf ''=>Enter ARM_irq(%d), pending num=%d\<newline>'' [sint irq, sint num] s)
      | H_getc \<Rightarrow> let (c, s) = getchar env s in (H_show, s\<lparr>ch := c\<rparr>)
      | H_show \<Rightarrow> (H_test, printf ''=>IRQ_TTY2. ch=%c\<newline>'' [ch s] s)
      | H_test \<Rightarrow> (if ch s = 116 then H_set else H_exit, s)
      | H_set \<Rightarrow> (H_exit, goldfish_set_timer env 0 s)
      | H_other \<Rightarrow> (H_exit, if irq = IRQ_TTY0 then printf ''=>IRQ_TTY0.\<newline>'' [] s
                     else if irq = IRQ_TTY1 then printf ''=>IRQ_TTY1.\<newline>'' [] s
                     else if irq = IRQ_TIMER
                     then printf ''=>IRQ_TIMER - clear interrupt.\<newline>'' [] (goldfish_clear_timer_int env s)
                     else printf ''=>Unknown IRQ %x.\<newline>'' [sint irq] s)
      | H_exit \<Rightarrow> let (tm, s) = goldfish_timer_read env s
                   in (H_done, printf ''=>Exit ARM_irq(%d). tm=%lu\<newline>'' [sint irq, uint tm] s)
      | H_done \<Rightarrow> (H_done, s))"

text \<open>One interrupt alone: the steps of the handler, one after the other.\<close>

fun h_left :: "hpoint \<Rightarrow> nat" where
  "h_left H_enter = 7" | "h_left H_getc = 6" | "h_left H_show = 5" | "h_left H_test = 4" | "h_left H_set = 3"
| "h_left H_other = 3" | "h_left H_exit = 2" | "h_left H_done = 0"

function c07e2_irq_run :: "env \<Rightarrow> u32 \<Rightarrow> hpoint \<Rightarrow> 'a c07_st_scheme \<Rightarrow> 'a c07_st_scheme" where
  "c07e2_irq_run env irq p s =
     (if p = H_done then s else let (p, s) = c07e2_irq_micro env irq p s in c07e2_irq_run env irq p s)"
  by pat_completeness auto

termination
  by (relation "measure (\<lambda>(env, irq, p, s). h_left p)")
    (auto simp: c07e2_irq_micro_def split_beta Let_def split: hpoint.splits if_splits)

declare c07e2_irq_run.simps [simp del]

section \<open>The steps of the handler are the handler\<close>

lemma irq_run_done [simp]: "c07e2_irq_run env irq H_done s = s"
  by (simp add: c07e2_irq_run.simps)

lemma irq_run_step: "p \<noteq> H_done \<Longrightarrow> c07e2_irq_run env irq p s =
    c07e2_irq_run env irq (fst (c07e2_irq_micro env irq p s)) (snd (c07e2_irq_micro env irq p s))"
  by (subst c07e2_irq_run.simps) (simp add: split_beta Let_def)

lemma c07e2_irq_run_handler: "c07e2_irq_run env irq H_enter s = c07e2_irq_handler env irq s"
  for s :: "'a c07_st_scheme"
proof -
  obtain num s1 where 1: "goldfish_irq_status env s = (num, s1)" by fastforce
  define s2 where "s2 = printf ''=>Enter ARM_irq(%d), pending num=%d\<newline>'' [sint irq, sint num] s1"
  have run: "c07e2_irq_run env irq H_enter s = c07e2_irq_run env irq (if irq = IRQ_TTY2 then H_getc else H_other) s2"
    by (simp add: irq_run_step [of H_enter] c07e2_irq_micro_def 1 s2_def)
  have ex: "c07e2_irq_run env i H_exit t = (let (tm, t) = goldfish_timer_read env t in printf ''=>Exit ARM_irq(%d). tm=%lu\<newline>'' [sint i, uint tm] t)" for i and t :: "'a c07_st_scheme"
    by (simp add: irq_run_step [of H_exit] c07e2_irq_micro_def split_beta)
  show ?thesis
  proof (cases "irq = IRQ_TTY2")
    case True
    obtain c s3 where 3: "getchar env s2 = (c, s3)" by fastforce
    have "c07e2_irq_run env irq H_getc s2 = c07e2_irq_run env irq H_exit (let s = printf ''=>IRQ_TTY2. ch=%c\<newline>'' [c] (s3\<lparr>ch := c\<rparr>)
        in if c = 116 then goldfish_set_timer env 0 s else s)"
      by (simp add: irq_run_step [of H_getc] irq_run_step [of H_show] irq_run_step [of H_test] irq_run_step [of H_set] c07e2_irq_micro_def 3 Let_def)
    then show ?thesis unfolding run c07e2_irq_handler_def 1 Let_def prod.case s2_def [symmetric] 3 using True by (simp add: ex Let_def)
  next
    case False
    have "c07e2_irq_run env irq H_other s2 = c07e2_irq_run env irq H_exit (snd (c07e2_irq_micro env irq H_other s2))"
      by (simp add: irq_run_step [of H_other] c07e2_irq_micro_def)
    then show ?thesis unfolding run c07e2_irq_handler_def 1 Let_def prod.case s2_def [symmetric] using False
      by (simp add: ex Let_def c07e2_irq_micro_def)
  qed
qed

section \<open>The program\<close>

definition c07e2_program :: "env \<Rightarrow> (c07_st, npoint, hpoint) program" where
  "c07e2_program env = \<lparr>main_micro = (\<lambda>p s. Some (Inr (c07e2_micro env p s))), irq_micro = (\<lambda>irq h s. Inr (c07e2_irq_micro env irq h s)),
     irq_start = H_enter, irq_end = H_done\<rparr>"

lemma c07e2_program_simps [simp]:
  "main_micro (c07e2_program env) p s = Some (Inr (c07e2_micro env p s))" "irq_micro (c07e2_program env) irq h s = Inr (c07e2_irq_micro env irq h s)"
  "irq_start (c07e2_program env) = H_enter" "irq_end (c07e2_program env) = H_done"
  by (simp_all add: c07e2_program_def)

text \<open>The interrupts that the main program wants: the keyboard's, and the timer's when the last message about it says so, or the message that
  comes next.\<close>

definition timer_wanted :: "bool \<Rightarrow> bool \<Rightarrow> io list \<Rightarrow> u32 set" where
  "timer_wanted say_on say_off h = (if say_on \<or> \<not> say_off \<and> reported_on h then {IRQ_TIMER, IRQ_TTY2} else {IRQ_TTY2})"

definition c07e2_wanted :: "npoint \<Rightarrow> 'a machine_scheme \<Rightarrow> u32 set" where
  "c07e2_wanted p s = timer_wanted (p = N_say_e) (p = N_say_d) (trace s)"

lemma log_clear [simp]: "log_of (trace (goldfish_clear_timer_int env s)) = log_of (trace s)"
  by (simp add: goldfish_clear_timer_int_def Let_def log_step_bus irq_mask_step_def)

lemma irq_micro_log:
  assumes "log_of (trace s) = (E, cs, ks, on)" and "c07e2_irq_micro env irq p s = (p', s1)"
  shows "if p = H_getc then log_of (trace s1) = (E, cs, ks @ [ch s1], on) else ch s1 = ch s \<and> log_of (trace s1) = (E, cs, ks, on)"
proof -
  have "s1 = snd (c07e2_irq_micro env irq p s)" using assms(2) by simp
  then show ?thesis using assms(1) by (simp add: c07e2_irq_micro_def split_beta getchar_def log_step_bus Let_def split: hpoint.split)
qed

lemma main_micro_ch: "c07e2_micro env p s = (p', s') \<Longrightarrow> ch s' = (if p = N_clear then 0 else ch s)"
  by (auto simp: c07e2_micro_def split_beta SystemCall_def sw_handler_def split: npoint.splits)

lemma main_micro_pt:
  "fst (c07e2_micro env p s) =
     (case p of N_test \<Rightarrow> if ch s \<noteq> 0 then N_print else N_idle | N_print \<Rightarrow> N_if_d
      | N_if_d \<Rightarrow> if ch s = 100 then N_mask else N_if_e | N_mask \<Rightarrow> N_say_d | N_say_d \<Rightarrow> N_if_e
      | N_if_e \<Rightarrow> if ch s = 101 then N_unmask else N_if_s | N_unmask \<Rightarrow> N_say_e | N_say_e \<Rightarrow> N_if_s
      | N_if_s \<Rightarrow> if ch s = 115 then N_svc else N_clear | N_svc \<Rightarrow> N_say_s | N_say_s \<Rightarrow> N_clear | N_clear \<Rightarrow> N_read
      | N_read \<Rightarrow> N_end | N_end \<Rightarrow> N_test | N_idle \<Rightarrow> N_test)"
  by (simp add: c07e2_micro_def split_beta split: npoint.split)

lemma main_micro_log:
  "c07e2_micro env p s = (p', s') \<Longrightarrow> log_of (trace s) = (E, cs, ks, on) \<Longrightarrow> log_of (trace s') =
     (case p of N_print \<Rightarrow> (E, cs @ [ch s], ks, on) | N_mask \<Rightarrow> (E - {IRQ_TIMER}, cs, ks, on) | N_say_d \<Rightarrow> (E, cs, ks, False)
      | N_unmask \<Rightarrow> (insert IRQ_TIMER E, cs, ks, on) | N_say_e \<Rightarrow> (E, cs, ks, True) | _ \<Rightarrow> (E, cs, ks, on))"
  by (auto simp: c07e2_micro_def split_beta log_step_bus SystemCall_def sw_handler_def split: npoint.splits)

lemma log_parts: "log_of h = (E, cs, ks, on) \<longleftrightarrow> irq_enabled h = E \<and> commands h = cs \<and> keys h = ks \<and> reported_on h = on"
  by (simp add: log_of_def)

lemma log_controller:
  "reported_on (trace (goldfish_mask_irq env i s)) = reported_on (trace s)" "reported_on (trace (goldfish_unmask_irq env i s)) = reported_on (trace s)"
  "reported_on (trace (snd (goldfish_get_irq_num env s))) = reported_on (trace s)"
  "commands (trace (goldfish_mask_irq env i s)) = commands (trace s)" "commands (trace (goldfish_unmask_irq env i s)) = commands (trace s)"
  "commands (trace (snd (goldfish_get_irq_num env s))) = commands (trace s)"
  "keys (trace (goldfish_mask_irq env i s)) = keys (trace s)" "keys (trace (goldfish_unmask_irq env i s)) = keys (trace s)"
  "keys (trace (snd (goldfish_get_irq_num env s))) = keys (trace s)"
  using log_timer(4) [of env s] log_timer(6,7) [of env i s] by (auto simp: log_of_def)

interpretation e2: nested_program env "c07e2_program env" c07e2_wanted "{IRQ_TIMER, IRQ_TTY2}" for env :: env
proof unfold_locales
  fix irq h h' p and s s' :: c07_st
  assume a: "irq_micro (c07e2_program env) irq h s = Inr (h', s')"
  obtain E cs ks on where l: "log_of (trace s) = (E, cs, ks, on)" by (metis prod_cases4)
  show "irq_enabled (trace s') = irq_enabled (trace s) \<and> c07e2_wanted p s' = c07e2_wanted p s"
    using irq_micro_log [OF l, of env irq h h' s'] a l by (auto simp: c07e2_wanted_def timer_wanted_def log_parts split: if_splits)
next
  fix p p' and s s' :: c07_st
  assume a: "main_micro (c07e2_program env) p s = Some (Inr (p', s'))" "irq_enabled (trace s) = c07e2_wanted p s"
  obtain E cs ks on where l: "log_of (trace s) = (E, cs, ks, on)" by (metis prod_cases4)
  have m: "c07e2_micro env p s = (p', s')" using a(1) by simp
  have "p' = fst (c07e2_micro env p s)" using m by simp
  then show "irq_enabled (trace s') = c07e2_wanted p' s'"
    using main_micro_log [OF m l] a(2) l by (cases p) (auto simp: main_micro_pt c07e2_wanted_def timer_wanted_def log_parts)
qed (auto simp: c07e2_wanted_def timer_wanted_def log_controller)

section \<open>The commands\<close>

text \<open>The command that the main program is going to report.\<close>

definition n_pending :: "npoint \<Rightarrow> 'a c07_st_scheme \<Rightarrow> int list" where
  "n_pending p s = (if p = N_print \<or> p \<in> {N_test, N_read, N_end, N_idle} \<and> ch s \<noteq> 0 then [ch s] else [])"

definition commands_typed :: "npoint \<Rightarrow> 'a c07_st_scheme \<Rightarrow> bool" where
  "commands_typed p s \<longleftrightarrow> subseq (commands (trace s) @ n_pending p s) (keys (trace s))"

lemma commands_typed_main:
  assumes inv: "commands_typed p s" and m: "c07e2_micro env p s = (p', s')"
  shows "commands_typed p' s'"
proof -
  obtain E cs ks on where l: "log_of (trace s) = (E, cs, ks, on)" by (metis prod_cases4)
  have "p' = fst (c07e2_micro env p s)" using m by simp
  then show ?thesis using inv l main_micro_log [OF m l] main_micro_ch [OF m]
    by (cases p) (auto simp: commands_typed_def n_pending_def main_micro_pt log_parts dest: subseq_shorter)
qed

lemma commands_typed_irq:
  assumes inv: "commands_typed p s" and h: "c07e2_irq_micro env irq q s = (q', s')"
  shows "commands_typed p s'"
proof -
  obtain E cs ks on where l: "log_of (trace s) = (E, cs, ks, on)" by (metis prod_cases4)
  have "subseq (cs @ xs) ks \<Longrightarrow> subseq (cs @ ys) (ks @ ys)" for xs ys
    by (rule list_emb_append_mono) (auto dest: subseq_shorter)
  moreover have "subseq cs ks \<Longrightarrow> subseq cs (ks @ ys)" for ys by (rule subseq_longer)
  ultimately show ?thesis
    using inv l irq_micro_log [OF l h] by (auto simp: commands_typed_def n_pending_def log_parts dest: subseq_shorter split: if_splits)
qed

lemma commands_typed_controller:
  "commands_typed p (goldfish_mask_irq env i s) = commands_typed p s" "commands_typed p (goldfish_unmask_irq env i s) = commands_typed p s"
  "commands_typed p (snd (goldfish_get_irq_num env s)) = commands_typed p s"
  by (auto simp: commands_typed_def n_pending_def log_controller)

lemma commands_typed_reach:
  assumes "nest_reach env (c07e2_program env) s0 s" "commands_typed (npt s0) (prog s0)"
  shows "commands_typed (npt s) (prog s)"
proof (rule e2.data_reach [where Q = commands_typed, OF assms])
  show "commands_typed p' s'" if "commands_typed p s" "main_micro (c07e2_program env) p s = Some (Inr (p', s'))" for p p' and s s' :: c07_st
    using commands_typed_main [OF that(1), of env p' s'] that(2) by simp
  show "commands_typed p s'" if "commands_typed p s" "irq_micro (c07e2_program env) irq h s = Inr (h', s')" for p irq h h' and s s' :: c07_st
    using commands_typed_irq [OF that(1), of env irq h h' s'] that(2) by simp
qed (simp add: commands_typed_controller)

section \<open>The steps of the main loop are its iteration\<close>

function c07e2_finish :: "env \<Rightarrow> npoint \<Rightarrow> 'a c07_st_scheme \<Rightarrow> 'a c07_st_scheme" where
  "c07e2_finish env p s = (let (p, s) = c07e2_micro env p s in if p = N_test then s else c07e2_finish env p s)"
  by pat_completeness auto

termination
  by (relation "measure (\<lambda>(env, p, s). case p of N_test \<Rightarrow> 14 | N_print \<Rightarrow> 13 | N_if_d \<Rightarrow> 12 | N_mask \<Rightarrow> 11 | N_say_d \<Rightarrow> 10
      | N_if_e \<Rightarrow> 9 | N_unmask \<Rightarrow> 8 | N_say_e \<Rightarrow> 7 | N_if_s \<Rightarrow> 6 | N_svc \<Rightarrow> 5 | N_say_s \<Rightarrow> 4 | N_clear \<Rightarrow> 3 | N_read \<Rightarrow> 2 | N_end \<Rightarrow> 1 | N_idle \<Rightarrow> 1)")
    (auto simp: c07e2_micro_def split_beta split: npoint.splits if_splits)

declare c07e2_finish.simps [simp del]

lemma ch_system_call [simp]: "ch (SystemCall s) = ch s" "main_tm (SystemCall s) = main_tm s"
  by (simp_all add: SystemCall_def sw_handler_def)

lemma finish2_step:
  "c07e2_finish env p s = (if fst (c07e2_micro env p s) = N_test then snd (c07e2_micro env p s)
     else c07e2_finish env (fst (c07e2_micro env p s)) (snd (c07e2_micro env p s)))"
  by (subst c07e2_finish.simps) (simp add: split_beta)

lemma c07e2_micro_iteration: "c07e2_finish env N_test s = c07e2_main_step env s"
proof -
  consider "ch s = 0" | "ch s = 100" | "ch s = 101" | "ch s = 115" | "ch s \<noteq> 0" "ch s \<noteq> 100" "ch s \<noteq> 101" "ch s \<noteq> 115" by blast
  then show ?thesis
    by cases (simp_all add: finish2_step c07e2_micro_def c07e2_main_step_def split_beta Let_def)
qed

section \<open>Properties\<close>

lemma c07e2_init:
  assumes "trace s = []" "ch s = 0"
  shows "log_of (trace (c07e2_main_init env s)) = ({IRQ_TTY2, IRQ_TIMER}, [], [], True)" "ch (c07e2_main_init env s) = 0"
proof -
  have "log_of [e] = log_step e (log_of [])" for e using log_append [of "[]" "[e]"] by simp
  moreover have "log_of [] = ({}, [], [], True)" by (simp add: log_of_def irq_enabled_def commands_def keys_def reported_on_def)
  ultimately show "log_of (trace (c07e2_main_init env s)) = ({IRQ_TTY2, IRQ_TIMER}, [], [], True)"
    using assms(1) by (simp add: c07e2_main_init_def Let_def log_step_bus)
qed (use assms in \<open>simp add: c07e2_main_init_def Let_def goldfish_unmask_irq_def writel_def printf_def\<close>)

definition c07e2_boot :: c07_st where
  "c07e2_boot = \<lparr>trace = [], mem = (\<lambda>_. 0), timestamp = 0, lastdec = 0, ch = 0, main_tm = 0, cpsr = 0xD3\<rparr>"

text \<open>C29: the program of c07e2 with interrupts that nest, in every order of the steps. At most two activations of \<open>BSP_irq\<close> are on the stack,
  and no interrupt is served by two at once; an interrupt that is being served is masked. The interrupts that are served or enabled are the keyboard's
  and, exactly when the last message about it says so (or is about to say so, between the change of the mask and its message), the timer's: the
  unmasking at the end of \<open>BSP_irq\<close> never undoes the command \<open>d\<close>. No step faults. The commands the main program reports are typed
  characters in the order in which they were typed, each reported at most once.\<close>

theorem c07e2_nested:
  assumes boot: "trace s0 = []" "ch s0 = 0" and reach: "nest_reach env (c07e2_program env) (at_loop N_test (c07e2_main_init env s0)) s"
  shows "length (acts s) \<le> 2 \<and> distinct (held (acts s)) \<and>
    set (held (acts s)) \<inter> irq_enabled (trace (prog s)) = {} \<and>
    set (held (acts s)) \<union> irq_enabled (trace (prog s)) = c07e2_wanted (npt s) (prog s) \<and>
    subseq (commands (trace (prog s))) (keys (trace (prog s))) \<and> halted s = None"
proof -
  let ?s = "at_loop N_test (c07e2_main_init env s0) :: (c07_st, npoint, hpoint) nest"
  note i = c07e2_init [OF boot, of env]
  have "nest_inv c07e2_wanted ?s" using i(1) by (auto simp: nest_inv_def at_loop_def c07e2_wanted_def timer_wanted_def log_parts)
  from e2.nest_inv_reach [OF reach this] have inv: "nest_inv c07e2_wanted s" .
  have "commands_typed (npt ?s) (prog ?s)" using i by (simp add: at_loop_def commands_typed_def n_pending_def log_parts)
  from commands_typed_reach [OF reach this] have "subseq (commands (trace (prog s))) (keys (trace (prog s)))"
    by (auto simp: commands_typed_def dest: subseq_shorter)
  moreover have "halted s = None"
  proof (rule ccontr)
    assume "halted s \<noteq> None"
    then obtain f where "halted s = Some f" by blast
    from e2.halted_reach [OF reach this, where Q = "\<lambda>_ _. True" and R = "\<lambda>_ _. False"] show False by (simp add: at_loop_def)
  qed
  ultimately show ?thesis using inv e2.acts_bound [OF inv] by (simp add: nest_inv_def)
qed

theorem c07e2_nested_witness:
  "\<exists>s. nest_reach nest_env (c07e2_program nest_env) (at_loop N_test (c07e2_main_init nest_env c07e2_boot)) s \<and>
     acts s = [(IRQ_TIMER, A_handler H_enter), (IRQ_TTY2, A_handler H_enter)] \<and> c07e2_wanted (npt s) (prog s) = {IRQ_TIMER, IRQ_TTY2}"
proof -
  have boot: "trace c07e2_boot = []" "ch c07e2_boot = 0" by (simp_all add: c07e2_boot_def)
  have i: "irq_enabled (trace (c07e2_main_init nest_env c07e2_boot)) = {IRQ_TTY2, IRQ_TIMER}"
    using c07e2_init(1) [OF boot] unfolding log_of_def by simp
  obtain s where s: "nest_reach nest_env (c07e2_program nest_env) (at_loop N_test (c07e2_main_init nest_env c07e2_boot)) s"
      "acts s = [(IRQ_TIMER, A_handler H_enter), (IRQ_TTY2, A_handler H_enter)]" "irq_enabled (trace (prog s)) = {}"
    using nest_env_run [OF i, of "c07e2_program nest_env" N_test] by auto
  have "c07e2_wanted (npt s) (prog s) = {IRQ_TIMER, IRQ_TTY2}" using c07e2_nested [OF boot s(1)] s(2,3) by simp
  then show ?thesis using s(1,2) by blast
qed

end
