(* ===== verification/C07_Clock.thy ===== *)
theory C07_Clock
  imports C07_Nested
begin

text \<open>
  The program of \<^verbatim>\<open>c07/c07e3/c07e3.c\<close> under the service routine of \<^verbatim>\<open>drivers/isr.c\<close>. Its \<open>irq_handler\<close> and its main loop are cut into steps with at most one access
  to one of the shared variables \<open>ch\<close>, \<open>timeout\<close>, \<open>timer_irq\<close> and \<open>rtc_offset\<close>, and are put into the system of theory Nested. Run without an
  interruption, the steps are the functions of theory C07 (lemmas \<open>c07e3_irq_cut_handler\<close>, \<open>c07e3_micro_iteration\<close>). A call of \<open>get_ticks\<close> or of \<open>__udelay\<close> is one
  step; what an interrupt in the middle of it does is in theory Timer_Race.
\<close>

section \<open>The interrupt handler in steps\<close>

datatype kpoint = K_enter | K_getc | K_show | K_if_t | K_say_t | K_arm | K_inc | K_flag | K_if_x | K_mul | K_if_r | K_zero | K_reset
  | K_clear | K_say_timer | K_unflag | K_other | K_exit | K_done

definition c07e3_irq_micro :: "env \<Rightarrow> u32 \<Rightarrow> kpoint \<Rightarrow> 'a c07e3_st_scheme \<Rightarrow> (kpoint \<times> 'a c07e3_st_scheme) result" where
  "c07e3_irq_micro env irq p s =
     (case p of
        K_enter \<Rightarrow> let (num, s) = goldfish_irq_status env s
                    in Inr (if irq = IRQ_TTY2 then K_getc else if irq = IRQ_TIMER then K_clear else K_other,
                        printf ''\<newline><=Enter IRQ(%d), %d pending, '' [sint irq, sint num] s)
      | K_getc \<Rightarrow> let (c, s) = getchar env s in Inr (K_show, s\<lparr>e3_ch := c\<rparr>)
      | K_show \<Rightarrow> Inr (K_if_t, printf ''IRQ_TTY2, ch=%c, '' [e3_ch s] s)
      | K_if_t \<Rightarrow> Inr (if e3_ch s = 116 then K_say_t else K_if_x, s)
      | K_say_t \<Rightarrow> Inr (K_arm, printf ''timeout = %d '' [timeout s] s)
      | K_arm \<Rightarrow> Inr (K_inc, goldfish_set_timer env (word_of_int (timeout s)) s)
      | K_inc \<Rightarrow> if s32_fits (timeout s + 1) then Inr (K_flag, s\<lparr>timeout := timeout s + 1\<rparr>) else Inl Signed_overflow
      | K_flag \<Rightarrow> Inr (K_if_x, s\<lparr>timer_irq := 1\<rparr>)
      | K_if_x \<Rightarrow> Inr (if e3_ch s = 120 \<and> 0 < timeout s then K_mul else K_if_r, s)
      | K_mul \<Rightarrow> if s32_fits (timeout s * 10) then Inr (K_if_r, s\<lparr>timeout := timeout s * 10\<rparr>) else Inl Signed_overflow
      | K_if_r \<Rightarrow> Inr (if e3_ch s = 114 then K_zero else K_exit, s)
      | K_zero \<Rightarrow> Inr (K_reset, s\<lparr>timeout := 0\<rparr>)
      | K_reset \<Rightarrow> Inr (K_exit, rtc_reset s)
      | K_clear \<Rightarrow> Inr (K_say_timer, goldfish_clear_timer_int env s)
      | K_say_timer \<Rightarrow> Inr (K_unflag, printf ''IRQ_TIMER '' [] s)
      | K_unflag \<Rightarrow> Inr (K_exit, s\<lparr>timer_irq := 0\<rparr>)
      | K_other \<Rightarrow> Inr (K_exit, if irq = IRQ_TTY0 then printf ''=>IRQ_TTY0.\<newline>'' [] s
                     else if irq = IRQ_TTY1 then printf ''=>IRQ_TTY1.\<newline>'' [] s
                     else printf ''=>Unknown IRQ %x.\<newline>'' [sint irq] s)
      | K_exit \<Rightarrow> let (tm, s) = get_ticks env s
                   in Inr (K_done, printf ''Exit IRQ(%d) tm=%lu =>\<newline>'' [sint irq, uint (ucast tm :: u32)] s)
      | K_done \<Rightarrow> Inr (K_done, s))"

fun k_left :: "kpoint \<Rightarrow> nat" where
  "k_left K_enter = 19" | "k_left K_getc = 18" | "k_left K_show = 17" | "k_left K_if_t = 16" | "k_left K_say_t = 15" | "k_left K_arm = 14"
| "k_left K_inc = 13" | "k_left K_flag = 12" | "k_left K_if_x = 11" | "k_left K_mul = 10" | "k_left K_if_r = 9" | "k_left K_zero = 8"
| "k_left K_reset = 7" | "k_left K_clear = 6" | "k_left K_say_timer = 5" | "k_left K_unflag = 4" | "k_left K_other = 3" | "k_left K_exit = 2"
| "k_left K_done = 0"

text \<open>The handler from a point to its end, with another handler \<open>f\<close>, which runs to its end, in front of the step at the point \<open>q\<close>; without one, if \<open>q\<close> is not reached or
  is the end.\<close>

function c07e3_irq_cut ::
  "env \<Rightarrow> u32 \<Rightarrow> kpoint \<Rightarrow> ('a c07e3_st_scheme \<Rightarrow> ('a c07e3_st_scheme) result) \<Rightarrow> kpoint \<Rightarrow> 'a c07e3_st_scheme \<Rightarrow> ('a c07e3_st_scheme) result" where
  "c07e3_irq_cut env irq q f p s =
     (if p = K_done then Inr s
      else case (if p = q then f s else Inr s) of
             Inl e \<Rightarrow> Inl e
           | Inr s \<Rightarrow> (case c07e3_irq_micro env irq p s of Inl e \<Rightarrow> Inl e | Inr (p', s') \<Rightarrow> c07e3_irq_cut env irq q f p' s'))"
  by pat_completeness auto

termination
  by (relation "measure (\<lambda>(env, irq, q, f, p, s). k_left p)")
    (auto simp: c07e3_irq_micro_def split_beta Let_def split: kpoint.splits if_splits)

declare c07e3_irq_cut.simps [simp del]

section \<open>The steps are the handler\<close>

lemma cut_done [simp]: "c07e3_irq_cut env irq q f K_done s = Inr s"
  by (simp add: c07e3_irq_cut.simps)

lemma cut_step: "p \<noteq> K_done \<Longrightarrow> q \<noteq> p \<Longrightarrow> c07e3_irq_micro env irq p s = Inr (p', s') \<Longrightarrow>
    c07e3_irq_cut env irq q f p s = c07e3_irq_cut env irq q f p' s'"
  by (subst c07e3_irq_cut.simps) auto

lemma cut_fault: "p \<noteq> K_done \<Longrightarrow> q \<noteq> p \<Longrightarrow> c07e3_irq_micro env irq p s = Inl e \<Longrightarrow> c07e3_irq_cut env irq q f p s = Inl e"
  by (subst c07e3_irq_cut.simps) auto

lemma cut_at: "p \<noteq> K_done \<Longrightarrow> f s = Inr s' \<Longrightarrow> c07e3_irq_micro env irq p s' = Inr (p', s'') \<Longrightarrow>
    c07e3_irq_cut env irq p f p s = c07e3_irq_cut env irq p f p' s''"
  by (subst c07e3_irq_cut.simps) simp

text \<open>The successors of the points, without a fault.\<close>

lemma irq_micro_simps:
  "c07e3_irq_micro env irq K_enter s = Inr (if irq = IRQ_TTY2 then K_getc else if irq = IRQ_TIMER then K_clear else K_other,
     printf ''\<newline><=Enter IRQ(%d), %d pending, '' [sint irq, sint (fst (goldfish_irq_status env s))] (snd (goldfish_irq_status env s)))"
  "c07e3_irq_micro env irq K_getc s = Inr (K_show, (snd (getchar env s))\<lparr>e3_ch := fst (getchar env s)\<rparr>)"
  "c07e3_irq_micro env irq K_show s = Inr (K_if_t, printf ''IRQ_TTY2, ch=%c, '' [e3_ch s] s)"
  "c07e3_irq_micro env irq K_if_t s = Inr (if e3_ch s = 116 then K_say_t else K_if_x, s)"
  "c07e3_irq_micro env irq K_say_t s = Inr (K_arm, printf ''timeout = %d '' [timeout s] s)"
  "c07e3_irq_micro env irq K_arm s = Inr (K_inc, goldfish_set_timer env (word_of_int (timeout s)) s)"
  "s32_fits (timeout s + 1) \<Longrightarrow> c07e3_irq_micro env irq K_inc s = Inr (K_flag, s\<lparr>timeout := timeout s + 1\<rparr>)"
  "c07e3_irq_micro env irq K_flag s = Inr (K_if_x, s\<lparr>timer_irq := 1\<rparr>)"
  "c07e3_irq_micro env irq K_if_x s = Inr (if e3_ch s = 120 \<and> 0 < timeout s then K_mul else K_if_r, s)"
  "s32_fits (timeout s * 10) \<Longrightarrow> c07e3_irq_micro env irq K_mul s = Inr (K_if_r, s\<lparr>timeout := timeout s * 10\<rparr>)"
  "c07e3_irq_micro env irq K_if_r s = Inr (if e3_ch s = 114 then K_zero else K_exit, s)"
  "c07e3_irq_micro env irq K_zero s = Inr (K_reset, s\<lparr>timeout := 0\<rparr>)"
  "c07e3_irq_micro env irq K_reset s = Inr (K_exit, rtc_reset s)"
  "c07e3_irq_micro env irq K_clear s = Inr (K_say_timer, goldfish_clear_timer_int env s)"
  "c07e3_irq_micro env irq K_say_timer s = Inr (K_unflag, printf ''IRQ_TIMER '' [] s)"
  "c07e3_irq_micro env irq K_unflag s = Inr (K_exit, s\<lparr>timer_irq := 0\<rparr>)"
  "c07e3_irq_micro env irq K_other s = Inr (K_exit, if irq = IRQ_TTY0 then printf ''=>IRQ_TTY0.\<newline>'' [] s
     else if irq = IRQ_TTY1 then printf ''=>IRQ_TTY1.\<newline>'' [] s else printf ''=>Unknown IRQ %x.\<newline>'' [sint irq] s)"
  "c07e3_irq_micro env irq K_exit s = Inr (K_done, printf ''Exit IRQ(%d) tm=%lu =>\<newline>'' [sint irq, uint (ucast (fst (get_ticks env s)) :: u32)] (snd (get_ticks env s)))"
  by (simp_all add: c07e3_irq_micro_def split_beta Let_def)

lemma irq_micro_faults:
  "\<not> s32_fits (timeout s + 1) \<Longrightarrow> c07e3_irq_micro env irq K_inc s = Inl Signed_overflow"
  "\<not> s32_fits (timeout s * 10) \<Longrightarrow> c07e3_irq_micro env irq K_mul s = Inl Signed_overflow"
  by (simp_all add: c07e3_irq_micro_def)

text \<open>The rest of the handler from some of its points.\<close>

definition k_exit :: "env \<Rightarrow> u32 \<Rightarrow> 'a c07e3_st_scheme \<Rightarrow> 'a c07e3_st_scheme" where
  "k_exit env irq s = (let (tm, s) = get_ticks env s in printf ''Exit IRQ(%d) tm=%lu =>\<newline>'' [sint irq, uint (ucast tm :: u32)] s)"

definition k_if_r :: "env \<Rightarrow> u32 \<Rightarrow> 'a c07e3_st_scheme \<Rightarrow> 'a c07e3_st_scheme" where
  "k_if_r env irq s = k_exit env irq (if e3_ch s = 114 then rtc_reset (s\<lparr>timeout := 0\<rparr>) else s)"

lemma cut_exit: "q \<noteq> K_exit \<Longrightarrow> c07e3_irq_cut env irq q f K_exit s = Inr (k_exit env irq s)"
  by (simp add: cut_step [OF _ _ irq_micro_simps(18)] k_exit_def split_beta Let_def)

lemma cut_if_r: "q \<notin> {K_if_r, K_zero, K_reset, K_exit} \<Longrightarrow> c07e3_irq_cut env irq q f K_if_r s = Inr (k_if_r env irq s)"
  by (simp add: cut_step [OF _ _ irq_micro_simps(11)] cut_step [OF _ _ irq_micro_simps(12)] cut_step [OF _ _ irq_micro_simps(13)] cut_exit k_if_r_def)

lemma cut_if_x:
  "q \<notin> {K_if_x, K_mul, K_if_r, K_zero, K_reset, K_exit} \<Longrightarrow> c07e3_irq_cut env irq q f K_if_x s =
     (if e3_ch s = 120 \<and> 0 < timeout s then if s32_fits (timeout s * 10) then Inr (k_if_r env irq (s\<lparr>timeout := timeout s * 10\<rparr>)) else Inl Signed_overflow
      else Inr (k_if_r env irq s))"
  by (simp add: cut_step [OF _ _ irq_micro_simps(9)] cut_step [OF _ _ irq_micro_simps(10)] cut_fault [OF _ _ irq_micro_faults(2)] cut_if_r)

lemma cut_flag:
  "q \<notin> {K_flag, K_if_x, K_mul, K_if_r, K_zero, K_reset, K_exit} \<Longrightarrow> c07e3_irq_cut env irq q f K_flag s = c07e3_irq_cut env irq q f K_if_x (s\<lparr>timer_irq := 1\<rparr>)"
  by (simp add: cut_step [OF _ _ irq_micro_simps(8)])

lemma cut_if_t:
  "q \<notin> {K_if_t, K_say_t, K_arm, K_inc, K_flag} \<Longrightarrow> c07e3_irq_cut env irq q f K_if_t s =
     (if e3_ch s = 116
      then if s32_fits (timeout s + 1)
        then c07e3_irq_cut env irq q f K_if_x ((goldfish_set_timer env (word_of_int (timeout s)) (printf ''timeout = %d '' [timeout s] s))\<lparr>timeout := timeout s + 1, timer_irq := 1\<rparr>)
        else Inl Signed_overflow
      else c07e3_irq_cut env irq q f K_if_x s)"
  by (simp add: cut_step [OF _ _ irq_micro_simps(4)] cut_step [OF _ _ irq_micro_simps(5)] cut_step [OF _ _ irq_micro_simps(6)]
      cut_step [OF _ _ irq_micro_simps(7)] cut_step [OF _ _ irq_micro_simps(8)] cut_fault [OF _ _ irq_micro_faults(1)])

lemma c07e3_irq_cut_handler: "c07e3_irq_cut env irq K_done f K_enter s = c07e3_irq_handler env irq s"
proof -
  obtain num s1 where 1: "goldfish_irq_status env s = (num, s1)" by fastforce
  define s2 where "s2 = printf ''\<newline><=Enter IRQ(%d), %d pending, '' [sint irq, sint num] s1"
  have run: "c07e3_irq_cut env irq K_done f K_enter s = c07e3_irq_cut env irq K_done f (if irq = IRQ_TTY2 then K_getc else if irq = IRQ_TIMER then K_clear else K_other) s2"
    by (simp add: cut_step [OF _ _ irq_micro_simps(1)] 1 s2_def)
  consider "irq = IRQ_TTY2" | "irq = IRQ_TIMER" | "irq \<noteq> IRQ_TTY2" "irq \<noteq> IRQ_TIMER" by blast
  then show ?thesis
  proof cases
    case 1
    obtain c s3 where 3: "getchar env s2 = (c, s3)" by fastforce
    have "c07e3_irq_cut env irq K_done f K_getc s2 = c07e3_irq_cut env irq K_done f K_if_t (printf ''IRQ_TTY2, ch=%c, '' [c] (s3\<lparr>e3_ch := c\<rparr>))"
      by (simp add: cut_step [OF _ _ irq_micro_simps(2)] cut_step [OF _ _ irq_micro_simps(3)] 3)
    then show ?thesis
      unfolding run c07e3_irq_handler_def \<open>goldfish_irq_status env s = (num, s1)\<close> Let_def prod.case s2_def [symmetric] 3 using 1
      by (simp add: cut_if_t cut_if_x k_if_r_def k_exit_def Let_def split_beta)
  next
    case 2
    show ?thesis
      unfolding run c07e3_irq_handler_def \<open>goldfish_irq_status env s = (num, s1)\<close> Let_def prod.case s2_def [symmetric] using 2
      by (simp add: cut_step [OF _ _ irq_micro_simps(14)] cut_step [OF _ _ irq_micro_simps(15)] cut_step [OF _ _ irq_micro_simps(16)] cut_exit k_exit_def Let_def split_beta)
  next
    case 3
    show ?thesis
      unfolding run c07e3_irq_handler_def \<open>goldfish_irq_status env s = (num, s1)\<close> Let_def prod.case s2_def [symmetric] using 3
      by (simp add: cut_step [OF _ _ irq_micro_simps(17)] cut_exit k_exit_def Let_def split_beta)
  qed
qed

section \<open>The flag and the alarm\<close>

text \<open>An alarm has been set, and no interrupt of the timer has been acknowledged since.\<close>

definition alarm_step :: "io \<Rightarrow> bool \<Rightarrow> bool" where
  "alarm_step e b = (case e of Wr a v \<Rightarrow> if a = IO_ADDRESS GOLDFISH_TIMER_BASE + TIMER_ALARM_LOW then True
     else if a = IO_ADDRESS GOLDFISH_TIMER_BASE + TIMER_CLEAR_INTERRUPT then False else b | _ \<Rightarrow> b)"

definition alarm_set :: "io list \<Rightarrow> bool" where
  "alarm_set h = fold alarm_step h False"

lemma alarm_snoc [simp]: "alarm_set (h @ [e]) = alarm_step e (alarm_set h)"
  by (simp add: alarm_set_def)

lemma alarm_append: "alarm_set (h @ es) = fold alarm_step es (alarm_set h)"
  by (simp add: alarm_set_def)

lemma alarm_step_simps [simp]:
  "alarm_step (Printf f xs) b = b" "alarm_step (Getchar c) b = b" "alarm_step (Rd a v) b = b"
  by (simp_all add: alarm_step_def)

lemma alarm_functions [simp]:
  "alarm_set (trace (goldfish_set_timer env n s))" "\<not> alarm_set (trace (goldfish_clear_timer_int env s))"
  "alarm_set (trace (printf f xs s)) = alarm_set (trace s)" "alarm_set (trace (snd (getchar env s))) = alarm_set (trace s)"
  "alarm_set (trace (snd (goldfish_irq_status env s))) = alarm_set (trace s)" "alarm_set (trace (snd (get_ticks env r))) = alarm_set (trace r)"
  by (simp_all add: goldfish_set_timer_def goldfish_clear_timer_int_def getchar_def goldfish_irq_status_def get_ticks_def get_timer_def
      get_timer_masked_def get_millisecond_def Let_def split_beta alarm_append alarm_step_def)

lemma k_end_simps [simp]:
  "timer_irq (k_exit env irq s) = timer_irq s" "timeout (k_exit env irq s) = timeout s" "e3_ch (k_exit env irq s) = e3_ch s"
  "alarm_set (trace (k_exit env irq s)) = alarm_set (trace s)"
  "timer_irq (k_if_r env irq s) = timer_irq s" "alarm_set (trace (k_if_r env irq s)) = alarm_set (trace s)"
  by (simp_all add: k_exit_def k_if_r_def Let_def split_beta rtc_reset_def)

definition timer_run :: "env \<Rightarrow> 'a c07e3_st_scheme \<Rightarrow> 'a c07e3_st_scheme" where
  "timer_run env s = k_exit env IRQ_TIMER ((printf ''IRQ_TIMER '' [] (goldfish_clear_timer_int env
     (printf ''\<newline><=Enter IRQ(%d), %d pending, '' [sint IRQ_TIMER, sint (fst (goldfish_irq_status env s))] (snd (goldfish_irq_status env s)))))\<lparr>timer_irq := 0\<rparr>)"

lemma handler_timer: "c07e3_irq_handler env IRQ_TIMER s = Inr (timer_run env s)"
  by (simp add: c07e3_irq_handler_def timer_run_def k_exit_def Let_def split_beta)

lemma e3_handler_vars [simp]:
  "e3_ch (goldfish_clear_timer_int env s) = e3_ch s" "timer_irq (goldfish_clear_timer_int env s) = timer_irq s"
  "e3_ch (snd (goldfish_irq_status env s)) = e3_ch s" "timeout (snd (goldfish_irq_status env s)) = timeout s" "timer_irq (snd (goldfish_irq_status env s)) = timer_irq s"
  "timeout (snd (getchar env s)) = timeout s" "timer_irq (snd (getchar env s)) = timer_irq s"
  by (simp_all add: goldfish_clear_timer_int_def goldfish_irq_status_def getchar_def Let_def split_beta)

lemma timer_run_simps [simp]:
  "timer_irq (timer_run env s) = 0" "timeout (timer_run env s) = timeout s" "e3_ch (timer_run env s) = e3_ch s" "\<not> alarm_set (trace (timer_run env s))"
  by (simp_all add: timer_run_def)

lemmas handler_timer_num = handler_timer [unfolded IRQ_TIMER_def]

lemma cut_here: "p \<noteq> K_done \<Longrightarrow> f s = Inr s' \<Longrightarrow> c07e3_irq_micro env irq p s' = Inr (p', s'') \<Longrightarrow>
    c07e3_irq_cut env irq p f p s = c07e3_irq_cut env irq p f p' s''"
  by (subst c07e3_irq_cut.simps) simp

lemma timer_flag_alone:
  assumes "c07e3_irq_handler env irq s = Inr s'" and "timer_irq s = 1 \<longleftrightarrow> alarm_set (trace s)"
  shows "timer_irq s' = 1 \<longleftrightarrow> alarm_set (trace s')"
  using assms
  by (auto simp: c07e3_irq_handler_def Let_def split_beta rbind_eq_Inr rtc_reset_def alarm_append split: if_splits)

lemma key_window:
  assumes t: "\<And>h. env_getchar env h = 116" and range: "s32_fits (timeout s + 1)"
    and q: "q \<in> {K_enter, K_getc, K_show, K_if_t, K_say_t, K_arm, K_inc, K_flag, K_if_x, K_if_r, K_exit}"
  shows "\<exists>s'. c07e3_irq_cut env IRQ_TTY2 q (c07e3_irq_handler env IRQ_TIMER) K_enter s = Inr s' \<and>
    timer_irq s' = (if q \<in> {K_if_x, K_if_r, K_exit} then 0 else 1) \<and> (alarm_set (trace s') \<longleftrightarrow> q \<in> {K_enter, K_getc, K_show, K_if_t, K_say_t, K_arm})"
proof -
  have g: "fst (getchar env r) = 116" for r :: "'a c07e3_st_scheme" by (simp add: getchar_def t)
  note steps = cut_step [OF _ _ irq_micro_simps(1)] cut_step [OF _ _ irq_micro_simps(2)] cut_step [OF _ _ irq_micro_simps(3)]
    cut_step [OF _ _ irq_micro_simps(4)] cut_step [OF _ _ irq_micro_simps(5)] cut_step [OF _ _ irq_micro_simps(6)] cut_step [OF _ _ irq_micro_simps(7)]
    cut_step [OF _ _ irq_micro_simps(8)] cut_step [OF _ _ irq_micro_simps(9)] cut_step [OF _ _ irq_micro_simps(11)] cut_if_r cut_exit
  note here = cut_here [OF _ handler_timer_num irq_micro_simps(1)] cut_here [OF _ handler_timer_num irq_micro_simps(2)] cut_here [OF _ handler_timer_num irq_micro_simps(3)]
    cut_here [OF _ handler_timer_num irq_micro_simps(4)] cut_here [OF _ handler_timer_num irq_micro_simps(5)] cut_here [OF _ handler_timer_num irq_micro_simps(6)]
    cut_here [OF _ handler_timer_num irq_micro_simps(7)] cut_here [OF _ handler_timer_num irq_micro_simps(8)] cut_here [OF _ handler_timer_num irq_micro_simps(9)]
    cut_here [OF _ handler_timer_num irq_micro_simps(11)] cut_here [OF _ handler_timer_num irq_micro_simps(18)]
  show ?thesis using q range
    by (elim insertE emptyE; simp add: steps here g)
qed

lemma timer_window:
  assumes t: "\<And>h. env_getchar env h = 116" and range: "s32_fits (timeout s + 1)" and q: "q \<in> {K_say_timer, K_unflag, K_exit}"
  shows "\<exists>s'. c07e3_irq_cut env IRQ_TIMER q (c07e3_irq_handler env IRQ_TTY2) K_enter s = Inr s' \<and>
    timer_irq s' = (if q = K_exit then 1 else 0) \<and> alarm_set (trace s')"
proof -
  have key: "\<exists>r'. c07e3_irq_handler env IRQ_TTY2 r = Inr r' \<and> timer_irq r' = 1 \<and> alarm_set (trace r') \<and> e3_ch r' = 116"
    if "timeout r = timeout s" for r :: "'a c07e3_st_scheme"
    using range that by (simp add: c07e3_irq_handler_def getchar_def t Let_def split_beta)
  note steps = cut_step [OF _ _ irq_micro_simps(1)] cut_step [OF _ _ irq_micro_simps(14)] cut_step [OF _ _ irq_micro_simps(15)]
    cut_step [OF _ _ irq_micro_simps(16)] cut_exit
  define e where "e = printf ''\<newline><=Enter IRQ(%d), %d pending, '' [sint IRQ_TIMER, sint (fst (goldfish_irq_status env s))] (snd (goldfish_irq_status env s))"
  define r where "r = (case q of K_say_timer \<Rightarrow> goldfish_clear_timer_int env e | K_unflag \<Rightarrow> printf ''IRQ_TIMER '' [] (goldfish_clear_timer_int env e)
    | _ \<Rightarrow> (printf ''IRQ_TIMER '' [] (goldfish_clear_timer_int env e))\<lparr>timer_irq := 0\<rparr>)"
  have "timeout r = timeout s" using q by (auto simp: r_def e_def)
  then obtain r' where r': "c07e3_irq_handler env IRQ_TTY2 r = Inr r'" "timer_irq r' = 1" "alarm_set (trace r')" using key by blast
  have to_q: "c07e3_irq_cut env IRQ_TIMER q f K_enter s = c07e3_irq_cut env IRQ_TIMER q f q r" for f
    using q by (elim insertE emptyE; simp add: steps r_def e_def)
  note here = cut_here [where f = "c07e3_irq_handler env IRQ_TTY2" and s = r and s' = r', OF _ r'(1), unfolded IRQ_TTY2_def]
  show ?thesis unfolding to_q using q r'(2,3)
    by (elim insertE emptyE; simp add: steps here [OF _ irq_micro_simps(15)] here [OF _ irq_micro_simps(16)] here [OF _ irq_micro_simps(18)]
        split_beta)
qed

section \<open>The main loop in steps\<close>

datatype mpoint = M_test | M_if_d | M_mask | M_say_d | M_if_e | M_unmask | M_say_e | M_if_g | M_get | M_show_g | M_if_s | M_set | M_say_s | M_show_s
  | M_clear | M_timeout | M_flag | M_get_i | M_show_i | M_long | M_short

definition c07e3_main_micro :: "env \<Rightarrow> mpoint \<Rightarrow> 'a c07e3_st_scheme \<Rightarrow> (mpoint \<times> 'a c07e3_st_scheme) result option" where
  "c07e3_main_micro env p s =
     (case p of
        M_test \<Rightarrow> Some (Inr (if e3_ch s \<noteq> 0 then M_if_d else M_timeout, s))
      | M_if_d \<Rightarrow> Some (Inr (if e3_ch s = 100 then M_mask else M_if_e, s))
      | M_mask \<Rightarrow> Some (Inr (M_say_d, goldfish_mask_irq env IRQ_TIMER s))
      | M_say_d \<Rightarrow> Some (Inr (M_if_e, printf ''  - Disabled timer.\<newline>'' [] s))
      | M_if_e \<Rightarrow> Some (Inr (if e3_ch s = 101 then M_unmask else M_if_g, s))
      | M_unmask \<Rightarrow> Some (Inr (M_say_e, goldfish_unmask_irq env IRQ_TIMER s))
      | M_say_e \<Rightarrow> Some (Inr (M_if_g, printf ''  - Enabled timer.\<newline>'' [] s))
      | M_if_g \<Rightarrow> Some (Inr (if e3_ch s = 103 then M_get else M_if_s, s))
      | M_get \<Rightarrow> (case rtc_get env (e3_rtc s) s of Inl f \<Rightarrow> Some (Inl f) | Inr (r, rtc, s) \<Rightarrow> Some (Inr (M_show_g, s\<lparr>e3_rtc := rtc\<rparr>)))
      | M_show_g \<Rightarrow> Some (Inr (M_if_s, print_date env s))
      | M_if_s \<Rightarrow> Some (Inr (if e3_ch s = 115 then M_set else M_clear, s))
      | M_set \<Rightarrow> let s = s\<lparr>e3_rtc := (e3_rtc s)\<lparr>tm_year := 2014, tm_mon := 4, tm_mday := 11, tm_hour := 12, tm_min := 30, tm_sec := 55\<rparr>\<rparr>;
                      (r, s) = rtc_set env (e3_rtc s) s
                  in Some (Inr (M_say_s, s))
      | M_say_s \<Rightarrow> Some (Inr (M_show_s, printf ''  - set RTC. '' [] s))
      | M_show_s \<Rightarrow> Some (Inr (M_clear, print_date env s))
      | M_clear \<Rightarrow> Some (Inr (M_test, s\<lparr>e3_ch := 0\<rparr>))
      | M_timeout \<Rightarrow> Some (Inr (if 1000 < timeout s then M_flag else M_short, s))
      | M_flag \<Rightarrow> Some (Inr (if 0 < timer_irq s then M_get_i else M_short, s))
      | M_get_i \<Rightarrow> (case rtc_get env (e3_rtc s) s of Inl f \<Rightarrow> Some (Inl f) | Inr (r, rtc, s) \<Rightarrow> Some (Inr (M_show_i, s\<lparr>e3_rtc := rtc\<rparr>)))
      | M_show_i \<Rightarrow> Some (Inr (M_long, print_date env s))
      | M_long \<Rightarrow> map_option (\<lambda>s. Inr (M_test, s)) (udelay env 1000000 s)
      | M_short \<Rightarrow> map_option (\<lambda>s. Inr (M_test, s)) (udelay env 1000 s))"

section \<open>The program\<close>

definition c07e3_program :: "env \<Rightarrow> (c07e3_st, mpoint, kpoint) program" where
  "c07e3_program env = \<lparr>main_micro = c07e3_main_micro env,
     irq_micro = c07e3_irq_micro env, irq_start = K_enter, irq_end = K_done\<rparr>"

definition c07e3_wanted :: "mpoint \<Rightarrow> 'a machine_scheme \<Rightarrow> u32 set" where
  "c07e3_wanted p s = timer_wanted (p = M_say_e) (p = M_say_d) (trace s)"

text \<open>The steps that only read the clock, and print other lines than the two about the timer, keep the mask, the last message about it and
  the variables that the handler changes; the table of the days of the months is restored.\<close>

definition keeps_irqs :: "'a c07e3_st_scheme \<Rightarrow> 'a c07e3_st_scheme \<Rightarrow> bool" where
  "keeps_irqs s s' \<longleftrightarrow> log_of (trace s') = log_of (trace s) \<and> timeout s' = timeout s \<and> timer_irq s' = timer_irq s \<and>
     (month_tab s = month_days \<longrightarrow> month_tab s' = month_days)"

lemma keeps_irqs_refl: "keeps_irqs s s"
  by (simp add: keeps_irqs_def)

lemma keeps_irqs_trans: "keeps_irqs s t \<Longrightarrow> keeps_irqs t u \<Longrightarrow> keeps_irqs s u"
  by (simp add: keeps_irqs_def)

lemma log_quiet:
  "log_step (Rd a v) l = l"
  "f \<notin> {''1. Command is %c. time=(%lu).\<newline>'', ''  - Disabled timer.\<newline>'', ''  - Enabled timer.\<newline>''} \<Longrightarrow> log_step (Printf f xs) l = l"
  by (cases l; simp add: log_step_bus)+

lemma keeps_timer: "keeps_irqs s (snd (get_timer_masked env s))" "keeps_irqs s (snd (get_timer env b s))" "keeps_irqs s (snd (get_ticks env s))"
   "keeps_irqs s (reset_timer_masked env s)" "keeps_irqs s (snd (get_second env s))" "keeps_irqs s (snd (get_millisecond env s))"
  by (simp_all add: keeps_irqs_def get_ticks_def get_timer_def get_timer_masked_def reset_timer_masked_def get_second_def get_millisecond_def
      readl_def Let_def split_beta log_quiet)

lemma keeps_udelay_wait: "udelay_wait env tmo s = Some s' \<Longrightarrow> keeps_irqs s s'"
proof (rule udelay_wait.raw_induct [where P = "\<lambda>env tmo s s'. keeps_irqs s s'"])
  show "keeps_irqs s s'"
    if "\<And>env tmo s s'. w env tmo s = Some s' \<Longrightarrow> keeps_irqs s s'"
      and "(if fst (get_timer_masked env s) < tmo then w env tmo (snd (get_timer_masked env s)) else Some (snd (get_timer_masked env s))) = Some s'"
    for w env tmo and s s' :: "'a c07e3_st_scheme"
    using that(2) keeps_timer(1) [of s env] by (auto split: if_splits dest!: that(1) intro: keeps_irqs_trans)
qed

lemma keeps_udelay: "udelay env n s = Some s' \<Longrightarrow> keeps_irqs s s'"
  using keeps_timer(2) [of s env 0] keeps_timer(4) [of "snd (get_timer env 0 s)" env]
  by (auto simp: udelay_def Let_def split_beta split: if_splits dest!: keeps_udelay_wait intro: keeps_irqs_trans)

text \<open>With the table as it is initialised, the conversion of the date never faults.\<close>

lemma rtc_get_ok:
  assumes "month_tab s = month_days"
  shows "\<exists>tm s'. rtc_get env r s = Inr (0, tm, s') \<and> month_tab s' = month_days"
proof -
  define t where "t = sint (fst (get_second env s) + rtc_offset (snd (get_second env s)))"
  have "t < 2 ^ 31" using sint_less [of "fst (get_second env s) + rtc_offset (snd (get_second env s))"] by (simp add: t_def)
  then obtain tm where "to_tm t r month_days = Inr (tm, month_days)"
    using to_tm_epoch [of t r] to_tm_before_epoch [of t r] by (cases "0 \<le> t") auto
  moreover have "month_tab (snd (get_second env s)) = month_days" using assms by (simp add: get_second_def Let_def split_beta)
  ultimately show ?thesis by (simp add: rtc_get_def split_beta Let_def t_def)
qed

lemma month_tab_irq [simp]:
  "month_tab (goldfish_set_timer env n s) = month_tab s" "month_tab (goldfish_clear_timer_int env s) = month_tab s"
  "month_tab (snd (get_ticks env s)) = month_tab s" "month_tab (snd (getchar env s)) = month_tab s"
  "month_tab (snd (goldfish_irq_status env s)) = month_tab s" "month_tab (goldfish_mask_irq env i s) = month_tab s"
  "month_tab (goldfish_unmask_irq env i s) = month_tab s"
  by (simp_all add: goldfish_set_timer_def goldfish_clear_timer_int_def get_ticks_def get_timer_def get_timer_masked_def get_millisecond_def
      getchar_def goldfish_irq_status_def goldfish_mask_irq_def goldfish_unmask_irq_def Let_def split_beta)

lemma keeps_date: "keeps_irqs s (print_date env s)" "keeps_irqs s (snd (rtc_set env tm s))" "rtc_get env tm s = Inr (r, rtc, s') \<Longrightarrow> keeps_irqs s s'"
proof -
  show "keeps_irqs s (print_date env s)" "keeps_irqs s (snd (rtc_set env tm s))"
    using keeps_timer(5,6) [of s env] by (auto simp: keeps_irqs_def print_date_def rtc_set_def Let_def split_beta log_quiet)
  assume g: "rtc_get env tm s = Inr (r, rtc, s')"
  have "month_tab s = month_days \<Longrightarrow> month_tab s' = month_days" using rtc_get_ok [of s env tm] g by auto
  then show "keeps_irqs s s'"
    using keeps_timer(5) [of s env] g by (auto simp: keeps_irqs_def rtc_get_def Let_def split_beta split: sum.splits)
qed

text \<open>What a step of the main loop does to the mask, to the last message about it and to the next point.\<close>

lemma main3_log:
  assumes m: "c07e3_main_micro env p s = Some (Inr (p', s'))" and l: "log_of (trace s) = (E, cs, ks, on)"
  shows "log_of (trace s') = (case p of M_mask \<Rightarrow> (E - {IRQ_TIMER}, cs, ks, on) | M_say_d \<Rightarrow> (E, cs, ks, False)
      | M_unmask \<Rightarrow> (insert IRQ_TIMER E, cs, ks, on) | M_say_e \<Rightarrow> (E, cs, ks, True) | _ \<Rightarrow> (E, cs, ks, on))"
    and "timeout s' = timeout s" and "timer_irq s' = timer_irq s" and "month_tab s = month_days \<longrightarrow> month_tab s' = month_days"
    and "p' = M_say_d \<longleftrightarrow> p = M_mask" "p' = M_say_e \<longleftrightarrow> p = M_unmask"
proof -
  have k: "log_of (trace t) = (E, cs, ks, on) \<and> timeout t = timeout s \<and> timer_irq t = timer_irq s \<and>
      (month_tab s = month_days \<longrightarrow> month_tab t = month_days)" if "keeps_irqs s t" for t
    using that l by (simp add: keeps_irqs_def)
  have k': "keeps_irqs (s\<lparr>e3_rtc := r\<rparr>) t \<Longrightarrow> keeps_irqs s t" for r t by (simp add: keeps_irqs_def)
  have c: "timeout (goldfish_mask_irq env i s) = timeout s" "timer_irq (goldfish_mask_irq env i s) = timer_irq s"
    "timeout (goldfish_unmask_irq env i s) = timeout s" "timer_irq (goldfish_unmask_irq env i s) = timer_irq s" for i
    by (simp_all add: goldfish_mask_irq_def goldfish_unmask_irq_def Let_def)
  have ks: "log_of (trace (snd (rtc_set env tm (s\<lparr>e3_rtc := r\<rparr>)))) = (E, cs, ks, on) \<and>
      timeout (snd (rtc_set env tm (s\<lparr>e3_rtc := r\<rparr>))) = timeout s \<and> timer_irq (snd (rtc_set env tm (s\<lparr>e3_rtc := r\<rparr>))) = timer_irq s \<and>
      (month_tab s = month_days \<longrightarrow> month_tab (snd (rtc_set env tm (s\<lparr>e3_rtc := r\<rparr>))) = month_days)" for tm r
    by (rule k [OF k' [OF keeps_date(2)]])
  note kd = k [OF keeps_date(1) [of s env]] ks
  have "log_of (trace s') = (case p of M_mask \<Rightarrow> (E - {IRQ_TIMER}, cs, ks, on) | M_say_d \<Rightarrow> (E, cs, ks, False)
      | M_unmask \<Rightarrow> (insert IRQ_TIMER E, cs, ks, on) | M_say_e \<Rightarrow> (E, cs, ks, True) | _ \<Rightarrow> (E, cs, ks, on)) \<and>
    timeout s' = timeout s \<and> timer_irq s' = timer_irq s \<and> (month_tab s = month_days \<longrightarrow> month_tab s' = month_days) \<and> (p' = M_say_d \<longleftrightarrow> p = M_mask) \<and> (p' = M_say_e \<longleftrightarrow> p = M_unmask)"
    using m l by (cases p) (auto simp: c07e3_main_micro_def Let_def split_beta kd c log_step_bus split: if_splits sum.splits prod.splits
        dest!: keeps_date(3) keeps_udelay k)
  then show "log_of (trace s') = (case p of M_mask \<Rightarrow> (E - {IRQ_TIMER}, cs, ks, on) | M_say_d \<Rightarrow> (E, cs, ks, False)
      | M_unmask \<Rightarrow> (insert IRQ_TIMER E, cs, ks, on) | M_say_e \<Rightarrow> (E, cs, ks, True) | _ \<Rightarrow> (E, cs, ks, on))"
    "timeout s' = timeout s" "timer_irq s' = timer_irq s" "month_tab s = month_days \<longrightarrow> month_tab s' = month_days" "p' = M_say_d \<longleftrightarrow> p = M_mask" "p' = M_say_e \<longleftrightarrow> p = M_unmask"
    by blast+
qed

definition clock_data_ok :: "'a c07e3_st_scheme \<Rightarrow> bool" where
  "clock_data_ok s \<longleftrightarrow> 0 \<le> timeout s \<and> timeout s < 2 ^ 31 \<and> (timer_irq s = 0 \<or> timer_irq s = 1) \<and> month_tab s = month_days"

lemma irq3_log:
  assumes "c07e3_irq_micro env irq p s = Inr (p', s')"
  shows "irq_enabled (trace s') = irq_enabled (trace s)" "reported_on (trace s') = reported_on (trace s)" "clock_data_ok s \<Longrightarrow> clock_data_ok s'"
proof -
  obtain E cs ks on where l: "log_of (trace s) = (E, cs, ks, on)" by (metis prod_cases4)
  have t: "log_of (trace (snd (get_ticks env s))) = log_of (trace s)" using keeps_timer(3) [of s env] by (simp add: keeps_irqs_def)
  have "\<exists>ks'. log_of (trace s') = (E, cs, ks', on)"
    using assms l by (cases p) (auto simp: c07e3_irq_micro_def split_beta getchar_def log_step_bus rtc_reset_def t Let_def split: if_splits)
  then show "irq_enabled (trace s') = irq_enabled (trace s)" "reported_on (trace s') = reported_on (trace s)" using l by (auto simp: log_parts)
  show "clock_data_ok s \<Longrightarrow> clock_data_ok s'"
    using assms by (cases p) (auto simp: c07e3_irq_micro_def split_beta getchar_def clock_data_ok_def s32_fits_def rtc_reset_def goldfish_irq_status_def Let_def split: if_splits)
qed

interpretation e3: nested_program env "c07e3_program env" c07e3_wanted "{IRQ_TIMER, IRQ_TTY2}" for env :: env
proof unfold_locales
  fix irq h h' p and s s' :: c07e3_st
  assume "irq_micro (c07e3_program env) irq h s = Inr (h', s')"
  then have "c07e3_irq_micro env irq h s = Inr (h', s')" by (simp add: c07e3_program_def)
  from irq3_log(1,2) [OF this] show "irq_enabled (trace s') = irq_enabled (trace s) \<and> c07e3_wanted p s' = c07e3_wanted p s"
    by (simp add: c07e3_wanted_def timer_wanted_def)
next
  fix p p' and s s' :: c07e3_st
  assume "main_micro (c07e3_program env) p s = Some (Inr (p', s'))" and e: "irq_enabled (trace s) = c07e3_wanted p s"
  then have m: "c07e3_main_micro env p s = Some (Inr (p', s'))" by (simp add: c07e3_program_def)
  obtain E cs ks on where l: "log_of (trace s) = (E, cs, ks, on)" by (metis prod_cases4)
  show "irq_enabled (trace s') = c07e3_wanted p' s'"
    using main3_log(1,5,6) [OF m l] e l by (cases p) (auto simp: c07e3_wanted_def timer_wanted_def log_parts)
qed (auto simp: c07e3_wanted_def timer_wanted_def log_controller)

section \<open>The steps of the main loop are its iteration\<close>

fun m_left :: "mpoint \<Rightarrow> nat" where
  "m_left M_test = 22" | "m_left M_if_d = 21" | "m_left M_mask = 20" | "m_left M_say_d = 19" | "m_left M_if_e = 18" | "m_left M_unmask = 17"
| "m_left M_say_e = 16" | "m_left M_if_g = 15" | "m_left M_get = 14" | "m_left M_show_g = 13" | "m_left M_if_s = 12" | "m_left M_set = 11"
| "m_left M_say_s = 10" | "m_left M_show_s = 9" | "m_left M_clear = 8" | "m_left M_timeout = 7" | "m_left M_flag = 6" | "m_left M_get_i = 5"
| "m_left M_show_i = 4" | "m_left M_long = 3" | "m_left M_short = 2"

function c07e3_finish :: "env \<Rightarrow> mpoint \<Rightarrow> 'a c07e3_st_scheme \<Rightarrow> ('a c07e3_st_scheme) result option" where
  "c07e3_finish env p s =
     (case c07e3_main_micro env p s of
        None \<Rightarrow> None
      | Some (Inl f) \<Rightarrow> Some (Inl f)
      | Some (Inr (p', s')) \<Rightarrow> if p' = M_test then Some (Inr s') else c07e3_finish env p' s')"
  by pat_completeness auto

termination
  by (relation "measure (\<lambda>(env, p, s). m_left p)")
    (auto simp: c07e3_main_micro_def Let_def split_beta split: mpoint.splits if_splits sum.splits prod.splits)

declare c07e3_finish.simps [simp del]

lemma finish3_step:
  "c07e3_main_micro env p s = Some (Inr (p', s')) \<Longrightarrow> c07e3_finish env p s = (if p' = M_test then Some (Inr s') else c07e3_finish env p' s')"
  by (subst c07e3_finish.simps) simp

lemma finish3_none: "c07e3_main_micro env p s = None \<Longrightarrow> c07e3_finish env p s = None"
  by (subst c07e3_finish.simps) simp

text \<open>An iteration of the loop is the sequence of its steps.\<close>

lemma main3_simps:
  "c07e3_main_micro env M_test s = Some (Inr (if e3_ch s \<noteq> 0 then M_if_d else M_timeout, s))"
  "c07e3_main_micro env M_if_d s = Some (Inr (if e3_ch s = 100 then M_mask else M_if_e, s))"
  "c07e3_main_micro env M_mask s = Some (Inr (M_say_d, goldfish_mask_irq env IRQ_TIMER s))"
  "c07e3_main_micro env M_say_d s = Some (Inr (M_if_e, printf ''  - Disabled timer.\<newline>'' [] s))"
  "c07e3_main_micro env M_if_e s = Some (Inr (if e3_ch s = 101 then M_unmask else M_if_g, s))"
  "c07e3_main_micro env M_unmask s = Some (Inr (M_say_e, goldfish_unmask_irq env IRQ_TIMER s))"
  "c07e3_main_micro env M_say_e s = Some (Inr (M_if_g, printf ''  - Enabled timer.\<newline>'' [] s))"
  "c07e3_main_micro env M_if_g s = Some (Inr (if e3_ch s = 103 then M_get else M_if_s, s))"
  "c07e3_main_micro env M_show_g s = Some (Inr (M_if_s, print_date env s))"
  "c07e3_main_micro env M_if_s s = Some (Inr (if e3_ch s = 115 then M_set else M_clear, s))"
  "c07e3_main_micro env M_set s = Some (Inr (M_say_s, snd (rtc_set env (set_date (e3_rtc s)) (s\<lparr>e3_rtc := set_date (e3_rtc s)\<rparr>))))"
  "c07e3_main_micro env M_say_s s = Some (Inr (M_show_s, printf ''  - set RTC. '' [] s))"
  "c07e3_main_micro env M_show_s s = Some (Inr (M_clear, print_date env s))"
  "c07e3_main_micro env M_clear s = Some (Inr (M_test, s\<lparr>e3_ch := 0\<rparr>))"
  "c07e3_main_micro env M_timeout s = Some (Inr (if 1000 < timeout s then M_flag else M_short, s))"
  "c07e3_main_micro env M_flag s = Some (Inr (if 0 < timer_irq s then M_get_i else M_short, s))"
  "c07e3_main_micro env M_show_i s = Some (Inr (M_long, print_date env s))"
  by (simp_all add: c07e3_main_micro_def Let_def split_beta set_date_def)

lemmas finish3_steps = main3_simps [THEN finish3_step]

lemma finish3_if_s:
  "c07e3_finish env M_if_s s = Some (Inr ((if e3_ch s = 115
     then print_date env (printf ''  - set RTC. '' [] (snd (rtc_set env (set_date (e3_rtc s)) (s\<lparr>e3_rtc := set_date (e3_rtc s)\<rparr>)))) else s)\<lparr>e3_ch := 0\<rparr>))"
  by (simp add: finish3_steps)

lemma finish3_delay:
  "c07e3_finish env M_short s = map_option Inr (udelay env 1000 s)" "c07e3_finish env M_long s = map_option Inr (udelay env 1000000 s)"
  by (subst c07e3_finish.simps, cases "udelay env 1000 s", simp_all add: c07e3_main_micro_def)
    (subst c07e3_finish.simps, cases "udelay env 1000000 s", simp_all add: c07e3_main_micro_def)

lemma finish3_get:
  "c07e3_finish env M_get s = (case get_and_print env s of Inl f \<Rightarrow> Some (Inl f) | Inr s \<Rightarrow> c07e3_finish env M_if_s s)"
  "c07e3_finish env M_get_i s = (case get_and_print env s of Inl f \<Rightarrow> Some (Inl f) | Inr s \<Rightarrow> c07e3_finish env M_long s)"
  by (subst c07e3_finish.simps, cases "rtc_get env (e3_rtc s) s";
      auto simp: c07e3_main_micro_def get_and_print_def finish3_step [OF main3_simps(9)] finish3_step [OF main3_simps(17)] split: prod.split)+

lemma c07e3_micro_iteration:
  "c07e3_finish env M_test s = c07e3_main_step env s"
proof -
  have g: "e3_ch s = 103 \<Longrightarrow> get_and_print env s = Inr s' \<Longrightarrow> e3_ch s' = 103" for s s' :: "'a c07e3_st_scheme"
    by (auto simp: get_and_print_def rbind_eq_Inr rtc_get_def get_second_def Let_def split_beta split: sum.splits)
  have b: "e3_ch (goldfish_mask_irq env i s) = e3_ch s" "e3_ch (goldfish_unmask_irq env i s) = e3_ch s" for i
    by (simp_all add: goldfish_mask_irq_def goldfish_unmask_irq_def Let_def)
  consider "e3_ch s = 0" | "e3_ch s = 100" | "e3_ch s = 101" | "e3_ch s = 103" | "e3_ch s = 115"
    | "e3_ch s \<notin> {0, 100, 101, 103, 115}" by blast
  then show ?thesis
  proof cases
    case 1
    then show ?thesis
      by (simp add: finish3_steps finish3_delay finish3_get c07e3_main_step_def split: option.split sum.split)
  next
    case 4
    then show ?thesis using g [of s]
      by (auto simp: finish3_steps(1,2,5,8) finish3_get finish3_if_s c07e3_main_step_def Let_def split: sum.split)
  qed (simp_all add: finish3_steps(1-8) finish3_if_s c07e3_main_step_def Let_def b split_beta set_date_def)
qed

section \<open>Properties\<close>

lemma c07e3_init:
  assumes "trace s = []" "timeout s = 0" "timer_irq s = 0" "month_tab s = month_days"
  shows "log_of (trace (c07e3_main_init env s)) = ({IRQ_TTY2, IRQ_TIMER}, [], [], True)" "clock_data_ok (c07e3_main_init env s)"
proof -
  let ?t = "goldfish_unmask_irq env IRQ_TTY2 (goldfish_unmask_irq env IRQ_TIMER ((printf ''Starting c07e3 ...\<newline>'' [] s)\<lparr>e3_cpsr := msr_cpsr_c 0x1F (e3_cpsr s)\<rparr>))"
  have "log_of (e # es) = fold log_step (e # es) (log_of [])" for e es using log_append [of "[]" "e # es"] by simp
  moreover have "log_of [] = ({}, [], [], True)" by (simp add: log_of_def irq_enabled_def commands_def keys_def reported_on_def)
  ultimately have t: "log_of (trace ?t) = ({IRQ_TTY2, IRQ_TIMER}, [], [], True)" "timeout ?t = 0" "timer_irq ?t = 0" "month_tab ?t = month_days"
    using assms by (simp_all add: log_step_def goldfish_unmask_irq_def Let_def irq_mask_step_def)
  have "c07e3_main_init env s = reset_timer_masked env (?t\<lparr>e3_cpsr := enter_user_mode (e3_cpsr ?t)\<rparr>)"
    by (simp add: c07e3_main_init_def timer_init_def Let_def printf_def)
  then show "log_of (trace (c07e3_main_init env s)) = ({IRQ_TTY2, IRQ_TIMER}, [], [], True)" "clock_data_ok (c07e3_main_init env s)"
    using t keeps_timer(4) [of "?t\<lparr>e3_cpsr := enter_user_mode (e3_cpsr ?t)\<rparr>" env] by (simp_all add: keeps_irqs_def clock_data_ok_def)
qed

text \<open>The faults of the steps.\<close>

lemma faults3:
  assumes "clock_data_ok s"
  shows "c07e3_main_micro env p s \<noteq> Some (Inl f)"
    and "c07e3_irq_micro env irq h s = Inl f \<Longrightarrow> f = Signed_overflow \<and> 214748364 < timeout s"
proof -
  have "\<exists>tm s'. rtc_get env (e3_rtc s) s = Inr (0, tm, s')" using rtc_get_ok [of s env "e3_rtc s"] assms by (auto simp: clock_data_ok_def)
  then show "c07e3_main_micro env p s \<noteq> Some (Inl f)"
    by (cases p) (auto simp: c07e3_main_micro_def Let_def split_beta)
  show "c07e3_irq_micro env irq h s = Inl f \<Longrightarrow> f = Signed_overflow \<and> 214748364 < timeout s"
    using assms by (cases h) (auto simp: c07e3_irq_micro_def clock_data_ok_def s32_fits_def split_beta Let_def split: if_splits)
qed

text \<open>C30: the program of c07e3 with interrupts that nest, in every order of the steps, from the start of its main loop with its variables as initialised. At most two activations of
  \<open>BSP_irq\<close> are on the stack, and no interrupt is served by
  two at once. The interrupts that are served or enabled are the keyboard's and, exactly when the last message about it says so (or is about to say so), the
  timer's. The variable \<open>timer_irq\<close> is 0 or 1. The only fault that can end a run is the overflow of \<open>timeout\<close> in the keyboard's handler, which nothing prevents, and it happens only when
  \<open>timeout\<close> is above 214748364; up to then \<open>timeout\<close> is not negative. Neither the conversion of the date nor anything else in the main loop faults.\<close>

theorem c07e3_nested:
  assumes boot: "trace s0 = []" "timeout s0 = 0" "timer_irq s0 = 0" "month_tab s0 = month_days"
    and reach: "nest_reach env (c07e3_program env) (at_loop M_test (c07e3_main_init env s0)) s"
  shows "length (acts s) \<le> 2 \<and> distinct (held (acts s)) \<and>
    set (held (acts s)) \<inter> irq_enabled (trace (prog s)) = {} \<and>
    set (held (acts s)) \<union> irq_enabled (trace (prog s)) = c07e3_wanted (npt s) (prog s) \<and>
    0 \<le> timeout (prog s) \<and> timeout (prog s) < 2 ^ 31 \<and> (timer_irq (prog s) = 0 \<or> timer_irq (prog s) = 1) \<and>
    (\<forall>f. halted s = Some f \<longrightarrow> f = Signed_overflow \<and> 214748364 < timeout (prog s))"
proof -
  let ?s = "at_loop M_test (c07e3_main_init env s0) :: (c07e3_st, mpoint, kpoint) nest"
  note i = c07e3_init [OF boot, of env]
  have "nest_inv c07e3_wanted ?s" using i(1) by (auto simp: nest_inv_def at_loop_def c07e3_wanted_def timer_wanted_def log_parts)
  from e3.nest_inv_reach [OF reach this] have inv: "nest_inv c07e3_wanted s" .
  have ok: "clock_data_ok (prog t)" if "nest_reach env (c07e3_program env) ?s t" for t
  proof (rule e3.data_reach [where Q = "\<lambda>p. clock_data_ok", OF that])
    show "clock_data_ok (prog ?s)" using i(2) by (simp add: at_loop_def)
    show "clock_data_ok t'" if "clock_data_ok t" "main_micro (c07e3_program env) p t = Some (Inr (p', t'))" for p p' and t t' :: c07e3_st
      using main3_log(2-4) [of env p t p' t'] that log_of_def by (simp add: c07e3_program_def clock_data_ok_def)
    show "clock_data_ok t'" if "clock_data_ok t" "irq_micro (c07e3_program env) irq h t = Inr (h', t')" for irq h h' and t t' :: c07e3_st
      using that irq3_log(3) [of env irq h t h' t'] by (simp add: c07e3_program_def)
  qed (simp add: clock_data_ok_def goldfish_mask_irq_def goldfish_unmask_irq_def goldfish_get_irq_num_def Let_def)
  have "f = Signed_overflow \<and> 214748364 < timeout (prog s)" if "halted s = Some f" for f
    by (rule e3.halted_reach [OF reach that, where Q = "\<lambda>p. clock_data_ok" and R = "\<lambda>f s. f = Signed_overflow \<and> 214748364 < timeout s"])
      (simp_all add: at_loop_def ok faults3 c07e3_program_def)
  then show ?thesis using inv e3.acts_bound [OF inv] ok [OF reach] by (simp add: nest_inv_def clock_data_ok_def)
qed

theorem c07e3_nested_witness:
  "\<exists>s. nest_reach nest_env (c07e3_program nest_env) (at_loop M_test (c07e3_main_init nest_env c07e3_boot)) s \<and>
     acts s = [(IRQ_TIMER, A_handler K_enter), (IRQ_TTY2, A_handler K_enter)] \<and> c07e3_wanted (npt s) (prog s) = {IRQ_TIMER, IRQ_TTY2}"
proof -
  have boot: "trace c07e3_boot = []" "timeout c07e3_boot = 0" "timer_irq c07e3_boot = 0" "month_tab c07e3_boot = month_days"
    by simp_all
  have i: "irq_enabled (trace (c07e3_main_init nest_env c07e3_boot)) = {IRQ_TTY2, IRQ_TIMER}"
    using c07e3_init(1) [OF boot] unfolding log_of_def by simp
  obtain s where s: "nest_reach nest_env (c07e3_program nest_env) (at_loop M_test (c07e3_main_init nest_env c07e3_boot)) s"
      "acts s = [(IRQ_TIMER, A_handler K_enter), (IRQ_TTY2, A_handler K_enter)]" "irq_enabled (trace (prog s)) = {}"
    using nest_env_run [OF i, of "c07e3_program nest_env" M_test] by (auto simp: c07e3_program_def)
  have "c07e3_wanted (npt s) (prog s) = {IRQ_TIMER, IRQ_TTY2}" using c07e3_nested [OF boot s(1)] s(2,3) by simp
  then show ?thesis using s(1,2) by blast
qed

text \<open>C31: the flag \<open>timer_irq\<close> of c07e3 and the alarm. Handlers that run one after the other, whatever the interrupt and whatever key has been typed, keep the flag 1 exactly while
  an alarm is set whose interrupt has not been acknowledged. Handlers that interrupt each other do not. When the key is \<open>t\<close> and \<open>timeout\<close> does not overflow: if the timer's handler interrupts
  the key's after the alarm has been set and before the flag has been, the
  flag stays 1 without an alarm; if the key's handler interrupts the timer's after the acknowledgement and before the flag has been cleared,
  the alarm is set and the flag 0. At the other points of the key's handler, the order of the two does not matter.\<close>

theorem c07e3_timer_flag:
  fixes r s :: "'a c07e3_st_scheme"
  assumes range: "0 \<le> timeout s" "timeout s < 2147483647"
  shows "(\<forall>irq r'. c07e3_irq_handler env irq r = Inr r' \<and> (timer_irq r = 1 \<longleftrightarrow> alarm_set (trace r)) \<longrightarrow> (timer_irq r' = 1 \<longleftrightarrow> alarm_set (trace r'))) \<and>
    ((\<forall>h. env_getchar env h = 116) \<longrightarrow>
     (\<forall>q \<in> {K_enter, K_getc, K_show, K_if_t, K_say_t, K_arm, K_inc, K_flag, K_if_x, K_if_r, K_exit}.
       \<exists>s'. c07e3_irq_cut env IRQ_TTY2 q (c07e3_irq_handler env IRQ_TIMER) K_enter s = Inr s' \<and>
         timer_irq s' = (if q \<in> {K_if_x, K_if_r, K_exit} then 0 else 1) \<and> (alarm_set (trace s') \<longleftrightarrow> q \<in> {K_enter, K_getc, K_show, K_if_t, K_say_t, K_arm})) \<and>
     (\<forall>q \<in> {K_say_timer, K_unflag, K_exit}.
       \<exists>s'. c07e3_irq_cut env IRQ_TIMER q (c07e3_irq_handler env IRQ_TTY2) K_enter s = Inr s' \<and>
         timer_irq s' = (if q = K_exit then 1 else 0) \<and> alarm_set (trace s')))"
proof (intro conjI allI impI)
  show "timer_irq r' = 1 \<longleftrightarrow> alarm_set (trace r')"
    if "c07e3_irq_handler env irq r = Inr r' \<and> (timer_irq r = 1 \<longleftrightarrow> alarm_set (trace r))" for irq r'
    using that timer_flag_alone by blast
  have fits: "s32_fits (timeout s + 1)" using range by (simp add: s32_fits_def)
  assume t: "\<forall>h. env_getchar env h = 116"
  show "\<forall>q \<in> {K_enter, K_getc, K_show, K_if_t, K_say_t, K_arm, K_inc, K_flag, K_if_x, K_if_r, K_exit}.
      \<exists>s'. c07e3_irq_cut env IRQ_TTY2 q (c07e3_irq_handler env IRQ_TIMER) K_enter s = Inr s' \<and>
        timer_irq s' = (if q \<in> {K_if_x, K_if_r, K_exit} then 0 else 1) \<and> (alarm_set (trace s') \<longleftrightarrow> q \<in> {K_enter, K_getc, K_show, K_if_t, K_say_t, K_arm})"
    by (intro ballI key_window fits) (simp_all only: t)
  show "\<forall>q \<in> {K_say_timer, K_unflag, K_exit}.
      \<exists>s'. c07e3_irq_cut env IRQ_TIMER q (c07e3_irq_handler env IRQ_TTY2) K_enter s = Inr s' \<and>
        timer_irq s' = (if q = K_exit then 1 else 0) \<and> alarm_set (trace s')"
    by (intro ballI timer_window fits) (simp_all only: t)
qed

theorem c07e3_timer_flag_witness:
  "\<exists>s'. c07e3_irq_cut \<lparr>env_read = (\<lambda>h a. 0), env_dma = (\<lambda>h s. s), env_getchar = (\<lambda>h. 116)\<rparr> IRQ_TTY2 K_flag
     (c07e3_irq_handler \<lparr>env_read = (\<lambda>h a. 0), env_dma = (\<lambda>h s. s), env_getchar = (\<lambda>h. 116)\<rparr> IRQ_TIMER) K_enter c07e3_boot = Inr s' \<and>
     timer_irq s' = 1 \<and> \<not> alarm_set (trace s')"
proof -
  let ?env = "\<lparr>env_read = (\<lambda>h a. 0), env_dma = (\<lambda>h s. s), env_getchar = (\<lambda>h. 116)\<rparr>"
  have "(\<forall>h. env_getchar ?env h = 116) \<longrightarrow> (\<forall>q \<in> {K_enter, K_getc, K_show, K_if_t, K_say_t, K_arm, K_inc, K_flag, K_if_x, K_if_r, K_exit}.
       \<exists>s'. c07e3_irq_cut ?env IRQ_TTY2 q (c07e3_irq_handler ?env IRQ_TIMER) K_enter c07e3_boot = Inr s' \<and>
         timer_irq s' = (if q \<in> {K_if_x, K_if_r, K_exit} then 0 else 1) \<and> (alarm_set (trace s') \<longleftrightarrow> q \<in> {K_enter, K_getc, K_show, K_if_t, K_say_t, K_arm}))"
    using c07e3_timer_flag [of c07e3_boot ?env, THEN conjunct2] by (rule rev_mp) simp_all
  then have "\<forall>q \<in> {K_enter, K_getc, K_show, K_if_t, K_say_t, K_arm, K_inc, K_flag, K_if_x, K_if_r, K_exit}.
       \<exists>s'. c07e3_irq_cut ?env IRQ_TTY2 q (c07e3_irq_handler ?env IRQ_TIMER) K_enter c07e3_boot = Inr s' \<and>
         timer_irq s' = (if q \<in> {K_if_x, K_if_r, K_exit} then 0 else 1) \<and> (alarm_set (trace s') \<longleftrightarrow> q \<in> {K_enter, K_getc, K_show, K_if_t, K_say_t, K_arm})"
    by (rule mp) simp
  from bspec [OF this, of K_flag] show ?thesis by auto
qed

end
