(* ===== verification/Nand_Init.thy ===== *)
theory Nand_Init
  imports Nand
begin

text \<open>
  What \<open>goldfish_nand_init_device\<close> and \<open>board_nand_init\<close> of \<^verbatim>\<open>c08/c08e1/goldfish_nand.c\<close> establish:
  the geometry of every device in natural numbers, the invariant \<open>mtd_wf\<close> on which the
  operations rely, and the outcome of every branch. The definitions of the two functions are in
  theory Nand; a device is described by what its registers answer.
\<close>

section \<open>Initialisation\<close>

text \<open>What the registers of a device say, and when they describe a usable flash.\<close>

record nand_desc =
  d_flags :: u32
  d_name_len :: u32
  d_page :: u32
  d_size :: u64
  d_extra :: u32
  d_erase :: u32

definition desc_ok :: "nand_desc \<Rightarrow> bool" where
  "desc_ok d \<longleftrightarrow> 0 < unat (d_page d) \<and> unat (d_page d) + unat (d_extra d) < 2 ^ 32 \<and>
     unat (d_page d) + unat (d_extra d) \<le> unat (d_erase d) \<and> unat (d_size d) < 2 ^ 63 - 2 ^ 32"

text \<open>The nine accesses that query a device, and the environment's answers to them.\<close>

definition desc_of :: "env \<Rightarrow> u32 \<Rightarrow> nat \<Rightarrow> io list \<Rightarrow> nand_desc" where
  "desc_of env base k h =
     (let h = h @ [Wr (base + NAND_DEV) (of_nat k)];
          fl = env_read env h (base + NAND_DEV_FLAGS); h = h @ [Rd (base + NAND_DEV_FLAGS) fl];
          nl = env_read env h (base + NAND_DEV_NAME_LEN); h = h @ [Rd (base + NAND_DEV_NAME_LEN) nl];
          ps = env_read env h (base + NAND_DEV_PAGE_SIZE); h = h @ [Rd (base + NAND_DEV_PAGE_SIZE) ps];
          lo = env_read env h (base + NAND_DEV_SIZE_LOW); h = h @ [Rd (base + NAND_DEV_SIZE_LOW) lo];
          hi = env_read env h (base + NAND_DEV_SIZE_HIGH); h = h @ [Rd (base + NAND_DEV_SIZE_HIGH) hi];
          ex = env_read env h (base + NAND_DEV_EXTRA_SIZE); h = h @ [Rd (base + NAND_DEV_EXTRA_SIZE) ex];
          er = env_read env h (base + NAND_DEV_ERASE_SIZE)
      in \<lparr>d_flags = fl, d_name_len = nl, d_page = ps, d_size = ucast lo OR push_bit 32 (ucast hi),
          d_extra = ex, d_erase = er\<rparr>)"

text \<open>The geometry of the structure, computed over natural numbers.\<close>

definition geometry :: "nand_desc \<Rightarrow> mtd_info \<Rightarrow> bool" where
  "geometry d m \<longleftrightarrow> writesize m = d_page d \<and> oobsize m = d_extra d \<and> oobavail m = d_extra d \<and>
     unat (erasesize m) = unat (d_erase d) div (unat (d_page d) + unat (d_extra d)) * unat (d_page d) \<and>
     unat (mtd_size m) = unat (d_size d) div (unat (d_page d) + unat (d_extra d)) * unat (d_page d) \<and>
     mtd_priv m"

lemma div_mult_part_le: "a div (p + e) * p \<le> (a :: nat)"
proof -
  have "a div (p + e) * p \<le> a div (p + e) * (p + e)" by simp
  also have "\<dots> \<le> a" by (rule div_times_less_eq_dividend)
  finally show ?thesis .
qed

lemma geometry_wf:
  assumes d: "desc_ok d" and g: "geometry d m"
  shows "mtd_wf m" and "raw_addr m (unat (mtd_size m)) \<le> unat (d_size d)"
    and "raw_addr m (unat (erasesize m)) \<le> unat (d_erase d)"
proof -
  let ?p = "unat (d_page d)" and ?e = "unat (d_extra d)"
  have p: "0 < ?p" using d by (simp add: desc_ok_def)
  have raw: "raw_addr m (k * ?p) = k * (?p + ?e)" for k using g p by (simp add: raw_addr_def geometry_def)
  show r: "raw_addr m (unat (mtd_size m)) \<le> unat (d_size d)"
    using g raw div_times_less_eq_dividend [of "unat (d_size d)" "?p + ?e"] by (simp add: geometry_def)
  show "raw_addr m (unat (erasesize m)) \<le> unat (d_erase d)"
    using g raw div_times_less_eq_dividend [of "unat (d_erase d)" "?p + ?e"] by (simp add: geometry_def)
  have "0 < unat (d_erase d) div (?p + ?e)" using d by (simp add: desc_ok_def div_greater_zero_iff)
  then show "mtd_wf m"
    using d g r p by (simp add: mtd_wf_def desc_ok_def geometry_def)
qed

lemma mtd_upd_simps [simp]:
  "trace (mtd_upd i f s) = trace s" "mem (mtd_upd i f s) = mem s"
  "goldfish_nand_info (mtd_upd i f s) = goldfish_nand_info s"
  "goldfish_dev_name (mtd_upd i f s) = goldfish_dev_name s"
  "length (nand_info (mtd_upd i f s)) = length (nand_info s)"
  "i < length (nand_info s) \<Longrightarrow> nand_info (mtd_upd i f s) ! i = f (nand_info s ! i)"
  "k \<noteq> i \<Longrightarrow> nand_info (mtd_upd i f s) ! k = nand_info s ! k"
  by (simp_all add: mtd_upd_def)

text \<open>The state after the register queries, as the code builds it up to the test of \<open>name_len\<close>.\<close>

definition probed :: "nat \<Rightarrow> 'a nand_st_scheme \<Rightarrow> 'a nand_st_scheme \<Rightarrow> bool" where
  "probed i s s' \<longleftrightarrow> length (nand_info s') = length (nand_info s) \<and>
     (\<forall>k. k \<noteq> i \<longrightarrow> nand_info s' ! k = nand_info s ! k) \<and>
     goldfish_nand_info s' = goldfish_nand_info s \<and> goldfish_dev_name s' = goldfish_dev_name s"

lemma probed_refl [simp]: "probed i s s" by (simp add: probed_def)

lemma probed_mtd_upd [simp]: "probed i s (mtd_upd i f s') = probed i s s'"
  by (simp add: probed_def)

lemma probed_bus [simp]:
  "probed i s (writel env v a s') = probed i s s'"
  "probed i s (snd (readl env a s')) = probed i s s'"
  "probed i s (printf f xs s') = probed i s s'"
  by (simp_all add: probed_def)

lemma probed_does: "nand_does t s' s'' \<Longrightarrow> probed i s s'' = probed i s s'"
  by (simp add: probed_def nand_does_def)

text \<open>The part of \<open>goldfish_nand_init_device\<close> after the test of \<open>name_len\<close>.\<close>

definition init_name :: "env \<Rightarrow> nat \<Rightarrow> u32 \<Rightarrow> u32 \<Rightarrow> 'a nand_st_scheme \<Rightarrow> (int \<times> 'a nand_st_scheme) result" where
  "init_name env i flags name_len s =
     (let name = goldfish_dev_name s + of_nat i * GOLDFISH_DEV_NAME_MAX_LEN;
          s = mtd_upd i (\<lambda>m. m\<lparr>mtd_name := name\<rparr>) s
      in rbind (goldfish_nand_cmd env i NAND_CMD_GET_DEV_NAME 0 name_len name s) (\<lambda>(result, s).
        if result \<noteq> name_len
        then Inr (- ENODEV,
          printf ''goldfish_nand_init_device failed to get dev name %d != %d\<newline>''
            [uint result, uint name_len] (mtd_upd i (\<lambda>m. m\<lparr>mtd_name := 0\<rparr>) s))
        else let s = s\<lparr>mem := (mem s)(name + name_len := 0)\<rparr>;
                 s = mtd_upd i (\<lambda>m. m\<lparr>mtd_type := MTD_NANDFLASH, mtd_flags := MTD_CAP_NANDFLASH\<rparr>) s;
                 s = (if flags AND NAND_DEV_FLAG_READ_ONLY \<noteq> 0
                      then mtd_upd i (\<lambda>m. m\<lparr>mtd_flags := mtd_flags m AND NOT MTD_WRITEABLE\<rparr>) s else s);
                 s = mtd_upd i (\<lambda>m. m\<lparr>mtd_owner := 0, mtd_erase := Some M_erase, mtd_read := Some M_read,
                       mtd_write := Some M_write, mtd_read_oob := Some M_read_oob,
                       mtd_write_oob := Some M_write_oob, mtd_block_isbad := Some M_block_isbad,
                       mtd_block_markbad := Some M_block_markbad\<rparr>) s
        in Inr (0, s)))"

definition init_probe :: "env \<Rightarrow> nat \<Rightarrow> 'a nand_st_scheme \<Rightarrow> u32 \<times> u32 \<times> u32 \<times> 'a nand_st_scheme" where
  "init_probe env i s =
     (let base = nand_base (goldfish_nand_info s);
          s = writel env (of_nat i) (base + NAND_DEV) s;
         (flags, s) = readl env (base + NAND_DEV_FLAGS) s;
         (name_len, s) = readl env (base + NAND_DEV_NAME_LEN) s;
         (v, s) = readl env (base + NAND_DEV_PAGE_SIZE) s;
         s = mtd_upd i (\<lambda>m. m\<lparr>writesize := v\<rparr>) s;
         (v, s) = readl env (base + NAND_DEV_SIZE_LOW) s;
         s = mtd_upd i (\<lambda>m. m\<lparr>mtd_size := ucast v\<rparr>) s;
         (v, s) = readl env (base + NAND_DEV_SIZE_HIGH) s;
         s = mtd_upd i (\<lambda>m. m\<lparr>mtd_size := mtd_size m OR push_bit 32 (ucast v)\<rparr>) s;
         (v, s) = readl env (base + NAND_DEV_EXTRA_SIZE) s;
         s = mtd_upd i (\<lambda>m. m\<lparr>oobsize := v, oobavail := v\<rparr>) s;
         (v, s) = readl env (base + NAND_DEV_ERASE_SIZE) s
      in (flags, name_len, v, s))"

lemma init_device_eq:
  assumes "nand_mtd (goldfish_nand_info s) = Some 0" "i < length (nand_info s)"
  shows "goldfish_nand_init_device env i s =
     (let (flags, name_len, v, s) = init_probe env i s;
          mtd = nand_info s ! i
      in rbind (u32_div v (writesize mtd + oobsize mtd)) (\<lambda>q.
         let s = mtd_upd i (\<lambda>m. m\<lparr>erasesize := q * writesize m\<rparr>) s
         in rbind (do_div (mtd_size mtd) (writesize mtd + oobsize mtd)) (\<lambda>(rem, sz).
         let s = mtd_upd i (\<lambda>m. m\<lparr>mtd_size := sz\<rparr>) s;
             s = mtd_upd i (\<lambda>m. m\<lparr>mtd_size := mtd_size m * ucast (writesize m)\<rparr>) s;
             s = mtd_upd i (\<lambda>m. m\<lparr>mtd_priv := True\<rparr>) s
         in if 64 < name_len
            then Inr (- ENOMEM,
              printf ''goldfish_nand_init_device: name_len=%d, larger than maximum length.'' [uint name_len] s)
            else init_name env i flags name_len s)))"
  by (simp only: goldfish_nand_init_device_def init_probe_def init_name_def mtd_ref_def assms add_0
      option.case if_True rbind.simps Let_def split_beta fst_conv snd_conv GOLDFISH_DEV_NAME_MAX_LEN_def)

lemma init_device_split:
  assumes "nand_mtd (goldfish_nand_info s) = Some 0" "i < length (nand_info s)"
    and "init_probe env i s = (flags, name_len, v, s0)"
    and "u32_div v (writesize (nand_info s0 ! i) + oobsize (nand_info s0 ! i)) = Inr q"
    and "do_div (mtd_size (nand_info s0 ! i)) (writesize (nand_info s0 ! i) + oobsize (nand_info s0 ! i)) = Inr (r, sz)"
    and "s1 = mtd_upd i (\<lambda>m. m\<lparr>mtd_priv := True\<rparr>) (mtd_upd i (\<lambda>m. m\<lparr>mtd_size := mtd_size m * ucast (writesize m)\<rparr>)
       (mtd_upd i (\<lambda>m. m\<lparr>mtd_size := sz\<rparr>) (mtd_upd i (\<lambda>m. m\<lparr>erasesize := q * writesize m\<rparr>) s0)))"
  shows "goldfish_nand_init_device env i s =
       (if 64 < name_len
        then Inr (- ENOMEM, printf ''goldfish_nand_init_device: name_len=%d, larger than maximum length.''
               [uint name_len] s1)
        else init_name env i flags name_len s1)"
  unfolding init_device_eq [OF assms(1,2)] assms(3,6) Let_def prod.case
  by (simp add: assms(4,5))

lemma init_probe_desc:
  assumes i: "i < length (nand_info s)"
    and d: "d = desc_of env (nand_base (goldfish_nand_info s)) i (trace s)"
  shows "\<exists>s0. init_probe env i s = (d_flags d, d_name_len d, d_erase d, s0) \<and> probed i s s0 \<and>
     writesize (nand_info s0 ! i) = d_page d \<and> oobsize (nand_info s0 ! i) = d_extra d \<and>
     oobavail (nand_info s0 ! i) = d_extra d \<and> mtd_size (nand_info s0 ! i) = d_size d"
  using i by (simp add: d init_probe_def desc_of_def Let_def split_beta)

lemma init_device_probe:
  assumes mtd: "nand_mtd (goldfish_nand_info s) = Some 0" and i: "i < length (nand_info s)"
    and d: "d = desc_of env (nand_base (goldfish_nand_info s)) i (trace s)" and ok: "desc_ok d"
  shows "\<exists>s1. goldfish_nand_init_device env i s =
       (if 64 < d_name_len d
        then Inr (- ENOMEM, printf ''goldfish_nand_init_device: name_len=%d, larger than maximum length.''
               [uint (d_name_len d)] s1)
        else init_name env i (d_flags d) (d_name_len d) s1) \<and>
     geometry d (nand_info s1 ! i) \<and> probed i s s1"
proof -
  let ?pitch = "d_page d + d_extra d"
  have pitch: "unat ?pitch = unat (d_page d) + unat (d_extra d)"
    using ok by (simp add: desc_ok_def word_nat)
  then have nz: "?pitch \<noteq> 0" using ok by (auto simp: desc_ok_def word_eq_0_unat)
  obtain r q where q: "do_div (d_size d) ?pitch = Inr (r, q)" "unat q = unat (d_size d) div unat ?pitch"
    using dd.divmod_nonzero [OF nz] by blast
  have le: "unat (d_size d) div unat ?pitch * unat (d_page d) \<le> unat (d_size d)"
    unfolding pitch by (rule div_mult_part_le)
  have sz: "unat (q * ucast (d_page d)) = unat (d_size d) div unat ?pitch * unat (d_page d)"
    using le unat_lt_u64 [of "d_size d"] q(2) unat_mult_u64 [of q "ucast (d_page d)"]
    by (simp add: word_nat)
  have "unat (d_erase d) div unat ?pitch * unat (d_page d) \<le> unat (d_erase d)"
    unfolding pitch by (rule div_mult_part_le)
  then have es: "unat (d_erase d div ?pitch * d_page d) = unat (d_erase d) div unat ?pitch * unat (d_page d)"
    using unat_lt_u32 [of "d_erase d"] unat_mult_u32 [of "d_erase d div ?pitch" "d_page d"] by (simp add: unat_div)
  obtain s0 where p: "init_probe env i s = (d_flags d, d_name_len d, d_erase d, s0)" "probed i s s0"
    and f: "writesize (nand_info s0 ! i) = d_page d" "oobsize (nand_info s0 ! i) = d_extra d"
     "oobavail (nand_info s0 ! i) = d_extra d" "mtd_size (nand_info s0 ! i) = d_size d"
    using init_probe_desc [OF i d] by blast
  have i0: "i < length (nand_info s0)" using p(2) i by (simp add: probed_def)
  let ?s1 = "mtd_upd i (\<lambda>m. m\<lparr>mtd_priv := True\<rparr>) (mtd_upd i (\<lambda>m. m\<lparr>mtd_size := mtd_size m * ucast (writesize m)\<rparr>)
     (mtd_upd i (\<lambda>m. m\<lparr>mtd_size := q\<rparr>) (mtd_upd i (\<lambda>m. m\<lparr>erasesize := d_erase d div ?pitch * writesize m\<rparr>) s0)))"
  have "geometry d (nand_info ?s1 ! i)"
    using f i0 sz es pitch by (simp add: geometry_def)
  moreover have "probed i s ?s1" using p(2) by simp
  ultimately show ?thesis
    using init_device_split [OF mtd i p(1) _ _ refl, of "d_erase d div ?pitch" r q] f q(1) nz
    by (intro exI [of _ ?s1]) (simp add: u32_div_def)
qed

text \<open>The structure of a device that was initialised completely.\<close>

definition installed :: "u32 \<Rightarrow> u32 \<Rightarrow> mtd_info \<Rightarrow> bool" where
  "installed flags name m \<longleftrightarrow> mtd_type m = MTD_NANDFLASH \<and> mtd_name m = name \<and>
     mtd_flags m = (if flags AND NAND_DEV_FLAG_READ_ONLY \<noteq> 0 then 0 else MTD_WRITEABLE) \<and>
     mtd_erase m = Some M_erase \<and> mtd_read m = Some M_read \<and> mtd_write m = Some M_write \<and>
     mtd_read_oob m = Some M_read_oob \<and> mtd_write_oob m = Some M_write_oob \<and>
     mtd_block_isbad m = Some M_block_isbad \<and> mtd_block_markbad m = Some M_block_markbad"

lemma probed_mem [simp]: "probed i s (s'\<lparr>mem := x\<rparr>) = probed i s s'"
  by (simp add: probed_def)

lemma geometry_kept [simp]:
  "geometry d (m\<lparr>mtd_name := n\<rparr>) = geometry d m" "geometry d (m\<lparr>mtd_flags := fl\<rparr>) = geometry d m"
  "geometry d (m\<lparr>mtd_type := ty\<rparr>) = geometry d m"
  "geometry d (m\<lparr>mtd_owner := ow, mtd_erase := m1, mtd_read := m2, mtd_write := m3, mtd_read_oob := m4,
     mtd_write_oob := m5, mtd_block_isbad := m6, mtd_block_markbad := m7\<rparr>) = geometry d m"
  by (simp_all add: geometry_def)

lemma init_name_outcome:
  assumes mtd: "nand_mtd (goldfish_nand_info s) = Some 0" and i: "i < length (nand_info s)"
    and g: "geometry d (nand_info s ! i)"
    and name: "name = goldfish_dev_name s + of_nat i * 64"
  shows "\<exists>result s'. init_name env i flags name_len s = Inr (if result = name_len then 0 else - ENODEV, s') \<and>
     probed i s s' \<and> geometry d (nand_info s' ! i) \<and>
     (if result = name_len then installed flags name (nand_info s' ! i) \<and> mem s' (name + name_len) = 0
      else mtd_name (nand_info s' ! i) = 0)"
proof -
  let ?s = "mtd_upd i (\<lambda>m. m\<lparr>mtd_name := name\<rparr>) s"
  have "mtd_priv (nand_info s ! i)" using g by (simp add: geometry_def)
  then obtain result s1 where c: "goldfish_nand_cmd env i NAND_CMD_GET_DEV_NAME 0 name_len name ?s = Inr (result, s1)"
    "nand_does (nand_access (nand_base (goldfish_nand_info s)) i NAND_CMD_GET_DEV_NAME 0 name_len name result) ?s s1"
    using goldfish_nand_cmd_access [of i ?s env NAND_CMD_GET_DEV_NAME 0 name_len name] mtd i by auto
  have s1: "probed i s s1" "i < length (nand_info s1)" "nand_info s1 ! i = (nand_info s ! i)\<lparr>mtd_name := name\<rparr>"
    using c(2) i probed_does [OF c(2), of i s] by (simp_all add: nand_does_def)
  show ?thesis
  proof (cases "result = name_len")
    case True
    then show ?thesis using c(1) s1 g
      by (intro exI [of _ result] exI, intro conjI)
        (simp add: init_name_def name Let_def,
         simp_all add: installed_def split del: if_split, simp_all add: name)
  next
    case False
    then show ?thesis using c(1) s1 g
      by (intro exI [of _ result] exI, intro conjI) (simp add: init_name_def name Let_def, simp_all)
  qed
qed

text \<open>One step of the initialisation.\<close>

lemma init_device_outcome:
  assumes mtd: "nand_mtd (goldfish_nand_info s) = Some 0" and i: "i < length (nand_info s)"
    and d: "d = desc_of env (nand_base (goldfish_nand_info s)) i (trace s)" and ok: "desc_ok d"
    and name: "name = goldfish_dev_name s + of_nat i * 64"
  shows "\<exists>r s'. goldfish_nand_init_device env i s = Inr (r, s') \<and>
     probed i s s' \<and> geometry d (nand_info s' ! i) \<and>
     (r = - ENOMEM \<longleftrightarrow> 64 < unat (d_name_len d)) \<and> r \<in> {0, - ENOMEM, - ENODEV} \<and>
     (r = 0 \<longrightarrow> installed (d_flags d) name (nand_info s' ! i) \<and> mem s' (name + d_name_len d) = 0) \<and>
     (r = - ENODEV \<longrightarrow> mtd_name (nand_info s' ! i) = 0)"
proof -
  obtain s1 where s1: "goldfish_nand_init_device env i s =
       (if 64 < d_name_len d
        then Inr (- ENOMEM, printf ''goldfish_nand_init_device: name_len=%d, larger than maximum length.''
               [uint (d_name_len d)] s1)
        else init_name env i (d_flags d) (d_name_len d) s1)"
     "geometry d (nand_info s1 ! i)" "probed i s s1"
    using init_device_probe [OF mtd i d ok] by blast
  have 64: "64 < d_name_len d \<longleftrightarrow> 64 < unat (d_name_len d)" by (simp add: word_less_nat_alt)
  show ?thesis
  proof (cases "64 < d_name_len d")
    case True
    then show ?thesis using s1 64 by simp
  next
    case False
    have "nand_mtd (goldfish_nand_info s1) = Some 0" "i < length (nand_info s1)"
        "name = goldfish_dev_name s1 + of_nat i * 64"
      using s1(3) mtd i name by (simp_all add: probed_def)
    from init_name_outcome [OF this(1,2) s1(2) this(3)] obtain result s' where
      "init_name env i (d_flags d) (d_name_len d) s1 = Inr (if result = d_name_len d then 0 else - ENODEV, s')"
      "probed i s1 s'" "geometry d (nand_info s' ! i)"
      "if result = d_name_len d then installed (d_flags d) name (nand_info s' ! i) \<and> mem s' (name + d_name_len d) = 0
       else mtd_name (nand_info s' ! i) = 0" by blast
    then show ?thesis using s1(1,3) False 64
      by (cases "result = d_name_len d") (simp_all add: probed_def)
  qed
qed

lemma init_loop_outcome:
  assumes dev: "\<And>k h. desc_ok (desc_of env base k h)"
  shows "nand_mtd (goldfish_nand_info s) = Some 0 \<Longrightarrow> nand_base (goldfish_nand_info s) = base \<Longrightarrow>
    i + n \<le> length (nand_info s) \<Longrightarrow>
    \<exists>w' s'. board_nand_init_loop env i n w s = Inr (w', s') \<and> w \<le> w' \<and> w' \<le> w + n \<and>
      (\<forall>k. i \<le> k \<and> k < i + n \<longrightarrow> mtd_wf (nand_info s' ! k)) \<and>
      (\<forall>k. k < i \<or> i + n \<le> k \<longrightarrow> nand_info s' ! k = nand_info s ! k) \<and>
      length (nand_info s') = length (nand_info s) \<and> goldfish_nand_info s' = goldfish_nand_info s"
proof (induction n arbitrary: i w s)
  case 0
  then show ?case by auto
next
  case (Suc n)
  obtain r s1 where s1: "goldfish_nand_init_device env i s = Inr (r, s1)" "probed i s s1"
      "geometry (desc_of env base i (trace s)) (nand_info s1 ! i)"
    using init_device_outcome [OF Suc.prems(1), of i _ env] Suc.prems(2,3) dev by fastforce
  have wf: "mtd_wf (nand_info s1 ! i)" using geometry_wf(1) [OF dev s1(3)] .
  have next_ok: "\<exists>w'' s'. board_nand_init_loop env (i + 1) n w' s2 = Inr (w'', s') \<and> w' \<le> w'' \<and> w'' \<le> w' + n \<and>
      (\<forall>k. i \<le> k \<and> k < i + Suc n \<longrightarrow> mtd_wf (nand_info s' ! k)) \<and>
      (\<forall>k. k < i \<or> i + Suc n \<le> k \<longrightarrow> nand_info s' ! k = nand_info s ! k) \<and>
      length (nand_info s') = length (nand_info s) \<and> goldfish_nand_info s' = goldfish_nand_info s"
    if "nand_info s2 = nand_info s1" "goldfish_nand_info s2 = goldfish_nand_info s1" for w' and s2 :: "'a nand_st_scheme"
  proof -
    have len: "length (nand_info s2) = length (nand_info s)" "goldfish_nand_info s2 = goldfish_nand_info s"
      using s1(2) that by (simp_all add: probed_def)
    then obtain w'' s' where s': "board_nand_init_loop env (i + 1) n w' s2 = Inr (w'', s')" "w' \<le> w''" "w'' \<le> w' + n"
      "\<forall>k. i + 1 \<le> k \<and> k < i + 1 + n \<longrightarrow> mtd_wf (nand_info s' ! k)"
      "\<forall>k. k < i + 1 \<or> i + 1 + n \<le> k \<longrightarrow> nand_info s' ! k = nand_info s2 ! k"
      "length (nand_info s') = length (nand_info s2)" "goldfish_nand_info s' = goldfish_nand_info s2"
      using Suc.IH [of s2 "i + 1" w'] Suc.prems by fastforce
    have "mtd_wf (nand_info s' ! k)" if "i \<le> k" "k < i + Suc n" for k
      using s'(4,5) wf that \<open>nand_info s2 = nand_info s1\<close> by (cases "k = i") auto
    moreover have "nand_info s' ! k = nand_info s ! k" if "k < i \<or> i + Suc n \<le> k" for k
      using s'(5) s1(2) that \<open>nand_info s2 = nand_info s1\<close> by (auto simp: probed_def)
    ultimately show ?thesis using s'(1-3,6,7) len
      by (intro exI [of _ w''] exI [of _ s'] conjI allI impI) simp_all
  qed
  have "i < length (nand_info s1)" using Suc.prems(3) s1(2) by (simp add: probed_def)
  then have ref: "mtd_ref s1 i = Inr (nand_info s1 ! i)" by (simp add: mtd_ref_def)
  obtain s2 w' where s2: "board_nand_init_loop env i (Suc n) w s = board_nand_init_loop env (i + 1) n w' s2"
      "nand_info s2 = nand_info s1" "goldfish_nand_info s2 = goldfish_nand_info s1" "w \<le> w'" "w' \<le> w + 1"
  proof (cases "r = 0")
    case True
    show thesis by (rule that [of "w + 1" "printf _ _ s1"]) (use True s1(1) ref in simp_all)
  next
    case False
    show thesis by (rule that [of w s1]) (use False s1(1) in simp_all)
  qed
  from next_ok [OF s2(2,3)] obtain w'' s' where
    "board_nand_init_loop env (i + 1) n w' s2 = Inr (w'', s')" "w' \<le> w''" "w'' \<le> w' + n" and
    rest: "(\<forall>k. i \<le> k \<and> k < i + Suc n \<longrightarrow> mtd_wf (nand_info s' ! k)) \<and>
      (\<forall>k. k < i \<or> i + Suc n \<le> k \<longrightarrow> nand_info s' ! k = nand_info s ! k) \<and>
      length (nand_info s') = length (nand_info s) \<and> goldfish_nand_info s' = goldfish_nand_info s"
    by blast
  then have "board_nand_init_loop env i (Suc n) w s = Inr (w'', s') \<and> w \<le> w'' \<and> w'' \<le> w + Suc n"
    using s2(1,4,5) by simp
  with rest show ?case by blast
qed

text \<open>The outcome of \<open>board_nand_init\<close>.\<close>

lemma board_init_ready:
  assumes dev: "\<And>k h. desc_ok (desc_of env (IO_ADDRESS GOLDFISH_NAND_BASE) k h)"
    and version: "\<And>h. env_read env h (IO_ADDRESS GOLDFISH_NAND_BASE + NAND_VERSION) = NAND_VERSION_CURRENT"
    and num: "\<And>h. env_read env h (IO_ADDRESS GOLDFISH_NAND_BASE + NAND_NUM_DEV) = num_dev" "0 < unat num_dev" "unat num_dev \<le> 3"
    and len: "length (nand_info s) = CONFIG_SYS_MAX_NAND_DEVICE"
  shows "\<exists>s'. board_nand_init env s = Inr s' \<and>
     goldfish_nand_info s' = \<lparr>nand_base = IO_ADDRESS GOLDFISH_NAND_BASE, mtd_count = num_dev, nand_mtd = Some 0\<rparr> \<and>
     (\<forall>k < unat num_dev. nand_ready s' k) \<and>
     (\<forall>k \<ge> unat num_dev. nand_info s' ! k = nand_info s ! k)"
proof -
  let ?base = "IO_ADDRESS GOLDFISH_NAND_BASE"
  define s1 where "s1 = (snd (readl env (?base + NAND_NUM_DEV) (snd (readl env (?base + NAND_VERSION)
     (printf ''base=%x\<newline>'' [uint ?base] s)))))
     \<lparr>goldfish_nand_info := \<lparr>nand_base = ?base, mtd_count = num_dev, nand_mtd = Some 0\<rparr>\<rparr>"
  have s1: "nand_mtd (goldfish_nand_info s1) = Some 0" "nand_base (goldfish_nand_info s1) = ?base"
     "0 + unat num_dev \<le> length (nand_info s1)" "nand_info s1 = nand_info s"
    using len num(3) by (simp_all add: s1_def)
  obtain w' s' where l: "board_nand_init_loop env 0 (unat num_dev) 0 s1 = Inr (w', s')"
    "\<forall>k. 0 \<le> k \<and> k < 0 + unat num_dev \<longrightarrow> mtd_wf (nand_info s' ! k)"
    "\<forall>k. k < 0 \<or> 0 + unat num_dev \<le> k \<longrightarrow> nand_info s' ! k = nand_info s1 ! k"
    "length (nand_info s') = length (nand_info s1)" "goldfish_nand_info s' = goldfish_nand_info s1"
    using init_loop_outcome [OF dev s1(1,2,3), of 0] by blast
  have n: "num_dev \<noteq> 0" "\<not> 3 < num_dev" using num(2,3) by (auto simp: word_less_nat_alt)
  have "board_nand_init env s = rbind (board_nand_init_loop env 0 (unat num_dev) 0 s1) (\<lambda>(num_dev_working, s). Inr s)"
    using version num(1) n unfolding s1_def
    by (simp add: board_nand_init_def Let_def split_beta)
  then have "board_nand_init env s = Inr s'" using l(1) by simp
  then show ?thesis using l(2-) s1 num(3) len by (auto simp: nand_ready_def s1_def)
qed

section \<open>Properties\<close>

text \<open>A controller for the examples: it answers the registers of every device alike.\<close>

definition demo_regs :: "u32 \<Rightarrow> u32 \<Rightarrow> env" where
  "demo_regs num_dev name_len = \<lparr>env_read = (\<lambda>h a.
       if a = 0xff017000 then 1 else if a = 0xff017004 then num_dev
       else if a = 0xff017014 then name_len
       else if a = 0xff017018 then 512 else if a = 0xff01701c then 16
       else if a = 0xff017020 then 16896 else if a = 0xff017028 then 1081344
       else if a = 0xff017040 then name_len else 0),
     env_dma = (\<lambda>h s. s), env_getchar = (\<lambda>h. - 1)\<rparr>"

lemma demo_regs_desc: "desc_of (demo_regs n l) 0xff017000 k h =
    \<lparr>d_flags = 0, d_name_len = l, d_page = 512, d_size = 1081344, d_extra = 16, d_erase = 16896\<rparr>"
  by (simp add: desc_of_def demo_regs_def Let_def)

lemma demo_regs_ok: "desc_ok (desc_of (demo_regs n l) 0xff017000 k h)"
  by (simp add: demo_regs_desc desc_ok_def)

definition nand_boot :: nand_st where
  "nand_boot = demo_nand\<lparr>goldfish_nand_info := \<lparr>nand_base = 0, mtd_count = 0, nand_mtd = None\<rparr>,
     nand_info := replicate 3 (demo_mtd\<lparr>mtd_priv := False\<rparr>)\<rparr>"

text \<open>C8: \<open>goldfish_nand_init_device\<close> on a device whose registers describe a usable flash. It ends
  without a fault, changes no other device, and computes the geometry in whole pages: \<open>erasesize\<close> and
  \<open>size\<close> are the raw sizes with the spare bytes taken out, without wrap-around. It returns \<open>-ENOMEM\<close>
  exactly for a name of more than 64 bytes; it returns 0 only with the name buffer, the flags and all
  seven methods in place and the name terminated; after \<open>-ENODEV\<close> the name is null.\<close>

theorem nand_init_device:
  assumes mtd: "nand_mtd (goldfish_nand_info s) = Some 0" and i: "i < length (nand_info s)"
    and d: "d = desc_of env (nand_base (goldfish_nand_info s)) i (trace s)" and ok: "desc_ok d"
    and name: "name = goldfish_dev_name s + of_nat i * 64"
  shows "\<exists>r s'. goldfish_nand_init_device env i s = Inr (r, s') \<and>
     probed i s s' \<and> geometry d (nand_info s' ! i) \<and> mtd_wf (nand_info s' ! i) \<and>
     (r = - ENOMEM \<longleftrightarrow> 64 < unat (d_name_len d)) \<and> r \<in> {0, - ENOMEM, - ENODEV} \<and>
     (r = 0 \<longrightarrow> installed (d_flags d) name (nand_info s' ! i) \<and> mem s' (name + d_name_len d) = 0) \<and>
     (r = - ENODEV \<longrightarrow> mtd_name (nand_info s' ! i) = 0)"
  using init_device_outcome [OF assms] geometry_wf(1) [OF ok] by blast

theorem nand_init_device_witness:
  "\<exists>r s'. goldfish_nand_init_device (demo_regs 1 6) 0 demo_nand = Inr (r, s') \<and>
     unat (erasesize (nand_info s' ! 0)) = 16384 \<and> unat (mtd_size (nand_info s' ! 0)) = 1048576"
  using nand_init_device [of demo_nand 0 _ "demo_regs 1 6", OF _ _ refl _ refl]
  by (auto simp: demo_regs_desc desc_ok_def geometry_def)

text \<open>C9: \<open>board_nand_init\<close> makes the driver ready. When the controller has the right version and
  between one and three devices, and every device describes a usable flash, the call ends without a
  fault; afterwards the driver points to the controller, and every one of the devices satisfies the
  invariant on which the operations rely, also those whose name could not be read.\<close>

theorem board_nand_init_ready:
  assumes dev: "\<And>k h. desc_ok (desc_of env (IO_ADDRESS GOLDFISH_NAND_BASE) k h)"
    and version: "\<And>h. env_read env h (IO_ADDRESS GOLDFISH_NAND_BASE + NAND_VERSION) = NAND_VERSION_CURRENT"
    and num: "\<And>h. env_read env h (IO_ADDRESS GOLDFISH_NAND_BASE + NAND_NUM_DEV) = num_dev" "0 < unat num_dev" "unat num_dev \<le> 3"
    and len: "length (nand_info s) = CONFIG_SYS_MAX_NAND_DEVICE"
  shows "\<exists>s'. board_nand_init env s = Inr s' \<and>
     goldfish_nand_info s' = \<lparr>nand_base = IO_ADDRESS GOLDFISH_NAND_BASE, mtd_count = num_dev, nand_mtd = Some 0\<rparr> \<and>
     (\<forall>k < unat num_dev. nand_ready s' k) \<and>
     (\<forall>k \<ge> unat num_dev. nand_info s' ! k = nand_info s ! k)"
  by (rule board_init_ready [OF assms])

theorem board_nand_init_ready_witness:
  "\<exists>s'. board_nand_init (demo_regs 2 64) nand_boot = Inr s' \<and> nand_ready s' 0 \<and> nand_ready s' 1"
  using board_nand_init_ready [where env = "demo_regs 2 64" and s = nand_boot and num_dev = 2] demo_regs_ok
  by (auto simp: nand_boot_def demo_regs_def)

text \<open>C10: \<open>board_nand_init\<close> gives up without a write to any register, and leaves its structures as
  they were, when the version register differs from 1 or the number of devices is 0 or above 3.\<close>

theorem board_nand_init_refuses:
  assumes bad: "env_read env (trace s @ [Printf ''base=%x\<newline>'' [uint (IO_ADDRESS GOLDFISH_NAND_BASE)]])
        (IO_ADDRESS GOLDFISH_NAND_BASE + NAND_VERSION) \<noteq> NAND_VERSION_CURRENT \<or>
     (\<forall>h. unat (env_read env h (IO_ADDRESS GOLDFISH_NAND_BASE + NAND_NUM_DEV)) = 0 \<or>
          3 < unat (env_read env h (IO_ADDRESS GOLDFISH_NAND_BASE + NAND_NUM_DEV)))"
  shows "\<exists>s' t. board_nand_init env s = Inr s' \<and> nand_does t s s' \<and> mem s' = mem s \<and>
     (\<forall>a v. Wr a v \<notin> set t)"
proof -
  have three: "(3 :: u32) < x \<longleftrightarrow> 3 < unat x" for x by (simp add: word_less_nat_alt)
  show ?thesis using bad
    by (auto simp: board_nand_init_def Let_def split_beta nand_does_def three word_eq_0_unat)
qed

theorem board_nand_init_refuses_witness:
  "\<exists>s' t. board_nand_init (demo_regs 4 6) nand_boot = Inr s' \<and> nand_does t nand_boot s' \<and> mem s' = mem nand_boot \<and>
     (\<forall>a v. Wr a v \<notin> set t)"
  by (rule board_nand_init_refuses) (simp add: demo_regs_def)

text \<open>A name of exactly 64 bytes passes the length test, and its terminator is written behind the
  64-byte row of the device: the byte at the start of the next row, and for the last device the byte
  after the array.\<close>

lemma nand_name_terminator:
  assumes mtd: "nand_mtd (goldfish_nand_info s) = Some 0" and i: "i < length (nand_info s)"
    and d: "d = desc_of env (nand_base (goldfish_nand_info s)) i (trace s)" and ok: "desc_ok d"
    and 64: "d_name_len d = 64"
    and r: "goldfish_nand_init_device env i s = Inr (0, s')"
  shows "mtd_name (nand_info s' ! i) = goldfish_dev_name s + of_nat i * 64 \<and>
     mem s' (goldfish_dev_name s + of_nat (i + 1) * 64) = 0"
  using init_device_outcome [OF mtd i d ok refl] r 64 by (auto simp: installed_def algebra_simps)

lemma demo_init: "\<exists>s'. goldfish_nand_init_device (demo_regs 1 64) 0 demo_nand = Inr (0, s')"
proof -
  let ?d = "desc_of (demo_regs 1 64) (nand_base (goldfish_nand_info demo_nand)) 0 (trace demo_nand)"
  obtain s1 where s1: "goldfish_nand_init_device (demo_regs 1 64) 0 demo_nand = init_name (demo_regs 1 64) 0 0 64 s1"
     "geometry ?d (nand_info s1 ! 0)" "probed 0 demo_nand s1"
    using init_device_probe [of demo_nand 0 ?d "demo_regs 1 64"] by (auto simp: demo_regs_desc desc_ok_def)
  then have "0 < length (nand_info s1)" "mtd_priv (nand_info s1 ! 0)"
     "nand_mtd (goldfish_nand_info s1) = Some 0" "nand_base (goldfish_nand_info s1) = 0xff017000"
    by (simp_all add: geometry_def probed_def)
  then show ?thesis unfolding s1(1)
    by (simp add: init_name_def goldfish_nand_cmd_def mtd_ref_def demo_regs_def Let_def split_beta
        del: length_greater_0_conv)
qed

lemma nand_name_terminator_example:
  "\<exists>s'. goldfish_nand_init_device (demo_regs 1 64) 0 demo_nand = Inr (0, s') \<and> mem s' 0x8040 = 0"
proof -
  obtain s' where s': "goldfish_nand_init_device (demo_regs 1 64) 0 demo_nand = Inr (0, s')" using demo_init by blast
  then show ?thesis using nand_name_terminator [OF _ _ refl _ _ s'] by (simp add: demo_regs_desc desc_ok_def)
qed

end
