(* ===== verification/C08.thy ===== *)
theory C08
  imports Nand_Init Bsp
begin

text \<open>
  The program of chapter 8, \<^verbatim>\<open>c08/c08e1/c08e1.c\<close>: its interrupt handler and its \<open>main\<close>, which initialises the
  NAND driver, prints the geometry of every device and then spins. (Its \<open>__div64_32\<close> is in theory
  Div64, its driver in the theories Nand and Nand_Init.)
\<close>

section \<open>The code\<close>

record c08_st = nand_st +
  c08_cpsr :: u32

definition c08e1_sw_handler :: "int \<Rightarrow> 'a machine_scheme \<Rightarrow> 'a machine_scheme" where
  "c08e1_sw_handler num s = printf ''=>Inside sw_handler, num=%d.\<newline>'' [num] s"

definition c08e1_irq_handler :: "env \<Rightarrow> u32 \<Rightarrow> 'a timer_st_scheme \<Rightarrow> 'a timer_st_scheme" where
  "c08e1_irq_handler env irq s =
     (let (num, s) = goldfish_irq_status env s;
          s = printf ''=>Enter ARM_irq(%d), pending num=%d\<newline>'' [sint irq, sint num] s;
          s = (if irq = IRQ_TTY0 then printf ''=>IRQ_TTY0.\<newline>'' [] s
               else if irq = IRQ_TTY1 then printf ''=>IRQ_TTY1.\<newline>'' [] s
               else if irq = IRQ_TTY2 then printf ''=>IRQ_TTY2.\<newline>'' [] s
               else if irq = IRQ_TIMER
               then printf ''=>IRQ_TIMER - clear interrupt.\<newline>'' [] (goldfish_clear_timer_int env s)
               else printf ''=>Unknown IRQ %x.\<newline>'' [sint irq] s);
          (tm, s) = get_ticks env s
      in printf ''=>Exit ARM_irq(%d). tm=%lu\<newline>'' [sint irq, uint (ucast tm :: u32)] s)"

text \<open>The quotient of an \<open>uint64_t\<close> and an \<open>u_int32_t\<close>.\<close>

definition u64_div :: "u64 \<Rightarrow> u32 \<Rightarrow> u64 result" where
  "u64_div a b = (if b = 0 then Inl Div_by_zero else Inr (a div ucast b))"

text \<open>How the arguments behind the format travel, by the procedure call standard: they fill the registers \<open>r1\<close> to \<open>r3\<close> and then words of the stack. An
  \<open>unsigned\<close>, an \<open>int\<close> or a pointer takes the next word; an \<open>uint64_t\<close> takes two words, the low one first, from the next register with an even number or double word of the
  stack on, and a word skipped for that holds whatever it held before.\<close>

datatype carg = C_word u32 | C_long_long u64

fun va_words :: "u32 \<Rightarrow> nat \<Rightarrow> carg list \<Rightarrow> u32 list" where
  "va_words junk k [] = []"
| "va_words junk k (C_word w # as) = w # va_words junk (k + 1) as"
| "va_words junk k (C_long_long w # as) =
     (if even k then ucast w # ucast (drop_bit 32 w) # va_words junk (k + 2) as
      else junk # ucast w # ucast (drop_bit 32 w) # va_words junk (k + 3) as)"

text \<open>The conversions of a format; those of this program, \<open>%d\<close>, \<open>%x\<close> and \<open>%s\<close>, read one word each. For \<open>%s\<close> it is the address of a string.\<close>

fun conversions :: "string \<Rightarrow> string" where
  "conversions (c # d # cs) = (if c = CHR ''%'' then d # conversions cs else conversions (d # cs))"
| "conversions cs = []"

text \<open>The event of a call is the format with the words that its conversions read. What a skipped word holds is a parameter, as a function of what has happened so far.\<close>

definition printf_words :: "(io list \<Rightarrow> u32) \<Rightarrow> string \<Rightarrow> carg list \<Rightarrow> 'a machine_scheme \<Rightarrow> 'a machine_scheme" where
  "printf_words junk fmt args s = printf fmt (map uint (take (length (conversions fmt)) (va_words (junk (trace s)) 1 args))) s"

text \<open>The report on one device.\<close>

definition c08e1_report :: "(io list \<Rightarrow> u32) \<Rightarrow> nat \<Rightarrow> 'a nand_st_scheme \<Rightarrow> ('a nand_st_scheme) result" where
  "c08e1_report junk i s =
     rbind (mtd_ref s i) (\<lambda>mtd.
     let s = printf_words junk ''Device %d %s\<newline>'' [C_word (of_nat i), C_word (mtd_name mtd)] s;
         s = printf_words junk ''Flags............. 0x%x %s\<newline>'' [C_word (of_nat i), C_word (mtd_flags mtd)] s;
         s = printf_words junk ''Size.............. %d\<newline>'' [C_long_long (mtd_size mtd)] s
     in rbind (u32_div (erasesize mtd) (writesize mtd)) (\<lambda>q.
     let s = printf_words junk ''Block/Page........ %d\<newline>'' [C_word q] s;
         s = printf_words junk ''Block Size........ %d\<newline>'' [C_word (erasesize mtd)] s
     in rbind (u64_div (mtd_size mtd) (erasesize mtd)) (\<lambda>q.
     let s = printf_words junk ''No. of Blocks..... %d\<newline>'' [C_long_long q] s;
         s = printf_words junk ''Page Size......... %d\<newline>'' [C_word (writesize mtd)] s
     in rbind (u64_div (mtd_size mtd) (writesize mtd)) (\<lambda>q.
     let s = printf_words junk ''No. of Pages...... %d\<newline>'' [C_long_long q] s
     in Inr (printf_words junk ''Extra Data Size... %d\<newline>\<newline>'' [C_word (oobsize mtd)] s)))))"

fun c08e1_report_loop :: "(io list \<Rightarrow> u32) \<Rightarrow> nat \<Rightarrow> nat \<Rightarrow> 'a nand_st_scheme \<Rightarrow> ('a nand_st_scheme) result" where
  "c08e1_report_loop junk i 0 s = Inr s"
| "c08e1_report_loop junk i (Suc n) s = rbind (c08e1_report junk i s) (c08e1_report_loop junk (i + 1) n)"

text \<open>\<open>main\<close>, up to the endless loop; \<open>num_dev\<close> is an \<open>int\<close>.\<close>

definition c08e1_main :: "env \<Rightarrow> (io list \<Rightarrow> u32) \<Rightarrow> 'a c08_st_scheme \<Rightarrow> ('a c08_st_scheme) result" where
  "c08e1_main env junk s =
     (let s = printf ''Enter main(), test goldfish NAND flash ...\<newline>'' [] s;
          s = s\<lparr>c08_cpsr := (c08_cpsr s AND NOT 0x1F) OR 0x10\<rparr>
      in rbind (board_nand_init env s) (\<lambda>s.
         let num_dev = sint (mtd_count (goldfish_nand_info s))
         in if 0 < num_dev then c08e1_report_loop junk 0 (nat num_dev) s else Inr s))"

section \<open>Lemmas\<close>

text \<open>What the conversions of the report read for a device, appended to the trace \<open>h\<close>: in the six lines about words, the device's data; in the three about
  64-bit numbers, what the skipped register \<open>r1\<close> happens to hold at the call, and nothing of the device.\<close>

definition device_report :: "(io list \<Rightarrow> u32) \<Rightarrow> nat \<Rightarrow> mtd_info \<Rightarrow> io list \<Rightarrow> io list" where
  "device_report junk i m h =
     (let h = h @ [Printf ''Device %d %s\<newline>'' [int i, uint (mtd_name m)]];
          h = h @ [Printf ''Flags............. 0x%x %s\<newline>'' [int i, uint (mtd_flags m)]];
          h = h @ [Printf ''Size.............. %d\<newline>'' [uint (junk h)]];
          h = h @ [Printf ''Block/Page........ %d\<newline>'' [int (unat (erasesize m) div unat (writesize m))]];
          h = h @ [Printf ''Block Size........ %d\<newline>'' [int (unat (erasesize m))]];
          h = h @ [Printf ''No. of Blocks..... %d\<newline>'' [uint (junk h)]];
          h = h @ [Printf ''Page Size......... %d\<newline>'' [int (unat (writesize m))]];
          h = h @ [Printf ''No. of Pages...... %d\<newline>'' [uint (junk h)]]
      in h @ [Printf ''Extra Data Size... %d\<newline>\<newline>'' [int (unat (oobsize m))]])"

definition same_nand :: "'a nand_st_scheme \<Rightarrow> 'a nand_st_scheme \<Rightarrow> bool" where
  "same_nand s s' \<longleftrightarrow> nand_info s' = nand_info s \<and> goldfish_nand_info s' = goldfish_nand_info s \<and> goldfish_dev_name s' = goldfish_dev_name s"

lemma printf_words_nand [simp]:
  "same_nand s (printf_words junk f xs t) = same_nand s t" "nand_info (printf_words junk f xs t) = nand_info t"
  by (simp_all add: printf_words_def printf_def same_nand_def)

lemma report_ready:
  assumes ready: "nand_ready s i" and i: "i < 4294967296"
  shows "\<exists>s'. c08e1_report junk i s = Inr s' \<and> same_nand s s' \<and> trace s' = device_report junk i (nand_info s ! i) (trace s)"
proof -
  let ?m = "nand_info s ! i"
  have nz: "writesize ?m \<noteq> 0" "erasesize ?m \<noteq> 0"
    using ready_writesize [OF ready] ready_erasesize [OF ready] by simp_all
  have d: "uint (a div b) = int (unat a div unat b)" for a b :: u32
    by (metis of_nat_unat uint_nat unat_div)
  have w: "uint (of_nat i :: u32) = int i" using i by (simp add: uint_nat unat_of_nat take_bit_eq_mod)
  show ?thesis using nz mtd_ref_ready [OF ready]
    by (simp add: c08e1_report_def u32_div_def u64_div_def device_report_def Let_def d w same_nand_def)
      (simp add: printf_words_def printf_def d w)
qed

lemma same_nand_ready: "same_nand s s' \<Longrightarrow> nand_ready s' i = nand_ready s i"
  by (simp add: same_nand_def nand_ready_def)

lemma report_loop_ready:
  "\<forall>k. i \<le> k \<and> k < i + n \<longrightarrow> nand_ready s k \<Longrightarrow> i + n < 4294967296 \<Longrightarrow>
   \<exists>s'. c08e1_report_loop junk i n s = Inr s' \<and> same_nand s s' \<and>
     trace s' = fold (\<lambda>k. device_report junk k (nand_info s ! k)) [i ..< i + n] (trace s)"
proof (induction n arbitrary: i s)
  case 0
  then show ?case by (simp add: same_nand_def)
next
  case (Suc n)
  have "nand_ready s i" "i < 4294967296" using Suc.prems by simp_all
  from report_ready [OF this] obtain s1 where
    s1: "c08e1_report junk i s = Inr s1" "same_nand s s1" "trace s1 = device_report junk i (nand_info s ! i) (trace s)" by blast
  have "\<forall>k. i + 1 \<le> k \<and> k < i + 1 + n \<longrightarrow> nand_ready s1 k" "i + 1 + n < 4294967296"
    using Suc.prems same_nand_ready [OF s1(2)] by simp_all
  from Suc.IH [OF this] obtain s' where
    s': "c08e1_report_loop junk (i + 1) n s1 = Inr s'" "same_nand s1 s'"
      "trace s' = fold (\<lambda>k. device_report junk k (nand_info s1 ! k)) [i + 1 ..< i + 1 + n] (trace s1)" by blast
  have "nand_info s1 = nand_info s" using s1(2) by (simp add: same_nand_def)
  moreover have "[i ..< i + Suc n] = i # [i + 1 ..< i + 1 + n]" by (simp add: upt_conv_Cons del: upt_Suc)
  ultimately show ?case using s1 s' by (intro exI [of _ s']) (simp add: same_nand_def del: upt_Suc)
qed

section \<open>Property\<close>

definition c08_boot :: c08_st where
  "c08_boot = nand_st.extend nand_boot \<lparr>c08_cpsr = 0xD3\<rparr>"

lemma c08_boot_simps [simp]: "length (nand_info c08_boot) = 3"
  by (simp add: c08_boot_def nand_st.extend_def nand_boot_def)

text \<open>C11: what the program c08e1 reports about the flash it finds. When the controller has the right version and
  between one and three devices that describe usable flashes, \<open>main\<close> reaches its final loop; its own computations do not fault, in particular
  no division is by zero, and every entry of the table is well-formed. The last calls of \<open>printf\<close> are, for each device in order, the nine lines of \<open>device_report\<close>. Six of
  them print data of the device, with the number of pages per block as an exact quotient. The second prints the index where it says flags, and
  reads a string at the address that the flags word happens to be. The size, the number of blocks and the number of pages are passed as 64-bit numbers to the
  conversion \<open>%d\<close>, which reads a register the call has not set: these three lines print whatever it held.\<close>

theorem c08e1_main_reports:
  assumes dev: "\<And>k h. desc_ok (desc_of env (IO_ADDRESS GOLDFISH_NAND_BASE) k h)"
    and version: "\<And>h. env_read env h (IO_ADDRESS GOLDFISH_NAND_BASE + NAND_VERSION) = NAND_VERSION_CURRENT"
    and num: "\<And>h. env_read env h (IO_ADDRESS GOLDFISH_NAND_BASE + NAND_NUM_DEV) = num_dev" "0 < unat num_dev" "unat num_dev \<le> 3"
    and len: "length (nand_info s) = CONFIG_SYS_MAX_NAND_DEVICE"
  shows "\<exists>s' t. c08e1_main env junk s = Inr s' \<and> (\<forall>k < unat num_dev. mtd_wf (nand_info s' ! k)) \<and>
     trace s' = fold (\<lambda>k. device_report junk k (nand_info s' ! k)) [0 ..< unat num_dev] t"
proof -
  let ?s = "(printf ''Enter main(), test goldfish NAND flash ...\<newline>'' [] s)
    \<lparr>c08_cpsr := (c08_cpsr (printf ''Enter main(), test goldfish NAND flash ...\<newline>'' [] s) AND NOT 0x1F) OR 0x10\<rparr>"
  have "length (nand_info ?s) = CONFIG_SYS_MAX_NAND_DEVICE" using len by simp
  from board_init_ready [OF dev version num this] obtain s1 where
    s1: "board_nand_init env ?s = Inr s1" "mtd_count (goldfish_nand_info s1) = num_dev" "\<forall>k < unat num_dev. nand_ready s1 k"
    by (metis goldfish_nand.select_convs(2))
  have n: "sint num_dev = int (unat num_dev)"
    using num(3) sint_u32 [of num_dev] by (simp add: uint_less_numeral)
  obtain s' where s': "c08e1_report_loop junk 0 (unat num_dev) s1 = Inr s'" "same_nand s1 s'"
    "trace s' = fold (\<lambda>k. device_report junk k (nand_info s1 ! k)) [0 ..< unat num_dev] (trace s1)"
    using report_loop_ready [of 0 "unat num_dev" s1 junk] s1(3) num(3) by auto
  have "c08e1_main env junk s = Inr s'" unfolding c08e1_main_def Let_def s1(1) rbind.simps s1(2) n
    using s'(1) num(2) by (simp add: uint_pos_iff)
  then show ?thesis using s'(2,3) s1(3) by (auto simp: same_nand_def nand_ready_def)
qed

theorem c08e1_main_reports_witness:
  "\<exists>s' t. c08e1_main (demo_regs 1 6) (\<lambda>h. 7) c08_boot = Inr s' \<and> trace s' = device_report (\<lambda>h. 7) 0 (nand_info s' ! 0) t"
  using c08e1_main_reports [where env = "demo_regs 1 6" and s = c08_boot and num_dev = 1 and junk = "\<lambda>h. 7"] demo_regs_ok
  by (simp add: demo_regs_def) blast

end
