(* ===== verification/Spec2Isabelle.thy ===== *)
theory Spec2Isabelle
  imports Flash Startup_Rom Exc_Nested C04 Uart_Asm Syscalls_Cs3 Timer_Race C05 C06 C07_Clock C08
begin

text \<open>
  \<^bold>\<open>The program.\<close> The repository holds the bare-metal programs of a book on ARM programming. They run
  on the goldfish virtual board without an operating system: start-up assembly builds a vector
  table and calls \<open>main\<close>, the drivers under \<^verbatim>\<open>src/drivers\<close> talk to the board's devices through memory-mapped
  registers, stubs for the C library connect \<open>printf\<close> and \<open>malloc\<close> to the serial console and to a heap,
  and the programs of the chapters c05 to c08 exercise one driver each; those of c03 and c04 are a few lines of assembly.
  This development models the C code of the drivers and programs, and the assembly: the exception handlers, the start-up code, the
  debugging output and the programs of c03 and c04.

  \<^bold>\<open>How the parts interact.\<close> A program calls a driver; a driver reads and writes device registers with
  \<open>readl\<close> and \<open>writel\<close>. The NAND driver divides with \<open>do_div\<close>. The clock driver reads the timer driver and converts with
  the calendar functions. The C library stubs print through the serial driver. The reset handler prepares
  memory, stacks and vectors for the C code. An interrupt goes through the vector to the assembly of \<open>ARM_irq\<close>, which saves
  the context and calls \<open>BSP_irq\<close>; that masks the interrupt at the controller, calls the program's
  \<open>irq_handler\<close> with the processor open for other interrupts, and unmasks the interrupt again; handler and main loop
  share global variables. A software interrupt goes through \<open>ARM_swi\<close> to \<open>sw_handler\<close>.

  \<^bold>\<open>The model.\<close> Every C function is one definition with the name of the function (a leading underscore becomes
  the prefix \<open>sys\<close>, or \<open>cs3\<close> for the second version of a stub; functions that have the same name in several programs
  carry the program's name, and an assembly routine whose name is also a field of the vector table the prefix \<open>asm\<close>). The state
  is a record that each component extends with its own global variables; the basic record \<open>machine\<close>
  has the memory and the trace of the register accesses and of the calls of \<open>printf\<close> and \<open>getchar\<close>; the record \<open>arm\<close>
  adds the banked registers and the status registers of the processor for the assembly. The
  devices are not part of the repository and are the parameter \<open>env\<close>: what a register read
  returns and what a device stores into memory, as a function of the trace so far. What a driver needs of
  its device is a named predicate on \<open>env\<close>, taken from the comments in the headers: \<open>goldfish_timer\<close>,
  \<open>goldfish_tty\<close>, \<open>desc_ok\<close>, \<open>goldfish_flash\<close>, \<open>controller_quiet\<close>. The C library that c06 links against is the record \<open>libc\<close> with
  the predicate \<open>libc_ok\<close>, and what the assembly needs of a C function is \<open>aapcs\<close>. Each of them is satisfied by a concrete instance in the witnesses. The
  types \<open>unsigned\<close>, \<open>unsigned long\<close> and pointers are 32-bit words, \<open>uint64_t\<close> and \<open>loff_t\<close> 64-bit words,
  \<open>char\<close> is unsigned as in the ARM ABI. An operation that C leaves undefined (division by zero, signed
  overflow, an index outside an array, a null pointer) is a value of type \<open>fault\<close>, so that a statement
  about a result is also a statement that no such operation happens.

  \<^bold>\<open>The theories.\<close>
  \<^item> Prelude: types, faults, checked signed arithmetic, word lemmas (the collection \<open>word_nat\<close>).
  \<^item> Bus: \<^verbatim>\<open>include/bsp.h\<close> and \<^verbatim>\<open>include/hardware.h\<close>; trace, memory, environment, the memory map, bytes and strings in memory.
  \<^item> Div64: \<open>do_div\<close> and \<open>lldiv\<close> of \<^verbatim>\<open>include/div64.h\<close> and \<open>__div64_32\<close> of \<^verbatim>\<open>c08/c08e1/c08e1.c\<close>. Both loops terminate, and the
    division is exact (C1). Locale \<open>divider\<close> is the contract of the comment in the header.
  \<^item> Timer: \<^verbatim>\<open>drivers/timer.c\<close>. Delays end and end on time (C23), the alarm is set to the requested time
    without loss of the carry (C24); the unit of the clocks and the advancing time stamp are lemmas.
  \<^item> Timer_Race: \<open>get_timer_masked\<close> in steps, interrupted by a handler that reads the time itself: by how much the time stamp is off, for
    every point of the interruption (C25). The steps in sequence are the function (lemma \<open>timer_steps_function\<close>).
  \<^item> Date: \<^verbatim>\<open>c07/c07e3/date.c\<close>, \<^verbatim>\<open>c07/c07e3/rtc.h\<close>. Both conversions against a reference calendar and against
    each other (C19 to C21); a lemma on the behaviour after 2038. Locale \<open>calendar\<close>.
  \<^item> Rtc: \<^verbatim>\<open>c07/c07e3/rtc-goldfish.c\<close>. The clock keeps the time it was set to (C22).
  \<^item> Nand, Nand_Init: \<^verbatim>\<open>c08/c08e1/goldfish_nand.c\<close> with the parts of \<^verbatim>\<open>mtd.h\<close>, \<^verbatim>\<open>mtd-abi.h\<close> and
    \<^verbatim>\<open>goldfish_nand_reg.h\<close> it uses. Page transfers, erase, spare area and bad blocks (C2, C3, C5 to C7): which requests
    are accepted, and exactly which command reaches the controller; pages do not overlap. Initialisation (C8
    to C10) establishes the geometry invariant \<open>mtd_wf\<close> that the operations rely on. Locale
    \<open>page_op\<close> is the contract that reading and writing share.
  \<^item> Flash: a controller with cells behind the NAND commands, and the driver as a refinement of an array of
    pages (C4): every sequence of writes, reads and erasures of pages through the driver has the effect of the same
    operations on the array.
  \<^item> Serial: \<^verbatim>\<open>drivers/serial_goldfish.c\<close>, \<^verbatim>\<open>include/serial_goldfish.h\<close>. Output of strings and the input as a queue
    (C32, C33). Locale \<open>console\<close> is what a client needs of a character sink.
  \<^item> Uart_Asm: \<^verbatim>\<open>drivers/goldfish_uart.S\<close>. What the routines \<open>printhex8\<close>, \<open>printhex4\<close> and \<open>printhex2\<close> send is the number, in hexadecimal (C34);
    strings and single characters are lemmas.
  \<^item> Syscalls, Syscalls_Cs3: \<^verbatim>\<open>drivers/syscalls.c\<close>, \<^verbatim>\<open>drivers/syscalls_cs3.c\<close>. Reading, writing and the heap (C35, C36, C38, lemma \<open>sbrk_blocks\<close>); the two files
    agree, each translated from its own source (lemma \<open>stubs_agree\<close>). Locale \<open>program_break\<close> is the contract of both versions of \<open>_sbrk\<close>.
  \<^item> Bsp, Isr: \<^verbatim>\<open>drivers/bsp.c\<close>, \<^verbatim>\<open>drivers/low_level_init.c\<close>, \<^verbatim>\<open>drivers/isr.c\<close>. The controller and the vectors (lemmas \<open>vector_table\<close>,
    \<open>BSP_init_hooks\<close>); \<open>BSP_irq\<close> on the state of the processor, with its two \<open>MSR\<close> instructions (C12 is about it), and nested interrupts as a step relation: its
    invariant (lemma \<open>isr_no_reentry\<close>), the mask of the controller in every nesting, and how many steps let all activations return (C26).
  \<^item> Arm, Exc: the instructions and registers that the assembly uses, and \<^verbatim>\<open>drivers/arm_exc.S\<close>. The handlers for IRQ, FIQ and the software
    interrupt give every register back (lemmas \<open>ARM_irq_transparent\<close> and those beside it); locking of interrupts; the arguments of \<open>BSP_abort\<close>.
  \<^item> Exc_Nested: activations of \<open>ARM_irq\<close> on top of each other, with their frames on one stack: in every sequence of steps, an activation that returns gives
    the code it interrupted its registers and its stack back (C14).
  \<^item> Startup: \<^verbatim>\<open>startup.S\<close> of c05 (C16), \<^verbatim>\<open>startup_c07e1.S\<close> (C18) and \<^verbatim>\<open>startup_c07e2.S\<close>. Areas of memory, and what the loops over them do.
  \<^item> Startup_Rom: \<^verbatim>\<open>drivers/startup.S\<close> (C17) and \<^verbatim>\<open>drivers/startup_cs3.S\<close>.
  \<^item> C04: the programs of c03 and c04; the sum of an array of bytes (C37), and lemmas on the sums of two words.
  \<^item> C05, C06, C07, C08: the programs. c05e2 echoes its input and ends (C39), the string functions; c06 allocates and frees
    properly and ends (lemma \<open>c06e2_main_run\<close>); the clock commands (C40) and the interrupt handler of c07e3 (lemma \<open>c07e3_interrupts\<close>); the report of c08e1 (C11), where the
    arguments of \<open>printf\<close> are placed in registers by the calling convention, as some are 64-bit numbers under the conversion \<open>%d\<close>.
  \<^item> C07_Race: the main loop of c07e1 in steps, interleaved with its interrupt handler: what holds in every interleaving (C27), and which
    key presses are lost (C28). The steps in sequence are the loop body of theory C07 (lemma \<open>c07e1_micro_iteration\<close>).
  \<^item> Nested: a program, cut into steps, under \<open>BSP_irq\<close> with nested interrupts, as one step relation; what holds of the stack of activations and
    of the mask for every program is in the locale \<open>nested_program\<close>, which the next two theories interpret. A step of a program that faults ends the
    run, with the fault in the state.
  \<^item> C07_Nested: the main loop and the handler of c07e2 in steps, and the whole system with nested interrupts (C29). The steps in sequence are the
    functions of theory C07 (lemmas \<open>c07e2_irq_run_handler\<close>, \<open>c07e2_micro_iteration\<close>).
  \<^item> C07_Clock: the same for c07e3 (C30), where the only fault that is possible is the overflow of \<open>timeout\<close>, and which interruptions of one handler by another separate the flag \<open>timer_irq\<close> from
    the alarm (C31). The steps in sequence are the functions of theory C07 (lemmas \<open>c07e3_irq_cut_handler\<close>, \<open>c07e3_micro_iteration\<close>).
  \<^item> This theory: an interrupt from the exception to the return, through assembly, controller and handler (C12), a
    system call from user mode (C13), and c05e1 from reset to the result of its \<open>main\<close> (C15).

  \<^bold>\<open>Loops.\<close> No definition uses fuel. A loop with a measure is a terminating function. The busy loops of
  \<open>__udelay\<close>, \<open>udelay_masked\<close> and \<open>_read\<close>, the loops of c05e2 and c06 that wait for input, the loops over zero-terminated strings and the loops of
  the start-up code that compare addresses as signed numbers may run for
  ever: they are partial functions into \<open>option\<close>, and the properties state that the result is \<open>Some\<close>.
  The endless loops at the end of \<open>main\<close>, of \<open>_exit\<close> and of \<open>BSP_abort\<close> are not entered: the definitions return
  the state before them, and an iteration of a program's main loop is a definition of its own.

  \<^bold>\<open>Not modelled.\<close> Linker scripts and makefiles: the symbols they define are arguments. Of \<^verbatim>\<open>mtd.h\<close> and \<^verbatim>\<open>mtd-abi.h\<close> the structures, constants and
  prototypes that nothing refers to, of \<^verbatim>\<open>div64.h\<close> the error numbers that no function returns. The text
  that \<open>printf\<close> makes of a format and its arguments; elsewhere than in theory C08 the event has the arguments as they are passed, not what a conversion reads. The Thumb forms of the calls and returns in the assembly, and the instruction fetch: a
  straight-line piece of assembly is a list of instructions. In theory C07_Race the handler is one step, as it runs with interrupts disabled; the
  reads of the timer inside a step of the main program are not separated, as they share nothing with the handler. Theories C07_Race, C07_Nested and C07_Clock start at the main loop, so interrupts during the initialisation of \<open>main\<close> are not included. In theories C07_Nested and C07_Clock the accesses
  of one call of a driver are one step, and so is a system call, which runs with interrupts disabled; an interrupt in the middle of a call
  of \<open>get_ticks\<close> or \<open>__udelay\<close> is the subject of theory Timer_Race, where the two reads of the assignment \<open>timestamp += now - lastdec\<close> have one of the two
  orders that C allows. Theory Exc_Nested has no FIQs; the code that runs between two interrupts is one step there, with its calling convention as
  a condition.
\<close>

section \<open>An interrupt from the vector to the return\<close>

lemma arm_bus [simp]:
  fixes s :: "'a arm_scheme"
  shows "arm_regs (writel env v a s) = arm_regs s" "arm_cpsr (writel env v a s) = arm_cpsr s" "arm_spsr (writel env v a s) = arm_spsr s"
    "arm_regs (snd (readl env a s)) = arm_regs s" "arm_cpsr (snd (readl env a s)) = arm_cpsr s" "arm_spsr (snd (readl env a s)) = arm_spsr s"
    "arm_regs (printf f xs s) = arm_regs s" "arm_cpsr (printf f xs s) = arm_cpsr s" "arm_spsr (printf f xs s) = arm_spsr s"
  by (simp_all add: writel_def readl_def printf_def Let_def)

lemma reg_bus [simp]:
  fixes s :: "'a arm_scheme"
  shows "reg n (writel env v a s) = reg n s" "reg n (snd (readl env a s)) = reg n s" "reg n (printf f xs s) = reg n s"
  by (simp_all add: reg_def)

text \<open>The controller does not write to memory.\<close>

definition controller_quiet :: "env \<Rightarrow> bool" where
  "controller_quiet env \<longleftrightarrow> (\<forall>h v m.
     env_dma env (h @ [Wr (IO_ADDRESS GOLDFISH_INTERRUPT_BASE + GOLDFISH_INTERRUPT_DISABLE) v]) m = m \<and>
     env_dma env (h @ [Wr (IO_ADDRESS GOLDFISH_INTERRUPT_BASE + GOLDFISH_INTERRUPT_ENABLE) v]) m = m)"

lemma controller_mem:
  assumes "controller_quiet env"
  shows "mem (goldfish_mask_irq env i m) = mem m" "mem (goldfish_unmask_irq env i m) = mem m"
  using assms by (simp_all add: goldfish_mask_irq_def goldfish_unmask_irq_def controller_quiet_def)

lemma controller_arm [simp]:
  fixes s :: "'a arm_scheme"
  shows "arm_regs (goldfish_mask_irq env i s) = arm_regs s" "arm_cpsr (goldfish_mask_irq env i s) = arm_cpsr s"
    "arm_spsr (goldfish_mask_irq env i s) = arm_spsr s" "reg n (goldfish_mask_irq env i s) = reg n s"
    "arm_regs (goldfish_unmask_irq env i s) = arm_regs s" "arm_cpsr (goldfish_unmask_irq env i s) = arm_cpsr s"
    "arm_spsr (goldfish_unmask_irq env i s) = arm_spsr s" "reg n (goldfish_unmask_irq env i s) = reg n s"
    "arm_regs (snd (goldfish_get_irq_num env s)) = arm_regs s" "arm_cpsr (snd (goldfish_get_irq_num env s)) = arm_cpsr s"
    "arm_spsr (snd (goldfish_get_irq_num env s)) = arm_spsr s" "reg n (snd (goldfish_get_irq_num env s)) = reg n s"
    "mem (snd (goldfish_get_irq_num env s)) = mem s"
  by (simp_all add: goldfish_mask_irq_def goldfish_unmask_irq_def goldfish_get_irq_num_def)

lemma MSR_cpsr_c_exec:
  fixes s :: "'a arm_scheme"
  assumes "mode_of (arm_cpsr s) = SYS_MODE" and "v = 0x1F \<or> v = 0x9F"
  shows "mode_of (arm_cpsr (exec (MSR_cpsr_c v) s)) = SYS_MODE" "arm_cpsr (exec (MSR_cpsr_c v) s) AND NO_IRQ = v AND NO_IRQ"
    "reg n (exec (MSR_cpsr_c v) s) = reg n s" "arm_regs (exec (MSR_cpsr_c v) s) = arm_regs s" "arm_spsr (exec (MSR_cpsr_c v) s) = arm_spsr s"
    "mem (exec (MSR_cpsr_c v) s) = mem s" "trace (exec (MSR_cpsr_c v) s) = trace s"
proof -
  have m: "mode_of (arm_cpsr s) \<noteq> 0x10" using assms(1) by simp
  have e: "exec (MSR_cpsr_c v) s = s\<lparr>arm_cpsr := (arm_cpsr s AND - 256) OR (v AND 0xFF)\<rparr>" using set_cpsr_c [OF m] by simp
  show mode: "mode_of (arm_cpsr (exec (MSR_cpsr_c v) s)) = SYS_MODE" using assms(2) unfolding e by auto
  show "reg n (exec (MSR_cpsr_c v) s) = reg n s" using mode assms(1) by (simp add: reg_def e)
  show "arm_cpsr (exec (MSR_cpsr_c v) s) AND NO_IRQ = v AND NO_IRQ" using assms(2) unfolding e by (auto simp: bit.conj_disj_distrib2 and.assoc)
qed (simp_all add: set_cpsr_def Let_def)

text \<open>\<open>BSP_irq\<close> opens the processor for its handler and closes it again, and keeps what its handler keeps.\<close>

lemma BSP_irq_aapcs:
  fixes c :: "'a arm_scheme"
  assumes dma: "controller_quiet env" and sys: "mode_of (arm_cpsr c) = SYS_MODE" and irq: "irq = fst (goldfish_get_irq_num env c)"
    and c1: "c1 = exec (MSR_cpsr_c 0x1F) (goldfish_mask_irq env irq (snd (goldfish_get_irq_num env c)))"
    and h: "aapcs n keep c1 (irq_handler irq c1)"
  shows "mode_of (arm_cpsr c1) = SYS_MODE" "arm_cpsr c1 AND NO_IRQ = 0" "irq_enabled (trace c1) = irq_enabled (trace c) - {irq}"
    and "arm_cpsr (BSP_irq env irq_handler c) AND NO_IRQ = NO_IRQ" "mem (BSP_irq env irq_handler c) = mem (irq_handler irq c1)"
    and "irq_enabled (trace (BSP_irq env irq_handler c)) = insert irq (irq_enabled (trace (irq_handler irq c1)))"
    and "aapcs n keep c (BSP_irq env irq_handler c)"
proof -
  let ?m = "goldfish_mask_irq env irq (snd (goldfish_get_irq_num env c))" and ?t = "irq_handler irq c1"
  have b: "BSP_irq env irq_handler c = goldfish_unmask_irq env irq (exec (MSR_cpsr_c 0x9F) ?t)"
    unfolding BSP_irq_def Let_def split_beta irq [symmetric] c1 [symmetric] by simp
  have m: "mode_of (arm_cpsr ?m) = SYS_MODE" using sys by simp
  note open_cpu = MSR_cpsr_c_exec [OF m disjI1 [OF refl], folded c1]
  show c1m: "mode_of (arm_cpsr c1) = SYS_MODE" "arm_cpsr c1 AND NO_IRQ = 0" using open_cpu(1,2) by simp_all
  have t: "mode_of (arm_cpsr ?t) = SYS_MODE" using h c1m(1) by (simp add: aapcs_def)
  note close_cpu = MSR_cpsr_c_exec [OF t disjI2 [OF refl]]
  show "irq_enabled (trace c1) = irq_enabled (trace c) - {irq}" by (simp only: open_cpu(7)) simp
  show "arm_cpsr (BSP_irq env irq_handler c) AND NO_IRQ = NO_IRQ" using close_cpu(2) by (simp add: b)
  show "mem (BSP_irq env irq_handler c) = mem ?t" by (simp only: b controller_mem [OF dma] close_cpu(6))
  show "irq_enabled (trace (BSP_irq env irq_handler c)) = insert irq (irq_enabled (trace ?t))"
    by (simp only: b irq_enabled_functions close_cpu(7))
  show "aapcs n keep c (BSP_irq env irq_handler c)"
    using h sys t close_cpu(1) unfolding aapcs_def b
    by (simp only: controller_arm controller_mem [OF dma] close_cpu(3-6) open_cpu(3-6) c1m(1)) simp
qed

text \<open>C12: an interrupt is serviced and is invisible to the interrupted code. From the exception through \<open>ARM_irq\<close> and \<open>BSP_irq\<close>
  to the return: the program's handler runs with the number of the interrupt, in system mode, with this interrupt masked at the controller and the processor open for others, and
  the rest of \<open>BSP_irq\<close> runs with the processor closed again; then the interrupted code continues where it was with all its registers, memory is as the handler left
  it, and the mask of the controller is as before with this interrupt enabled. The handler, with everything that interrupts it in turn, is assumed to keep what the procedure call standard
  says, to leave the banks of the exception modes alone, and to end with the mask of the controller as at its start; the controller is assumed not to write to memory.\<close>

theorem interrupt_service:
  fixes s :: "'a arm_scheme"
  assumes th: "mode_of (arm_cpsr s) \<in> {USR_MODE, SYS_MODE, SVC_MODE, ABT_MODE, UND_MODE}" and dma: "controller_quiet env"
    and c: "c = run [LDR_const 12 addr, LDR_const 14 ret] (run ARM_irq_entry (take_exception IRQ_MODE NO_IRQ p s))"
    and irq: "irq = fst (goldfish_get_irq_num env c)"
    and c1: "c1 = exec (MSR_cpsr_c 0x1F) (goldfish_mask_irq env irq (snd (goldfish_get_irq_num env c)))"
    and h: "aapcs 32 {SVC_MODE, ABT_MODE, UND_MODE} c1 (irq_handler irq c1)" "irq_enabled (trace (irq_handler irq c1)) = irq_enabled (trace c1)"
    and s': "s' = asm_ARM_irq addr ret (BSP_irq env irq_handler) (take_exception IRQ_MODE NO_IRQ p s)"
  shows "irq \<notin> irq_enabled (trace c1) \<and> mode_of (arm_cpsr c1) = SYS_MODE \<and> arm_cpsr c1 AND NO_IRQ = 0 \<and>
    arm_cpsr (BSP_irq env irq_handler c) AND NO_IRQ = NO_IRQ \<and>
    resumed p {SVC_MODE, ABT_MODE, UND_MODE} s (BSP_irq env irq_handler c) s' \<and>
    mem s' = mem (irq_handler irq c1) \<and> irq_enabled (trace s') = insert irq (irq_enabled (trace s))"
proof -
  have c': "c = handler_entry 0x12 0x80 addr ret p s" using c unfolding handler_entry_def irq_code by simp
  have sys: "mode_of (arm_cpsr c) = SYS_MODE" using handler_entry_state(1) [OF _ _ refl refl c'] by simp
  have tc: "trace c = trace s" by (rule handler_entry_state(6) [OF _ _ refl refl c']) simp_all
  note b = BSP_irq_aapcs [where irq_handler = irq_handler, OF dma sys irq c1 h(1)]
  have th': "mode_of (arm_cpsr s) \<in> {USR_MODE, SYS_MODE} \<union> {SVC_MODE, ABT_MODE, UND_MODE}" using th by auto
  note r = irq_resumed [OF th' order_refl c b(7) s']
  then have "trace s' = trace (BSP_irq env irq_handler c)" "mem s' = mem (BSP_irq env irq_handler c)" by (simp_all add: resumed_def)
  moreover have "insert irq (irq_enabled (trace (irq_handler irq c1))) = insert irq (irq_enabled (trace s))" using b(3) h(2) tc by auto
  ultimately show ?thesis using r b(1-6) by simp
qed

theorem interrupt_service_witness:
  "irq_enabled (trace (asm_ARM_irq 0x100 0x200 (BSP_irq idle_env (\<lambda>irq. printf ''tick'' [uint irq]))
       (take_exception IRQ_MODE NO_IRQ 0x8000 demo_thread))) = {3} \<and>
   arm_pc (asm_ARM_irq 0x100 0x200 (BSP_irq idle_env (\<lambda>irq. printf ''tick'' [uint irq]))
       (take_exception IRQ_MODE NO_IRQ 0x8000 demo_thread)) = 0x8000"
proof -
  let ?h = "\<lambda>irq :: u32. (printf ''tick'' [uint irq] :: arm \<Rightarrow> arm)"
  have q: "controller_quiet idle_env" by (simp add: controller_quiet_def idle_env_def)
  have a: "aapcs 32 {SVC_MODE, ABT_MODE, UND_MODE} c1 (?h irq c1)" for irq c1 by (simp add: aapcs_def)
  have k: "irq_enabled (trace (?h irq c1)) = irq_enabled (trace c1)" for irq c1 by (simp add: irq_mask_step_def)
  define c where "c = run [LDR_const 12 0x100, LDR_const 14 0x200] (run ARM_irq_entry (take_exception IRQ_MODE NO_IRQ 0x8000 demo_thread))"
  have n: "fst (goldfish_get_irq_num idle_env c) = 3" by (simp add: goldfish_get_irq_num_def idle_env_def)
  have e: "irq_enabled (trace demo_thread) = {}" by (simp add: demo_thread_def irq_enabled_def)
  define s' where "s' = asm_ARM_irq 0x100 0x200 (BSP_irq idle_env ?h) (take_exception IRQ_MODE NO_IRQ 0x8000 demo_thread)"
  have "resumed 0x8000 {SVC_MODE, ABT_MODE, UND_MODE} demo_thread (BSP_irq idle_env ?h c) s' \<and> irq_enabled (trace s') = {3}"
    using interrupt_service [where irq_handler = ?h, OF demo_thread_mode(1) q c_def refl refl a k s'_def]
    unfolding n e by simp
  then show ?thesis unfolding resumed_def s'_def by blast
qed

section \<open>A system call from user mode\<close>

lemma arm_sw_handler [simp]:
  fixes c :: "'a arm_scheme"
  shows "arm_regs (sw_handler n c) = arm_regs c" "arm_cpsr (sw_handler n c) = arm_cpsr c" "arm_spsr (sw_handler n c) = arm_spsr c"
    "reg k (sw_handler n c) = reg k c" "mem (sw_handler n c) = mem c" "trace (sw_handler n c) = trace c @ [Printf ''=>Inside sw_handler, num=%d.\<newline>'' [n]]"
  by (simp_all add: sw_handler_def)

text \<open>C13: a system call of c07e2. When a thread in user mode executes the instruction \<open>SWI 0x8\<close> of \<open>SystemCall\<close>, \<open>ARM_swi\<close> calls \<open>sw_handler\<close>
  with the number 8 in supervisor mode, and the thread continues behind the instruction, in user mode and with its registers as
  they were. What it sees is what the definition \<open>SystemCall\<close> says, one line printed. The compiled \<open>sw_handler\<close> is any function \<open>f\<close> on the state of the processor that prints the line of
  \<open>sw_handler\<close>, with the number it finds in \<open>r0\<close>, keeps what the procedure call standard says, the saved status register and the stack of the thread, and uses
  at most \<open>d\<close> bytes of stack, and the instruction does not lie in the frame that \<open>ARM_swi\<close> pushes; memory then changes only in the 56 bytes of the frame and the \<open>d\<close> bytes below it.\<close>

theorem system_call:
  fixes s :: "'a arm_scheme"
  assumes usr: "mode_of (arm_cpsr s) = USR_MODE" and swi: "load32 (mem s) p = 0xEF000008"
    and p: "\<forall>k < 4. 56 \<le> unat (p + of_nat k - (arm_regs s SVC_MODE 13 - 56))"
    and c: "c = run [LDR_const 14 ret] (run ARM_swi_entry (take_exception SVC_MODE NO_IRQ p s))"
    and prints: "trace (f c) = trace (sw_handler (sint (reg 0 c)) c)"
    and keeps: "aapcs 56 {} c (f c)" "arm_spsr (f c) SVC_MODE = arm_spsr c SVC_MODE" "\<forall>k \<in> {13, 14}. arm_regs (f c) USR_MODE k = arm_regs c USR_MODE k"
    and stack: "\<forall>a. d \<le> unat (a - (reg 13 c - of_nat d)) \<longrightarrow> mem (f c) a = mem c a"
    and s': "s' = asm_ARM_swi ret f (take_exception SVC_MODE NO_IRQ p s)"
  shows "trace s' = trace (SystemCall s) \<and> arm_pc s' = p + 4 \<and> arm_cpsr s' = arm_cpsr s \<and>
    (\<forall>n < 15. reg n s' = reg n s) \<and> arm_regs s' SVC_MODE 13 = arm_regs s SVC_MODE 13 \<and>
    (\<forall>a. 56 + d \<le> unat (a - (arm_regs s SVC_MODE 13 - of_nat (56 + d))) \<longrightarrow> mem s' a = mem s a)"
proof -
  note cs = swi_call_state [OF p c]
  have r: "resumed (p + 4) {} s (f c) s'" "arm_regs s' SVC_MODE 13 = arm_regs s SVC_MODE 13"
    using swi_resumed [OF _ c keeps s'] usr by simp_all
  have mc: "mem (f c) a = mem s a" if a: "56 + d \<le> unat (a - (arm_regs s SVC_MODE 13 - of_nat (56 + d)))" for a
  proof -
    define x where "x = a - (arm_regs s SVC_MODE 13 - of_nat (56 + d))"
    have x: "a - (arm_regs s SVC_MODE 13 - 56) = x - of_nat d" "a - (reg 13 c - of_nat d) = x" by (simp_all add: x_def cs(3))
    have "d < 2 ^ 32" using a unsigned_less [of x, where 'a = nat] unfolding x_def by (simp del: unsigned_less)
    then have "unat (of_nat d :: u32) = d" by (simp add: unat_of_nat take_bit_eq_mod)
    moreover from this have "(of_nat d :: u32) \<le> x" using a by (simp add: word_le_nat_alt x_def)
    ultimately have "unat (x - of_nat d) = unat x - d" by (simp add: unat_sub)
    then have out: "56 \<le> unat (a - (arm_regs s SVC_MODE 13 - 56))" using a unfolding x x_def by simp
    have c': "c = swi_entry ret p s" by (simp only: c swi_entry_def)
    have "mem c a = mem s a"
      using out by (simp add: swi_entry_state(3) [OF refl refl c' refl] store_words_outside del: store_words.simps)
    moreover have "mem (f c) a = mem c a" using stack a unfolding x(2) [symmetric] x_def [symmetric] by (auto simp: x)
    ultimately show ?thesis by simp
  qed
  have "sint (reg 0 c) = 8" using cs(4) unfolding swi by (simp add: sint_u32)
  then have "trace (f c) = trace (SystemCall s)" using prints cs(5) by (simp add: SystemCall_def)
  then show ?thesis using r mc unfolding resumed_def by simp
qed

text \<open>A compiled handler: it pushes two registers, changes others, prints, and pops.\<close>

definition demo_sw_handler :: "arm \<Rightarrow> arm" where
  "demo_sw_handler c = run [ADD_imm 13 13 8] (sw_handler (sint (reg 0 c)) (run [STMFD 13 [4, 14], MOV_imm 3 0, MOV_imm 14 0x300] c))"

lemma demo_sw_handler_run:
  assumes "mode_of (arm_cpsr c) = 0x13"
  shows "demo_sw_handler c = c\<lparr>trace := trace c @ [Printf ''=>Inside sw_handler, num=%d.\<newline>'' [sint (reg 0 c)]],
    mem := store_words (reg 13 c - 8) [reg 4 c, reg 14 c] (mem c),
    arm_regs := (arm_regs c)(0x10 := (arm_regs c 0x10)(3 := 0), 0x13 := (arm_regs c 0x13)(14 := 0x300))\<rparr>"
proof -
  have u: "(h :: nat \<Rightarrow> u32)(14 := x, 13 := h 13) = h(14 := x)" for h x by (simp add: fun_eq_iff)
  show ?thesis
    using assms by (simp add: demo_sw_handler_def sw_handler_def printf_def reg_def set_reg_def bank_def bank_upd_def Let_def fun_upd_twist u)
qed

lemma demo_sw_handler_keeps:
  assumes "mode_of (arm_cpsr c) = 0x13"
  shows "trace (demo_sw_handler c) = trace (sw_handler (sint (reg 0 c)) c)" "aapcs 56 {} c (demo_sw_handler c)"
    "arm_spsr (demo_sw_handler c) SVC_MODE = arm_spsr c SVC_MODE" "\<forall>k \<in> {13, 14}. arm_regs (demo_sw_handler c) USR_MODE k = arm_regs c USR_MODE k"
    "\<forall>a. 8 \<le> unat (a - (reg 13 c - of_nat 8)) \<longrightarrow> mem (demo_sw_handler c) a = mem c a"
proof -
  note d = demo_sw_handler_run [OF assms]
  show out: "\<forall>a. 8 \<le> unat (a - (reg 13 c - of_nat 8)) \<longrightarrow> mem (demo_sw_handler c) a = mem c a"
    by (simp add: d store_words_outside del: store_words.simps)
  have "8 \<le> unat (reg 13 c + of_nat k - (reg 13 c - of_nat 8))" if "k < 56" for k
  proof -
    have "unat (of_nat (k + 8) :: u32) = k + 8" using that by (simp only: unat_of_nat take_bit_eq_mod) simp
    then show ?thesis by (simp add: add.commute)
  qed
  then have "\<forall>k < 56. mem (demo_sw_handler c) (reg 13 c + of_nat k) = mem c (reg 13 c + of_nat k)" using out by blast
  moreover have "reg k (demo_sw_handler c) = reg k c" if "k \<in> {4..11} \<union> {13}" for k
    using that assms by (auto simp: d reg_def bank_def)
  ultimately show "aapcs 56 {} c (demo_sw_handler c)" using assms by (simp add: aapcs_def d)
qed (simp_all add: demo_sw_handler_run [OF assms])

theorem system_call_witness:
  "trace (asm_ARM_swi 0x200 demo_sw_handler (take_exception SVC_MODE NO_IRQ 0x8000 (demo_thread\<lparr>arm_cpsr := 0x10, mem := store32 0x8000 0xEF000008 (\<lambda>_. 0)\<rparr>))) =
   [Printf ''=>Inside sw_handler, num=%d.\<newline>'' [8]]"
proof -
  let ?s = "demo_thread\<lparr>arm_cpsr := 0x10, mem := store32 0x8000 0xEF000008 (\<lambda>_. 0)\<rparr>"
  have m: "arm_regs ?s SVC_MODE 13 = 0x7000" "trace ?s = []" by (simp_all add: demo_thread_def)
  have u: "mode_of (arm_cpsr ?s) = USR_MODE" "load32 (mem ?s) 0x8000 = 0xEF000008" by (simp_all add: mode_of_def)
  define c where "c = run [LDR_const 14 0x200] (run ARM_swi_entry (take_exception SVC_MODE NO_IRQ 0x8000 ?s))"
  have "mode_of (arm_cpsr c) = 0x13" using swi_call_state(1) [OF demo_outside [OF m(1)] c_def] by simp
  note k = demo_sw_handler_keeps [OF this]
  show ?thesis using system_call [where f = demo_sw_handler and d = 8, OF u demo_outside [OF m(1)] c_def k refl] by (simp add: SystemCall_def m(2))
qed

text \<open>The status register in the model of c07e2 is the one that \<open>EnterUserMode\<close> changes.\<close>

lemma enter_user_mode_code:
  "mode_of (arm_cpsr s) \<noteq> USR_MODE \<Longrightarrow> arm_cpsr (run EnterUserMode s) = enter_user_mode (arm_cpsr s)"
  by (simp add: EnterUserMode_run enter_user_mode_def)

section \<open>From reset to the result of a program\<close>

lemma below_area: "unat x < unat a \<Longrightarrow> unat a + n \<le> 2 ^ 32 \<Longrightarrow> x \<notin> area a n"
  using area_bounds [of x a n] by fastforce

definition demo_flash :: memory where
  "demo_flash = store32 0x10404 0x10380 (store32 0x10400 0x10300 ((\<lambda>_. 0)(0x10300 := 103, 0x10301 := 111, 0x10380 := 67)))"

text \<open>C15: c05e1 from reset to the result of \<open>main\<close>. \<open>ResetISR\<close> ends, and \<open>main\<close>, with the arguments it passes, returns the length of
  the name of the UART. Both the array of arguments, which is the word at \<open>version\<close>, and the pointer to the name are initialised data, which
  the start-up code has copied; the strings themselves stay in the flash memory, outside the sections it writes to.\<close>

theorem c05e1_from_reset:
  assumes priv: "mode_of (arm_cpsr s) \<noteq> USR_MODE"
    and data: "unat (edata ld) = unat (ld_data ld) + nd" and bss: "unat (ebss ld) = unat (ld_bss ld) + nb"
    and stack: "unat (stack_end ld) = unat (stack_start ld) + 4 * ns" "unat (stack_end ld) < 2 ^ 31"
    and disj: "area (etext ld) nd \<inter> area (ld_data ld) nd = {}" "area (ld_data ld) nd \<inter> area (ld_bss ld) nb = {}"
      "area (ld_data ld) nd \<inter> area (stack_start ld) (4 * ns) = {}" "area (ld_bss ld) nb \<inter> area (stack_start ld) (4 * ns) = {}"
    and ram: "ram = area (ld_data ld) nd \<union> area (ld_bss ld) nb \<union> area (stack_start ld) (4 * ns)"
    and version: "ld_version ld = ld_data ld + of_nat i" "i + 4 \<le> nd" "a = load32 (mem s) (etext ld + of_nat i)"
      "cstring (mem s) a cs" "\<forall>k \<le> length cs. a + of_nat k \<notin> ram" "length cs < 2 ^ 31"
    and name: "uart_name = ld_data ld + of_nat j" "j + 4 \<le> nd" "b = load32 (mem s) (etext ld + of_nat j)"
      "cstring (mem s) b us" "\<forall>k \<le> length us. b + of_nat k \<notin> ram" "length us < 2 ^ 31"
  shows "\<exists>s'. ResetISR ld s = Some s' \<and>
    c05e1_main (mem s') (map (\<lambda>k. load32 (mem s') (reg 1 s' + 4 * of_nat k)) [0 ..< unat (reg 0 s')]) (load32 (mem s') uart_name) =
      Some (int (length us))"
proof -
  obtain r where "ResetISR ld s = Some (s\<lparr>mem := reset_mem ld nd nb ns (mem s), arm_cpsr := (arm_cpsr s AND - 256) OR (0xDF AND 0xFF),
      arm_regs := (arm_regs s)(0x12 := (arm_regs s 0x12)(13 := irq_stack_top ld), 0x11 := (arm_regs s 0x11)(13 := fiq_stack_top ld),
        0x13 := (arm_regs s 0x13)(13 := svc_stack_top ld), 0x17 := (arm_regs s 0x17)(13 := abt_stack_top ld),
        0x1B := (arm_regs s 0x1B)(13 := und_stack_top ld), 0x10 := r)\<rparr>)" "r 0 = 1" "r 1 = ld_version ld"
    using ResetISR_run [OF priv data bss stack] unfolding reset_mem_def by blast
  then obtain s' where s': "ResetISR ld s = Some s'" "reg 0 s' = 1" "reg 1 s' = ld_version ld" "mem s' = reset_mem ld nd nb ns (mem s)"
    by (simp add: reg_lo)
  note copied = reset_mem_facts(1) [OF data bss stack disj, of _ "mem s", folded s'(4)]
  have kept: "\<forall>x. x \<notin> ram \<longrightarrow> mem s' x = mem s x" using reset_mem_facts(4) [OF data bss stack disj] by (simp add: s'(4) ram)
  have word: "load32 (mem s') (ld_data ld + of_nat k) = load32 (mem s) (etext ld + of_nat k)" if "k + 4 \<le> nd" for k
  proof (rule load32_bytes)
    fix q :: nat assume "q < 4"
    then show "mem s' (ld_data ld + of_nat k + of_nat q) = mem s (etext ld + of_nat k + of_nat q)"
      using copied [of "k + q"] that by (simp add: add.assoc)
  qed
  have "cstring (mem s') a cs" "cstring (mem s') b us"
    using version(4,5) name(4,5) kept cstring_cong [of cs "mem s'" a "mem s"] cstring_cong [of us "mem s'" b "mem s"] by simp_all
  then have "strlen (mem s') a = Some (int (length cs))" "strlen (mem s') b = Some (int (length us))"
    using version(6) name(6) by (simp_all add: strlen_cstring)
  then show ?thesis using s' word [OF version(2)] word [OF name(2)] version(1,3) name(1,3) by (simp add: c05e1_main_def)
qed

theorem c05e1_from_reset_witness:
  "\<exists>s'. ResetISR demo_ld (demo_thread\<lparr>arm_cpsr := 0xD3, mem := demo_flash\<rparr>) = Some s' \<and>
    c05e1_main (mem s') (map (\<lambda>k. load32 (mem s') (reg 1 s' + 4 * of_nat k)) [0 ..< unat (reg 0 s')]) (load32 (mem s') 0x30000) = Some 2"
proof -
  let ?s = "demo_thread\<lparr>arm_cpsr := 0xD3, mem := demo_flash\<rparr>"
  let ?ram = "area (ld_data demo_ld) 8 \<union> area (ld_bss demo_ld) 8 \<union> area (stack_start demo_ld) (4 * 24)"
  have priv: "mode_of (arm_cpsr ?s) \<noteq> USR_MODE" by (simp add: mode_of_def)
  have w: "load32 demo_flash 0x10400 = 0x10300" "load32 demo_flash 0x10404 = 0x10380"
    by (simp_all add: demo_flash_def load32_store32_other)
  have str: "cstring (mem ?s) 0x10300 [103, 111]" "cstring (mem ?s) 0x10380 [67]"
    by (simp_all add: demo_flash_def store32_def)
  have ld: "etext demo_ld = 0x10400" "ld_data demo_ld = 0x30000" "edata demo_ld = 0x30008" "ld_bss demo_ld = 0x30008" "ebss demo_ld = 0x30010"
    "stack_start demo_ld = 0x30010" "stack_end demo_ld = 0x30070" "ld_version demo_ld = 0x30004" by (simp_all add: demo_ld_def)
  have rom: "x \<notin> ?ram" if "unat x < 0x30000" for x
    using that below_area [of x "0x30000" 8] below_area [of x "0x30008" 8] below_area [of x "0x30010" 96] by (simp add: ld)
  have rom_str: "\<forall>k \<le> length [103 :: u8, 111]. 0x10300 + of_nat k \<notin> ?ram" "\<forall>k \<le> length [67 :: u8]. 0x10380 + of_nat k \<notin> ?ram"
    by (intro allI impI rom, simp add: le_Suc_eq, elim disjE; simp)+
  have apart: "area (etext demo_ld) 8 \<inter> area (ld_data demo_ld) 8 = {}" "area (ld_data demo_ld) 8 \<inter> area (ld_bss demo_ld) 8 = {}"
    "area (ld_data demo_ld) 8 \<inter> area (stack_start demo_ld) (4 * 24) = {}" "area (ld_bss demo_ld) 8 \<inter> area (stack_start demo_ld) (4 * 24) = {}"
    unfolding ld by (rule area_disjoint; simp)+
  have "\<exists>s'. ResetISR demo_ld ?s = Some s' \<and>
    c05e1_main (mem s') (map (\<lambda>k. load32 (mem s') (reg 1 s' + 4 * of_nat k)) [0 ..< unat (reg 0 s')]) (load32 (mem s') 0x30000) =
      Some (int (length [103 :: u8, 111]))"
    by (rule c05e1_from_reset [where i = 4 and j = 0 and a = "0x10380" and b = "0x10300" and cs = "[67]",
          OF priv _ _ _ _ apart refl _ _ _ str(2) rom_str(2) _ _ _ _ str(1) rom_str(1)])
      (simp_all add: ld w)
  then show ?thesis by simp
qed

end
